(* ===== verification/Go_Prelude.thy ===== *)
theory Go_Prelude
  imports Main "HOL-Library.Char_ord" "HOL-Library.List_Lexorder" "HOL-Library.Multiset"
begin

text \<open>
  The vocabulary every component of the sse-proxy model shares: how a Go \<open>(value, error)\<close>
  pair, a fixed-width integer, a point in time and a slice are written in HOL, the collections of
  simplification rules the component proofs use, and the generic lemmas on lists and results.

  \<^item> A Go error is its message text; a call that returns \<open>(v, err)\<close> is a sum, \<open>Inl\<close> the error.
  \<^item> A Go \<open>int64\<close> is an \<open>int\<close> with the two's-complement wrap-around (\<open>i64\<close>) written at every
    addition.
  \<^item> A \<open>time.Time\<close> is the number of nanoseconds since the Unix epoch and a \<open>time.Duration\<close> a
    number of nanoseconds; \<open>Unix()\<close> rounds towards minus infinity, as Go's does.
  \<^item> A Go string is its list of bytes (a HOL \<open>char\<close> is one byte).
\<close>

section \<open>Results\<close>

type_synonym go_error = string

type_synonym 'a result = "go_error + 'a"

named_theorems go_simps \<open>equations that unfold the model's small helper operations\<close>

named_theorems http_simps \<open>equations of the response writer and the request accessors\<close>

definition is_ok :: "'e + 'a \<Rightarrow> bool" where
  "is_ok r = (case r of Inl _ \<Rightarrow> False | Inr _ \<Rightarrow> True)"

lemma is_ok_simps [simp]: "\<not> is_ok (Inl e)" "is_ok (Inr v)"
  by (simp_all add: is_ok_def)

lemma is_ok_iff: "is_ok r \<longleftrightarrow> (\<exists>v. r = Inr v)"
  by (cases r) simp_all

section \<open>Fixed-width integers\<close>

definition i64 :: "int \<Rightarrow> int" where
  "i64 x = (x + 2 ^ 63) mod 2 ^ 64 - 2 ^ 63"

definition int64_range :: "int \<Rightarrow> bool" where
  "int64_range x \<longleftrightarrow> - (2 ^ 63) \<le> x \<and> x < 2 ^ 63"

lemma i64_id [simp]: "int64_range x \<Longrightarrow> i64 x = x"
  by (simp add: i64_def int64_range_def)

lemma i64_range: "int64_range (i64 x)"
proof -
  have "0 \<le> (x + 2 ^ 63) mod 2 ^ 64" "(x + 2 ^ 63) mod 2 ^ 64 < (2 ^ 64 :: int)"
    by simp_all
  then show ?thesis by (simp add: i64_def int64_range_def)
qed

lemma i64_add_i64 [simp]: "i64 (i64 x + y) = i64 (x + y)"
proof -
  have "(i64 x + y + 2 ^ 63) mod 2 ^ 64 = ((x + 2 ^ 63) mod 2 ^ 64 + y) mod 2 ^ 64"
    by (simp add: i64_def)
  also have "\<dots> = (x + 2 ^ 63 + y) mod 2 ^ 64"
    by (rule mod_add_left_eq)
  also have "x + 2 ^ 63 + y = x + y + 2 ^ 63"
    by (rule add.commute [THEN trans]) (simp add: add.assoc)
  finally show ?thesis
    unfolding i64_def [of "i64 x + y"] i64_def [of "x + y"] by (simp only:)
qed

lemma i64_add_right [simp]: "i64 (x + i64 y) = i64 (x + y)"
  using i64_add_i64 [of y x] by (simp add: add.commute)

lemma i64_add_mid [simp]: "i64 (x + (i64 y + z)) = i64 (x + (y + z))"
  using i64_add_i64 [of y "z + x"] by (simp add: algebra_simps)

lemma i64_max_wraps: "i64 (2 ^ 63 - 1 + 1) = - (2 ^ 63)"
  by (simp add: i64_def)

section \<open>Time\<close>

type_synonym time = int
type_synonym duration = int

definition second :: duration where "second = 1000000000"

definition unix :: "time \<Rightarrow> int" where
  "unix t = i64 (t div second)"

definition time_range :: "time \<Rightarrow> bool" where
  "time_range t \<longleftrightarrow> int64_range (t div second)"

lemma unix_mono: "time_range a \<Longrightarrow> time_range b \<Longrightarrow> a \<le> b \<Longrightarrow> unix a \<le> unix b"
  by (simp add: unix_def time_range_def second_def zdiv_mono1)

section \<open>Lists and maps\<close>

lemma fold_max_ge: "(m::int) \<le> foldl max m xs"
proof (induction xs arbitrary: m)
  case Nil
  then show ?case by simp
next
  case (Cons y ys)
  from Cons.IH [of "max m y"] show ?case by simp
qed

lemma foldl_max_upper: "x \<in> set xs \<Longrightarrow> x \<le> foldl max (m::int) xs"
proof (induction xs arbitrary: m)
  case Nil
  then show ?case by simp
next
  case (Cons y ys)
  then show ?case
    using fold_max_ge [of "max m y" ys] by auto
qed

lemma foldl_max_in: "foldl max (m::int) xs = m \<or> foldl max m xs \<in> set xs"
proof (induction xs arbitrary: m)
  case Nil
  then show ?case by simp
next
  case (Cons y ys)
  from Cons.IH [of "max m y"] show ?case by (auto simp: max_def split: if_splits)
qed

lemma filter_sorted_prefix:
  "sorted (map f xs) \<Longrightarrow> filter (\<lambda>x. f x < b) xs = takeWhile (\<lambda>x. f x < b) xs"
  for f :: "'a \<Rightarrow> 'b::linorder"
proof (induction xs)
  case Nil
  then show ?case by simp
next
  case (Cons x xs)
  show ?case
  proof (cases "f x < b")
    case True
    with Cons show ?thesis by simp
  next
    case False
    with Cons.prems have "\<forall>y \<in> set xs. \<not> f y < b" by fastforce
    with False show ?thesis by (auto simp: filter_empty_conv)
  qed
qed

lemma sum_list_map_add:
  "sum_list (map (\<lambda>x. f x + g x) xs) = sum_list (map f xs) + sum_list (map g xs)"
  for f :: "'a \<Rightarrow> 'b::comm_monoid_add"
  by (induction xs) (simp_all add: algebra_simps)

lemma length_filter_split: "length (filter P xs) + length (filter (\<lambda>x. \<not> P x) xs) = length xs"
  by (induction xs) simp_all

lemma map_of_SomeI_distinct:
  "distinct (map fst xs) \<Longrightarrow> (k, v) \<in> set xs \<Longrightarrow> map_of xs k = Some v"
  by simp

end
