(* ===== verification/Go_Chan.thy ===== *)
theory Go_Chan
  imports Go_Prelude
begin

text \<open>
  Go's buffered channels, as far as the hub uses them: the non-blocking send of a
  \<open>select\<close> with a \<open>default\<close>, the receive, \<open>len\<close> and \<open>close\<close>, with the run-time panics as values. The
  \<open>mailbox\<close> interface states what a bounded first-in first-out buffer promises to a producer that
  never waits; the fan-out lemmas of the hub are proved from it.
\<close>

datatype go_panic = SendOnClosedChannel | CloseOfClosedChannel | NilDereference

record 'a chan =
  ch_cap :: nat
  ch_buf :: "'a list"
  ch_closed :: bool

definition make_chan :: "nat \<Rightarrow> 'a chan" where
  "make_chan n = \<lparr>ch_cap = n, ch_buf = [], ch_closed = False\<rparr>"

text \<open>\<open>select { case ch <- x: ... default: ... }\<close>: the flag says which branch was taken.\<close>

definition chan_try_send :: "'a \<Rightarrow> 'a chan \<Rightarrow> go_panic + ('a chan \<times> bool)" where
  "chan_try_send x ch =
     (if ch_closed ch then Inl SendOnClosedChannel
      else if length (ch_buf ch) < ch_cap ch then Inr (ch\<lparr>ch_buf := ch_buf ch @ [x]\<rparr>, True)
      else Inr (ch, False))"

datatype 'a received = Got 'a | ChanClosed | WouldBlock

definition chan_recv :: "'a chan \<Rightarrow> 'a received \<times> 'a chan" where
  "chan_recv ch =
     (case ch_buf ch of
        x # xs \<Rightarrow> (Got x, ch\<lparr>ch_buf := xs\<rparr>)
      | [] \<Rightarrow> (if ch_closed ch then ChanClosed else WouldBlock, ch))"

definition close_chan :: "'a chan \<Rightarrow> go_panic + 'a chan" where
  "close_chan ch = (if ch_closed ch then Inl CloseOfClosedChannel else Inr (ch\<lparr>ch_closed := True\<rparr>))"

definition chan_room :: "'a chan \<Rightarrow> nat" where
  "chan_room ch = ch_cap ch - length (ch_buf ch)"

definition chan_ok :: "'a chan \<Rightarrow> bool" where
  "chan_ok ch \<longleftrightarrow> \<not> ch_closed ch \<and> length (ch_buf ch) \<le> ch_cap ch"

section \<open>A producer that never waits\<close>

text \<open>Offers each message in turn; counts the ones that were refused.\<close>

fun offer_all ::
  "('a \<Rightarrow> 'q \<Rightarrow> go_panic + ('q \<times> bool)) \<Rightarrow> 'a list \<Rightarrow> 'q \<Rightarrow> go_panic + ('q \<times> nat)" where
  "offer_all put [] q = Inr (q, 0)"
| "offer_all put (x # xs) q =
     (case put x q of
        Inl p \<Rightarrow> Inl p
      | Inr (q', ok) \<Rightarrow>
          (case offer_all put xs q' of
             Inl p \<Rightarrow> Inl p
           | Inr (q'', n) \<Rightarrow> Inr (q'', if ok then n else Suc n)))"

locale mailbox =
  fixes content :: "'q \<Rightarrow> 'a list"
    and room :: "'q \<Rightarrow> nat"
    and live :: "'q \<Rightarrow> bool"
    and put :: "'a \<Rightarrow> 'q \<Rightarrow> go_panic + ('q \<times> bool)"
    and get_one :: "'q \<Rightarrow> 'a received \<times> 'q"
  assumes put_room: "live q \<Longrightarrow> 0 < room q \<Longrightarrow>
      \<exists>q'. put x q = Inr (q', True) \<and> live q' \<and> content q' = content q @ [x]
         \<and> room q' = room q - 1"
    and put_full: "live q \<Longrightarrow> room q = 0 \<Longrightarrow> put x q = Inr (q, False)"
    and get_head: "live q \<Longrightarrow> content q = x # xs \<Longrightarrow>
      \<exists>q'. get_one q = (Got x, q') \<and> live q' \<and> content q' = xs \<and> room q' = Suc (room q)"
    and get_empty: "live q \<Longrightarrow> content q = [] \<Longrightarrow> get_one q = (WouldBlock, q)"
begin

lemma put_live: "live q \<Longrightarrow> \<exists>q' ok. put x q = Inr (q', ok) \<and> live q'"
  using put_room put_full by (cases "room q = 0") blast+

lemma offer_all_result:
  assumes "live q"
  shows "\<exists>q'. offer_all put xs q = Inr (q', length xs - room q)
      \<and> live q' \<and> content q' = content q @ take (room q) xs \<and> room q' = room q - length xs"
  using assms
proof (induction xs arbitrary: q)
  case Nil
  then show ?case by simp
next
  case (Cons x xs)
  show ?case
  proof (cases "room q = 0")
    case True
    with Cons.prems Cons.IH [of q] show ?thesis by (auto simp: put_full)
  next
    case False
    then obtain q1 where q1: "put x q = Inr (q1, True)" "live q1"
      "content q1 = content q @ [x]" "room q1 = room q - 1"
      using put_room [OF Cons.prems] by auto
    with Cons.IH [OF q1(2)] False show ?thesis
      by (cases "room q") auto
  qed
qed

lemma offer_all_fits:
  "live q \<Longrightarrow> length xs \<le> room q \<Longrightarrow>
     \<exists>q'. offer_all put xs q = Inr (q', 0) \<and> live q' \<and> content q' = content q @ xs"
  using offer_all_result [of q xs] by auto

lemma offer_all_no_panic: "live q \<Longrightarrow> offer_all put xs q \<noteq> Inl p"
  using offer_all_result [of q xs] by auto

lemma fifo:
  "live q \<Longrightarrow> content q = [] \<Longrightarrow> put x q = Inr (q', True) \<Longrightarrow> 0 < room q \<Longrightarrow>
     \<exists>q''. get_one q' = (Got x, q'') \<and> content q'' = []"
  using put_room [of q x] get_head [of q' x "[]"] by auto

end

text \<open>The model's channels are mailboxes.\<close>

interpretation chan: mailbox ch_buf chan_room chan_ok chan_try_send chan_recv
proof unfold_locales
  fix q :: "'a chan" and x
  assume "chan_ok q" "0 < chan_room q"
  then show "\<exists>q'. chan_try_send x q = Inr (q', True) \<and> chan_ok q' \<and> ch_buf q' = ch_buf q @ [x]
      \<and> chan_room q' = chan_room q - 1"
    by (auto simp: chan_try_send_def chan_ok_def chan_room_def)
next
  fix q :: "'a chan" and x
  assume "chan_ok q" "chan_room q = 0"
  then show "chan_try_send x q = Inr (q, False)"
    by (auto simp: chan_try_send_def chan_ok_def chan_room_def)
next
  fix q :: "'a chan" and x xs
  assume "chan_ok q" "ch_buf q = x # xs"
  then show "\<exists>q'. chan_recv q = (Got x, q') \<and> chan_ok q' \<and> ch_buf q' = xs
      \<and> chan_room q' = Suc (chan_room q)"
    by (auto simp: chan_recv_def chan_ok_def chan_room_def)
next
  fix q :: "'a chan"
  assume "chan_ok q" "ch_buf q = []"
  then show "chan_recv q = (WouldBlock, q)"
    by (auto simp: chan_recv_def chan_ok_def)
qed

lemma make_chan_ok [simp]: "chan_ok (make_chan n)" "chan_room (make_chan n) = n"
    "ch_buf (make_chan n) = []"
  by (simp_all add: make_chan_def chan_ok_def chan_room_def)

lemma chan_recv_ok: "chan_ok ch \<Longrightarrow> chan_ok (snd (chan_recv ch))"
  by (auto simp: chan_recv_def chan_ok_def split: list.splits)

lemma chan_try_send_cases:
  assumes "chan_ok ch"
  obtains (sent) ch' where "chan_try_send x ch = Inr (ch', True)" "chan_ok ch'"
      "ch_buf ch' = ch_buf ch @ [x]" "ch_cap ch' = ch_cap ch" "0 < chan_room ch"
    | (dropped) "chan_try_send x ch = Inr (ch, False)" "chan_room ch = 0"
proof (cases "length (ch_buf ch) < ch_cap ch")
  case True
  with assms show ?thesis
    by (intro sent [of "ch\<lparr>ch_buf := ch_buf ch @ [x]\<rparr>"])
      (auto simp: chan_try_send_def chan_ok_def chan_room_def)
next
  case False
  with assms show ?thesis
    by (intro dropped) (auto simp: chan_try_send_def chan_ok_def chan_room_def)
qed

end
