(* ===== verification/Go_Strings.thy ===== *)
theory Go_Strings
  imports Go_Prelude
begin

text \<open>
  The operations of Go's \<open>strings\<close>, \<open>strconv\<close>, \<open>unicode\<close> and \<open>net/url\<close> packages the proxy calls,
  on byte strings: splitting, cutting, joining, replacing, trimming, case folding, decimal
  conversion, percent-decoding and query parsing. Each is the function of the Go standard library
  restricted to the arguments the proxy passes, with its failures as \<open>None\<close>.
\<close>

section \<open>Characters\<close>

abbreviation nl :: char where "nl \<equiv> CHR 0x0A"
abbreviation apostrophe :: char where "apostrophe \<equiv> CHR 0x27"

definition byte :: "char \<Rightarrow> nat" where "byte c = of_char c"

definition is_digit :: "char \<Rightarrow> bool" where
  "is_digit c \<longleftrightarrow> 48 \<le> byte c \<and> byte c \<le> 57"

definition is_lower :: "char \<Rightarrow> bool" where
  "is_lower c \<longleftrightarrow> 97 \<le> byte c \<and> byte c \<le> 122"

definition is_upper :: "char \<Rightarrow> bool" where
  "is_upper c \<longleftrightarrow> 65 \<le> byte c \<and> byte c \<le> 90"

definition is_hex :: "char \<Rightarrow> bool" where
  "is_hex c \<longleftrightarrow> is_digit c \<or> (97 \<le> byte c \<and> byte c \<le> 102) \<or> (65 \<le> byte c \<and> byte c \<le> 70)"

definition unhex :: "char \<Rightarrow> nat" where
  "unhex c = (if is_digit c then byte c - 48
              else if 97 \<le> byte c then byte c - 87 else byte c - 55)"

definition lower_char :: "char \<Rightarrow> char" where
  "lower_char c = (if is_upper c then char_of (byte c + 32) else c)"

section \<open>strings\<close>

fun split_on :: "char \<Rightarrow> string \<Rightarrow> string list" where
  "split_on c [] = [[]]"
| "split_on c (x # xs) =
     (if x = c then [] # split_on c xs
      else (case split_on c xs of [] \<Rightarrow> [[x]] | y # ys \<Rightarrow> (x # y) # ys))"

text \<open>\<open>strings.Cut\<close>: the text before and after the first separator, and whether there is one.\<close>

fun cut :: "char \<Rightarrow> string \<Rightarrow> string \<times> string \<times> bool" where
  "cut c [] = ([], [], False)"
| "cut c (x # xs) =
     (if x = c then ([], xs, True)
      else (case cut c xs of (a, b, f) \<Rightarrow> (x # a, b, f)))"

text \<open>\<open>strings.FieldsFunc\<close>: the maximal non-empty runs of bytes that are not separators.\<close>

fun fields_func :: "(char \<Rightarrow> bool) \<Rightarrow> string \<Rightarrow> string \<Rightarrow> string list" where
  "fields_func p cur [] = (if cur = [] then [] else [rev cur])"
| "fields_func p cur (x # xs) =
     (if p x then (if cur = [] then fields_func p [] xs else rev cur # fields_func p [] xs)
      else fields_func p (x # cur) xs)"

fun join :: "string \<Rightarrow> string list \<Rightarrow> string" where
  "join sep [] = []"
| "join sep [x] = x"
| "join sep (x # y # ys) = x @ sep @ join sep (y # ys)"

fun is_prefix_of :: "string \<Rightarrow> string \<Rightarrow> bool" where
  "is_prefix_of [] s = True"
| "is_prefix_of (p # ps) [] = False"
| "is_prefix_of (p # ps) (c # cs) = (p = c \<and> is_prefix_of ps cs)"

text \<open>\<open>strings.Replace(s, old, new, 1)\<close> for a non-empty \<open>old\<close>.\<close>

fun replace1 :: "string \<Rightarrow> string \<Rightarrow> string \<Rightarrow> string" where
  "replace1 old new [] = []"
| "replace1 old new (c # cs) =
     (if is_prefix_of old (c # cs) then new @ drop (length old) (c # cs)
      else c # replace1 old new cs)"

text \<open>
  \<open>strings.TrimSpace\<close>: the sizes of the UTF-8 encoded Unicode spaces at the front of a string and
  (reversed) at its end, zero where there is none.
\<close>

definition ascii_space :: "char \<Rightarrow> bool" where
  "ascii_space c \<longleftrightarrow> (9 \<le> byte c \<and> byte c \<le> 13) \<or> byte c = 32"

definition space3 :: "nat \<Rightarrow> nat \<Rightarrow> nat \<Rightarrow> bool" where
  "space3 a b c \<longleftrightarrow>
     (a = 0xE1 \<and> b = 0x9A \<and> c = 0x80) \<or>
     (a = 0xE2 \<and> b = 0x80 \<and> ((0x80 \<le> c \<and> c \<le> 0x8A) \<or> c = 0xA8 \<or> c = 0xA9 \<or> c = 0xAF)) \<or>
     (a = 0xE2 \<and> b = 0x81 \<and> c = 0x9F) \<or>
     (a = 0xE3 \<and> b = 0x80 \<and> c = 0x80)"

definition space2 :: "nat \<Rightarrow> nat \<Rightarrow> bool" where
  "space2 a b \<longleftrightarrow> a = 0xC2 \<and> (b = 0x85 \<or> b = 0xA0)"

function trim_left :: "string \<Rightarrow> string" where
  "trim_left [] = []"
| "trim_left (a # s) =
     (if ascii_space a then trim_left s
      else (case s of
              [] \<Rightarrow> a # s
            | b # s' \<Rightarrow>
                if space2 (byte a) (byte b) then trim_left s'
                else (case s' of
                        [] \<Rightarrow> a # s
                      | c # s'' \<Rightarrow>
                          if space3 (byte a) (byte b) (byte c) then trim_left s'' else a # s)))"
  by pat_completeness auto
termination
  by (relation "measure length") auto

function trim_left_rev :: "string \<Rightarrow> string" where
  "trim_left_rev [] = []"
| "trim_left_rev (c # s) =
     (if ascii_space c then trim_left_rev s
      else (case s of
              [] \<Rightarrow> c # s
            | b # s' \<Rightarrow>
                if space2 (byte b) (byte c) then trim_left_rev s'
                else (case s' of
                        [] \<Rightarrow> c # s
                      | a # s'' \<Rightarrow>
                          if space3 (byte a) (byte b) (byte c) then trim_left_rev s''
                          else c # s)))"
  by pat_completeness auto
termination
  by (relation "measure length") auto

definition trim_space :: "string \<Rightarrow> string" where
  "trim_space s = rev (trim_left_rev (rev (trim_left s)))"

definition trim_right_char :: "char \<Rightarrow> string \<Rightarrow> string" where
  "trim_right_char c s = rev (dropWhile (\<lambda>x. x = c) (rev s))"

text \<open>
  \<open>strings.ToLower\<close>, as far as a comparison with an ASCII literal can see: besides \<open>A-Z\<close>, the
  only code points whose lower case is ASCII are U+212A (Kelvin sign, to \<open>k\<close>) and U+0130 (to \<open>i\<close>).
  Every other non-ASCII byte stays non-ASCII, so it is left as it is.
\<close>

fun to_lower :: "string \<Rightarrow> string" where
  "to_lower (a # b # c # s) =
     (if byte a = 0xE2 \<and> byte b = 0x84 \<and> byte c = 0xAA then CHR ''k'' # to_lower s
      else if byte a = 0xC4 \<and> byte b = 0xB0 then CHR ''i'' # to_lower (c # s)
      else lower_char a # to_lower (b # c # s))"
| "to_lower [a, b] =
     (if byte a = 0xC4 \<and> byte b = 0xB0 then [CHR ''i''] else [lower_char a, lower_char b])"
| "to_lower [a] = [lower_char a]"
| "to_lower [] = []"

text \<open>
  \<open>strings.EqualFold\<close> against an ASCII literal without \<open>k\<close> and \<open>s\<close>, the only two ASCII letters to
  which a non-ASCII code point folds; the proxy compares with \<open>bearer\<close> and \<open>true\<close> only.
\<close>

definition equal_fold :: "string \<Rightarrow> string \<Rightarrow> bool" where
  "equal_fold s t \<longleftrightarrow> map lower_char s = map lower_char t"

section \<open>strconv\<close>

function dec_digits :: "nat \<Rightarrow> string" where
  "dec_digits n =
     (if n < 10 then [char_of (48 + n)] else dec_digits (n div 10) @ [char_of (48 + n mod 10)])"
  by pat_completeness auto
termination
  by (relation "measure id") auto

declare dec_digits.simps [simp del]

definition itoa :: "int \<Rightarrow> string" where
  "itoa i = (if i < 0 then CHR ''-'' # dec_digits (nat (- i)) else dec_digits (nat i))"

fun digits_value :: "nat \<Rightarrow> string \<Rightarrow> nat option" where
  "digits_value acc [] = Some acc"
| "digits_value acc (c # cs) =
     (if is_digit c then digits_value (10 * acc + (byte c - 48)) cs else None)"

text \<open>\<open>strconv.Atoi\<close> on a 64-bit platform: \<open>None\<close> for a syntax or a range error.\<close>

definition atoi_body :: "string \<Rightarrow> nat option" where
  "atoi_body s = (if s = [] then None else digits_value 0 s)"

definition atoi :: "string \<Rightarrow> int option" where
  "atoi s =
     (let (neg, ds) =
        (case s of
           c # cs \<Rightarrow> if c = CHR ''-'' then (True, cs)
                     else if c = CHR ''+'' then (False, cs) else (False, s)
         | [] \<Rightarrow> (False, []))
      in (case atoi_body ds of
            None \<Rightarrow> None
          | Some n \<Rightarrow>
              let v = (if neg then - int n else int n)
              in if int64_range v then Some v else None))"

section \<open>net/url\<close>

text \<open>\<open>url.QueryUnescape\<close>: \<open>%XX\<close> and \<open>+\<close>; \<open>None\<close> for a malformed escape.\<close>

fun query_unescape :: "string \<Rightarrow> string option" where
  "query_unescape [] = Some []"
| "query_unescape (c # s) =
     (if c = CHR ''%'' then
        (case s of
           a # b # s' \<Rightarrow>
             if is_hex a \<and> is_hex b
             then map_option ((#) (char_of (16 * unhex a + unhex b))) (query_unescape s')
             else None
         | _ \<Rightarrow> None)
      else if c = CHR ''+'' then map_option ((#) CHR '' '') (query_unescape s)
      else map_option ((#) c) (query_unescape s))"

text \<open>
  \<open>url.ParseQuery\<close>: the pairs in the order they are appended to the \<open>url.Values\<close> map. A pair with a
  semicolon in it, an empty pair, and a pair whose key or value has a malformed escape is dropped.
\<close>

definition parse_pair :: "string \<Rightarrow> (string \<times> string) option" where
  "parse_pair p =
     (if CHR '';'' \<in> set p \<or> p = [] then None
      else (case cut CHR ''='' p of (k, v, _) \<Rightarrow>
              (case query_unescape k of
                 None \<Rightarrow> None
               | Some k' \<Rightarrow>
                   (case query_unescape v of None \<Rightarrow> None | Some v' \<Rightarrow> Some (k', v')))))"

definition parse_query :: "string \<Rightarrow> (string \<times> string) list" where
  "parse_query raw = List.map_filter parse_pair (split_on CHR ''&'' raw)"

type_synonym url_values = "(string \<times> string) list"

text \<open>\<open>url.Values.Get\<close>: the first value of the key, the empty string when there is none.\<close>

definition values_get :: "string \<Rightarrow> url_values \<Rightarrow> string" where
  "values_get k q = (case map_of q k of None \<Rightarrow> [] | Some v \<Rightarrow> v)"

section \<open>Laws of the string operations\<close>

subsection \<open>Bytes\<close>

lemma byte_char_of [simp]: "n < 256 \<Longrightarrow> byte (char_of n) = n"
  by (simp add: byte_def)

lemma char_of_byte [simp]: "char_of (byte c) = c"
  by (simp add: byte_def)

lemma byte_less [simp]: "byte c < 256"
  using of_char_mod_256 [of c, where 'a = nat] unfolding byte_def
  by (metis mod_less_divisor zero_less_numeral)

lemma byte_inject [simp]: "byte a = byte b \<longleftrightarrow> a = b"
  by (metis char_of_byte)

lemma is_digit_digit: "(n::nat) < 10 \<Longrightarrow> is_digit (char_of (48 + n))"
  by (simp add: is_digit_def)

subsection \<open>Splitting and joining\<close>

lemma split_on_not_Nil [simp]: "split_on c s \<noteq> []"
  by (induction s) (auto split: list.splits)

lemma split_on_other:
  "x \<noteq> c \<Longrightarrow> split_on c (x # xs) = (x # hd (split_on c xs)) # tl (split_on c xs)"
  by (cases "split_on c xs") simp_all

lemma split_on_no_sep: "p \<in> set (split_on c s) \<Longrightarrow> c \<notin> set p"
proof (induction s arbitrary: p)
  case Nil
  then show ?case by simp
next
  case (Cons x xs)
  show ?case
  proof (cases "x = c")
    case True
    with Cons show ?thesis by auto
  next
    case False
    obtain y ys where ys: "split_on c xs = y # ys"
      by (cases "split_on c xs") simp_all
    with False Cons.prems have "p = x # y \<or> p \<in> set ys" by simp
    with False Cons.IH ys show ?thesis by auto
  qed
qed

lemma join_split_on: "join [c] (split_on c s) = s"
proof (induction s)
  case Nil
  then show ?case by simp
next
  case (Cons x xs)
  obtain y ys where ys: "split_on c xs = y # ys"
    by (cases "split_on c xs") simp_all
  with Cons show ?case by (cases ys) auto
qed

lemma split_on_plain: "c \<notin> set s \<Longrightarrow> split_on c s = [s]"
  by (induction s) auto

lemma split_on_append_sep:
  "c \<notin> set p \<Longrightarrow> split_on c (p @ c # s) = p # split_on c s"
  by (induction p) auto

lemma split_on_join:
  "\<forall>p \<in> set ps. c \<notin> set p \<Longrightarrow> ps \<noteq> [] \<Longrightarrow> split_on c (join [c] ps) = ps"
  by (induction "[c]" ps rule: join.induct) (simp_all add: split_on_plain split_on_append_sep)

lemma cut_found: "cut c s = (a, b, True) \<Longrightarrow> s = a @ c # b \<and> c \<notin> set a"
  by (induction s arbitrary: a) (auto split: if_splits prod.splits)

lemma cut_not_found: "cut c s = (a, b, False) \<Longrightarrow> a = s \<and> b = [] \<and> c \<notin> set s"
  by (induction s arbitrary: a) (auto split: if_splits prod.splits)

lemma cut_append: "c \<notin> set a \<Longrightarrow> cut c (a @ c # b) = (a, b, True)"
  by (induction a) auto

lemma cut_plain: "c \<notin> set s \<Longrightarrow> cut c s = (s, [], False)"
  by (induction s) auto

text \<open>Every non-empty \<open>&\<close> piece without a \<open>;\<close> is one of the fields cut at \<open>&\<close> or \<open>;\<close>.\<close>

lemma fields_func_pieces:
  assumes "a \<noteq> b"
  shows "(b \<notin> set (hd (split_on a s)) \<longrightarrow> rev cur @ hd (split_on a s) \<noteq> []
            \<longrightarrow> rev cur @ hd (split_on a s) \<in> set (fields_func (\<lambda>c. c = a \<or> c = b) cur s))
       \<and> (\<forall>q \<in> set (tl (split_on a s)). b \<notin> set q \<longrightarrow> q \<noteq> []
            \<longrightarrow> q \<in> set (fields_func (\<lambda>c. c = a \<or> c = b) cur s))"
proof (induction s arbitrary: cur)
  case Nil
  then show ?case by simp
next
  case (Cons x xs)
  obtain y ys where ys: "split_on a xs = y # ys"
    by (cases "split_on a xs") simp_all
  consider "x = a" | "x = b" | "x \<noteq> a" "x \<noteq> b" by blast
  then show ?case
  proof cases
    case 1
    with Cons.IH [of "[]"] ys show ?thesis by (cases "cur = []") auto
  next
    case 2
    with Cons.IH [of "[]"] ys assms show ?thesis by (cases "cur = []") auto
  next
    case 3
    with Cons.IH [of "x # cur"] ys show ?thesis by auto
  qed
qed

lemma split_piece_in_fields:
  assumes "a \<noteq> b" "q \<in> set (split_on a s)" "b \<notin> set q" "q \<noteq> []"
  shows "q \<in> set (fields_func (\<lambda>c. c = a \<or> c = b) [] s)"
  using fields_func_pieces [OF assms(1), of s "[]"] assms(2-)
  by (cases "split_on a s") auto

subsection \<open>Replacing\<close>

lemma is_prefix_of_iff: "is_prefix_of p s \<longleftrightarrow> (\<exists>t. s = p @ t)"
  by (induction p s rule: is_prefix_of.induct) auto

lemma is_prefix_of_append [simp]: "is_prefix_of p (p @ s)"
  by (auto simp: is_prefix_of_iff)

text \<open>\<open>pat\<close> does not begin inside \<open>pre\<close> when \<open>pre\<close> is followed by \<open>pat\<close>.\<close>

fun no_match :: "string \<Rightarrow> string \<Rightarrow> string \<Rightarrow> bool" where
  "no_match pat [] rest = True"
| "no_match pat (c # cs) rest = (\<not> is_prefix_of pat (c # cs @ rest) \<and> no_match pat cs rest)"

lemma replace1_append:
  "no_match pat pre (pat @ suf) \<Longrightarrow> pat \<noteq> [] \<Longrightarrow> replace1 pat new (pre @ pat @ suf) = pre @ new @ suf"
proof (induction pre)
  case Nil
  then obtain c cs where "pat = c # cs" by (cases pat) auto
  then show ?case by (simp add: is_prefix_of_iff)
next
  case (Cons c cs)
  then show ?case by simp
qed

lemma no_match_first_char: "hd pat \<notin> set pre \<Longrightarrow> pat \<noteq> [] \<Longrightarrow> no_match pat pre rest"
  by (induction pre) (cases pat; auto)+

subsection \<open>Decimal numbers\<close>

lemma dec_digits_not_Nil [simp]: "dec_digits n \<noteq> []"
  by (subst dec_digits.simps) simp

lemma dec_digits_digits: "c \<in> set (dec_digits n) \<Longrightarrow> is_digit c"
proof (induction n rule: dec_digits.induct)
  case (1 n)
  then show ?case
    by (subst (asm) dec_digits.simps) (auto simp: is_digit_digit split: if_splits)
qed

lemma digits_value_append:
  "digits_value a (xs @ ys) =
     (case digits_value a xs of None \<Rightarrow> None | Some b \<Rightarrow> digits_value b ys)"
  by (induction xs arbitrary: a) auto

lemma digits_value_dec_digits:
  "digits_value a (dec_digits n) = Some (a * 10 ^ length (dec_digits n) + n)"
proof (induction n arbitrary: a rule: dec_digits.induct)
  case (1 n)
  show ?case
  proof (cases "n < 10")
    case True
    then show ?thesis by (simp add: dec_digits.simps [of n] is_digit_digit)
  next
    case False
    have m: "n mod 10 < 10" by simp
    from False "1.IH" [of a] show ?thesis
      by (simp add: dec_digits.simps [of n] digits_value_append is_digit_digit [OF m] algebra_simps)
  qed
qed

lemma digits_not_sign: "is_digit c \<Longrightarrow> c \<noteq> CHR ''-'' \<and> c \<noteq> CHR ''+''"
  by (auto simp: is_digit_def byte_def)

lemma atoi_dec_digits: "int64_range (int n) \<Longrightarrow> atoi (dec_digits n) = Some (int n)"
proof -
  assume r: "int64_range (int n)"
  obtain c cs where cs: "dec_digits n = c # cs"
    by (cases "dec_digits n") simp_all
  then have "c \<noteq> CHR ''-'' \<and> c \<noteq> CHR ''+''"
    using dec_digits_digits [of c n] digits_not_sign by simp
  moreover have "digits_value 0 (c # cs) = Some n"
    using digits_value_dec_digits [of 0 n] cs by simp
  ultimately show ?thesis using r cs by (simp add: atoi_def atoi_body_def)
qed

theorem atoi_itoa: "int64_range i \<Longrightarrow> atoi (itoa i) = Some i"
proof (cases "i < 0")
  case True
  assume r: "int64_range i"
  have "digits_value 0 (dec_digits (nat (- i))) = Some (nat (- i))"
    using digits_value_dec_digits [of 0 "nat (- i)"] by simp
  with True r show ?thesis by (simp add: itoa_def atoi_def atoi_body_def)
next
  case False
  assume "int64_range i"
  with False show ?thesis
    using atoi_dec_digits [of "nat i"] by (simp add: itoa_def)
qed

lemma atoi_range: "atoi s = Some v \<Longrightarrow> int64_range v"
  by (auto simp: atoi_def Let_def split: prod.splits option.splits if_splits)

lemma itoa_inject: "int64_range i \<Longrightarrow> int64_range j \<Longrightarrow> itoa i = itoa j \<Longrightarrow> i = j"
  by (metis atoi_itoa option.inject)

lemma itoa_chars: "c \<in> set (itoa i) \<Longrightarrow> is_digit c \<or> c = CHR ''-''"
  by (auto simp: itoa_def dest: dec_digits_digits split: if_splits)

subsection \<open>Query strings\<close>

text \<open>A string without the characters the query syntax interprets stands for itself.\<close>

definition url_plain :: "string \<Rightarrow> bool" where
  "url_plain s \<longleftrightarrow>
     (\<forall>c \<in> set s. c \<noteq> CHR ''%'' \<and> c \<noteq> CHR ''+'' \<and> c \<noteq> CHR ''&'' \<and> c \<noteq> CHR '';'' \<and> c \<noteq> CHR ''='')"

lemma query_unescape_plain: "url_plain s \<Longrightarrow> query_unescape s = Some s"
  by (induction s rule: query_unescape.induct) (auto simp: url_plain_def)

lemma parse_pair_Some:
  "parse_pair p = Some (k, v) \<Longrightarrow>
     p \<noteq> [] \<and> CHR '';'' \<notin> set p \<and> query_unescape (fst (cut CHR ''='' p)) = Some k"
  by (auto simp: parse_pair_def split: if_splits option.splits prod.splits)

lemma parse_query_piece:
  "(k, v) \<in> set (parse_query raw) \<Longrightarrow>
     \<exists>p \<in> set (split_on CHR ''&'' raw). parse_pair p = Some (k, v)"
  by (force simp: parse_query_def List.map_filter_def)

lemma values_get_nonempty: "values_get k q \<noteq> [] \<Longrightarrow> (k, values_get k q) \<in> set q"
  by (auto simp: values_get_def split: option.splits dest: map_of_SomeD)

end
