(* ===== verification/Ns_Scope.thy ===== *)
theory Ns_Scope
  imports Go_Strings
begin

text \<open>
  \<open>nsScope\<close> of \<open>rbac.go\<close>: the set of namespaces a caller may observe, the membership test applied
  to every event, the header that announces the scope, and the ClickHouse array literal that
  carries the set into a query. A nil \<open>*nsScope\<close> (scoping disabled) is \<open>None\<close>.
\<close>

record ns_scope =
  allow_all :: bool
  namespaces :: "string list"

definition allows :: "ns_scope option \<Rightarrow> string \<Rightarrow> bool" where
  "allows sc ns =
     (case sc of
        None \<Rightarrow> True
      | Some s \<Rightarrow> if allow_all s then True else list_ex (\<lambda>n. n = ns) (namespaces s))"

definition restricted :: "ns_scope option \<Rightarrow> bool" where
  "restricted sc = (case sc of None \<Rightarrow> False | Some s \<Rightarrow> \<not> allow_all s)"

definition scope_header_name :: string where
  "scope_header_name = ''X-Krateo-Event-Scope''"

definition scope_header_value :: "ns_scope option \<Rightarrow> string option" where
  "scope_header_value sc =
     (case sc of
        None \<Rightarrow> None
      | Some s \<Rightarrow>
          if allow_all s then Some ''*''
          else if length (namespaces s) = 0 then Some ''none''
          else Some (join '','' (namespaces s)))"

text \<open>The list a handler reads from a scope after \<open>restricted\<close> has excluded nil.\<close>

definition scope_list :: "ns_scope option \<Rightarrow> string list" where
  "scope_list sc = (case sc of None \<Rightarrow> [] | Some s \<Rightarrow> namespaces s)"

section \<open>RFC 1123 labels and the array literal\<close>

definition label_edge :: "char \<Rightarrow> bool" where
  "label_edge c \<longleftrightarrow> is_lower c \<or> is_digit c"

definition label_inner :: "char \<Rightarrow> bool" where
  "label_inner c \<longleftrightarrow> c = CHR ''-'' \<or> is_lower c \<or> is_digit c"

text \<open>\<open>^[a-z0-9]([-a-z0-9]{0,61}[a-z0-9])?$\<close>\<close>

definition dns_label :: "string \<Rightarrow> bool" where
  "dns_label s =
     (case s of
        [] \<Rightarrow> False
      | c # cs \<Rightarrow> label_edge c \<and>
          (cs = [] \<or> (length (butlast cs) \<le> 61 \<and> list_all label_inner (butlast cs)
                       \<and> label_edge (last cs))))"

text \<open>
  The \<open>%q\<close> verb: quotes, backslashes and ASCII control bytes escaped. Bytes from 0x80 on are
  copied (Go escapes those that do not encode a printable character); the text is only ever an
  error message.
\<close>

definition hex_digit :: "nat \<Rightarrow> char" where
  "hex_digit n = (if n < 10 then char_of (48 + n) else char_of (87 + n))"

definition quote_char :: "char \<Rightarrow> string" where
  "quote_char c =
     (if c = CHR 0x22 then [CHR 0x5C, CHR 0x22]
      else if c = CHR 0x5C then [CHR 0x5C, CHR 0x5C]
      else if c = CHR 0x07 then [CHR 0x5C, CHR ''a'']
      else if c = CHR 0x08 then [CHR 0x5C, CHR ''b'']
      else if c = CHR 0x0C then [CHR 0x5C, CHR ''f'']
      else if c = CHR 0x0A then [CHR 0x5C, CHR ''n'']
      else if c = CHR 0x0D then [CHR 0x5C, CHR ''r'']
      else if c = CHR 0x09 then [CHR 0x5C, CHR ''t'']
      else if c = CHR 0x0B then [CHR 0x5C, CHR ''v'']
      else if byte c < 32 \<or> byte c = 127
        then [CHR 0x5C, CHR ''x'', hex_digit (byte c div 16), hex_digit (byte c mod 16)]
      else [c])"

definition go_quote :: "string \<Rightarrow> string" where
  "go_quote s = CHR 0x22 # concat (map quote_char s) @ [CHR 0x22]"

fun quote_namespaces :: "string list \<Rightarrow> string list \<Rightarrow> string list result" where
  "quote_namespaces acc [] = Inr acc"
| "quote_namespaces acc (ns # nss) =
     (if \<not> dns_label ns then Inl (''invalid namespace name '' @ go_quote ns)
      else quote_namespaces (acc @ [apostrophe # ns @ [apostrophe]]) nss)"

definition clickhouse_array_param :: "string list \<Rightarrow> string result" where
  "clickhouse_array_param nss =
     (case quote_namespaces [] nss of
        Inl e \<Rightarrow> Inl e
      | Inr quoted \<Rightarrow> Inr (''['' @ join '','' quoted @ '']''))"

section \<open>The scope as a policy\<close>

text \<open>
  What the fan-out, the query builders and the handlers rely on: an unrestricted scope shows
  everything, a restricted one exactly the namespaces it lists.
\<close>

locale scope_policy =
  fixes permits :: "'s \<Rightarrow> string \<Rightarrow> bool"
    and bounded :: "'s \<Rightarrow> bool"
    and listed :: "'s \<Rightarrow> string list"
  assumes unbounded_permits: "\<not> bounded s \<Longrightarrow> permits s ns"
    and bounded_permits: "bounded s \<Longrightarrow> permits s ns \<longleftrightarrow> ns \<in> set (listed s)"
begin

lemma nothing_listed: "bounded s \<Longrightarrow> listed s = [] \<Longrightarrow> \<not> permits s ns"
  by (simp add: bounded_permits)

lemma permits_iff: "permits s ns \<longleftrightarrow> \<not> bounded s \<or> ns \<in> set (listed s)"
  using unbounded_permits bounded_permits by blast

lemma filter_listed:
  "bounded s \<Longrightarrow>
     filter (\<lambda>r. permits s (ns_of r)) rows = filter (\<lambda>r. ns_of r \<in> set (listed s)) rows"
  by (simp add: bounded_permits)

lemma filter_unbounded: "\<not> bounded s \<Longrightarrow> filter (\<lambda>r. permits s (ns_of r)) rows = rows"
  by (simp add: unbounded_permits)

lemma listing_monotone:
  "bounded s \<Longrightarrow> bounded t \<Longrightarrow> set (listed s) \<subseteq> set (listed t) \<Longrightarrow> permits s ns \<Longrightarrow> permits t ns"
  by (auto simp: bounded_permits)

end

lemma allows_simps [simp]:
  "allows None ns"
  "allows (Some s) ns \<longleftrightarrow> allow_all s \<or> ns \<in> set (namespaces s)"
  by (auto simp: allows_def list_ex_iff)

lemma restricted_simps [simp]:
  "\<not> restricted None"
  "restricted (Some s) \<longleftrightarrow> \<not> allow_all s"
  by (simp_all add: restricted_def)

lemma scope_list_simps [simp]: "scope_list None = []" "scope_list (Some s) = namespaces s"
  by (simp_all add: scope_list_def)

interpretation scope: scope_policy allows restricted scope_list
proof unfold_locales
  fix s :: "ns_scope option" and ns
  assume "\<not> restricted s"
  then show "allows s ns" by (cases s) auto
next
  fix s :: "ns_scope option" and ns
  assume "restricted s"
  then show "allows s ns \<longleftrightarrow> ns \<in> set (scope_list s)" by (cases s) auto
qed

section \<open>Laws of labels, the header and the array literal\<close>

lemma dns_label_chars: "dns_label s \<Longrightarrow> c \<in> set s \<Longrightarrow> label_inner c"
proof (cases s)
  case Nil
  then show "dns_label s \<Longrightarrow> c \<in> set s \<Longrightarrow> label_inner c" by simp
next
  case (Cons d ds)
  assume l: "dns_label s" and c: "c \<in> set s"
  show "label_inner c"
  proof (cases "ds = []")
    case True
    with l c Cons show ?thesis by (auto simp: dns_label_def label_edge_def label_inner_def)
  next
    case False
    then have "set ds = set (butlast ds) \<union> {last ds}"
      by (metis append_butlast_last_id list.set(1) list.simps(15) set_append)
    with l c Cons False show ?thesis
      by (auto simp: dns_label_def label_edge_def label_inner_def list_all_iff)
  qed
qed

lemma label_inner_safe:
  "label_inner c \<Longrightarrow> c \<noteq> apostrophe \<and> c \<noteq> CHR '','' \<and> c \<noteq> CHR ''['' \<and> c \<noteq> CHR '']'' \<and> c \<noteq> CHR ''*''
     \<and> c \<noteq> CHR 0x5C"
  by (auto simp: label_inner_def is_lower_def is_digit_def byte_def)

lemma dns_label_nonempty: "dns_label s \<Longrightarrow> s \<noteq> []"
  by (auto simp: dns_label_def)

lemma dns_label_length: "dns_label s \<Longrightarrow> length s \<le> 63"
  by (auto simp: dns_label_def split: list.splits)

lemma dns_label_no_comma: "dns_label s \<Longrightarrow> CHR '','' \<notin> set s"
  using dns_label_chars label_inner_safe by blast

definition quoted_ns :: "string \<Rightarrow> string" where
  "quoted_ns ns = apostrophe # ns @ [apostrophe]"

lemma quote_namespaces_ok:
  "list_all dns_label nss \<Longrightarrow> quote_namespaces acc nss = Inr (acc @ map quoted_ns nss)"
  by (induction acc nss rule: quote_namespaces.induct) (auto simp: quoted_ns_def)

lemma quote_namespaces_err:
  "\<not> list_all dns_label nss \<Longrightarrow> \<exists>e. quote_namespaces acc nss = Inl e"
  by (induction acc nss rule: quote_namespaces.induct) auto

lemma clickhouse_array_param_ok:
  "list_all dns_label nss \<Longrightarrow>
     clickhouse_array_param nss = Inr (''['' @ join '','' (map quoted_ns nss) @ '']'')"
  by (simp add: clickhouse_array_param_def quote_namespaces_ok)

lemma clickhouse_array_param_iff: "is_ok (clickhouse_array_param nss) \<longleftrightarrow> list_all dns_label nss"
proof (cases "list_all dns_label nss")
  case True
  then show ?thesis by (simp add: clickhouse_array_param_ok)
next
  case False
  then obtain e where "quote_namespaces [] nss = Inl e"
    using quote_namespaces_err by blast
  with False show ?thesis by (simp add: clickhouse_array_param_def)
qed

text \<open>
  The value ClickHouse reads back from an \<open>Array(String)\<close> literal in which no element holds a
  quote, a comma or a backslash.
\<close>

definition unquote_ns :: "string \<Rightarrow> string" where
  "unquote_ns s = butlast (tl s)"

definition read_array_literal :: "string \<Rightarrow> string list" where
  "read_array_literal s =
     (let body = butlast (tl s)
      in if body = [] then [] else map unquote_ns (split_on CHR '','' body))"

lemma unquote_quoted [simp]: "unquote_ns (quoted_ns ns) = ns"
  by (simp add: unquote_ns_def quoted_ns_def)

lemma join_eq_Nil: "join sep ps = [] \<Longrightarrow> ps = [] \<or> ps = [[]] \<or> sep = []"
  by (induction sep ps rule: join.induct) auto

lemma read_array_literal_join:
  assumes "list_all dns_label nss"
  shows "read_array_literal (''['' @ join '','' (map quoted_ns nss) @ '']'') = nss"
proof (cases "nss = []")
  case True
  then show ?thesis by (simp add: read_array_literal_def)
next
  case False
  have "\<forall>p \<in> set (map quoted_ns nss). CHR '','' \<notin> set p"
    using assms dns_label_no_comma by (auto simp: quoted_ns_def list_all_iff)
  then have s: "split_on CHR '','' (join '','' (map quoted_ns nss)) = map quoted_ns nss"
    using False by (intro split_on_join) simp_all
  moreover have "join '','' (map quoted_ns nss) \<noteq> []"
  proof
    assume "join '','' (map quoted_ns nss) = []"
    with s have "map quoted_ns nss = [[]]" by simp
    then show False by (auto simp: quoted_ns_def)
  qed
  ultimately show ?thesis by (simp add: read_array_literal_def comp_def)
qed

lemma split_scope_header:
  "list_all dns_label nss \<Longrightarrow> nss \<noteq> [] \<Longrightarrow> split_on CHR '','' (join '','' nss) = nss"
  using dns_label_no_comma by (intro split_on_join) (auto simp: list_all_iff)

text \<open>The header value, as the portal reads it.\<close>

definition read_scope_header :: "string option \<Rightarrow> ns_scope option" where
  "read_scope_header h =
     (case h of
        None \<Rightarrow> None
      | Some v \<Rightarrow>
          if v = ''*'' then Some \<lparr>allow_all = True, namespaces = []\<rparr>
          else if v = ''none'' then Some \<lparr>allow_all = False, namespaces = []\<rparr>
          else Some \<lparr>allow_all = False, namespaces = split_on CHR '','' v\<rparr>)"

lemma header_not_star: "list_all dns_label nss \<Longrightarrow> nss \<noteq> [] \<Longrightarrow> join '','' nss \<noteq> ''*''"
  using split_scope_header [of nss] dns_label_chars [of "''*''" "CHR ''*''"] label_inner_safe [of "CHR ''*''"]
  by auto

lemma header_none: "list_all dns_label nss \<Longrightarrow> nss \<noteq> [] \<Longrightarrow> join '','' nss = ''none'' \<Longrightarrow> nss = [''none'']"
  using split_scope_header [of nss] by simp

text \<open>The scopes \<open>resolve\<close> makes: everything, or a list of labels.\<close>

definition scope_formed :: "ns_scope option \<Rightarrow> bool" where
  "scope_formed sc =
     (case sc of
        None \<Rightarrow> True
      | Some s \<Rightarrow> if allow_all s then namespaces s = [] else list_all dns_label (namespaces s))"

text \<open>
  C35: the scope header says what the scope is: a reader that takes no header for an unscoped proxy,
  a star for everything, the token none for nothing and any other value for a comma separated list
  gets back the very scope the connection is filtered by, with one exception: a caller whose only
  namespace is called none is announced as seeing nothing.
\<close>

theorem scope_header_round_trip:
  assumes "scope_formed sc"
  shows "read_scope_header (scope_header_value sc) = sc
      \<longleftrightarrow> sc \<noteq> Some \<lparr>allow_all = False, namespaces = [''none'']\<rparr>"
proof (cases sc)
  case None
  then show ?thesis by (simp add: scope_header_value_def read_scope_header_def)
next
  case (Some s)
  show ?thesis
  proof (cases "allow_all s")
    case True
    with Some assms show ?thesis
      by (cases s) (simp add: scope_formed_def scope_header_value_def read_scope_header_def)
  next
    case False
    with Some assms have l: "list_all dns_label (namespaces s)" by (simp add: scope_formed_def)
    show ?thesis
    proof (cases "namespaces s = []")
      case True
      with Some False show ?thesis
        by (cases s) (simp add: scope_header_value_def read_scope_header_def)
    next
      case ne: False
      note facts = header_not_star [OF l ne] header_none [OF l ne] split_scope_header [OF l ne]
      from ne False Some facts show ?thesis
        by (cases s) (auto simp: scope_header_value_def read_scope_header_def)
    qed
  qed
qed

theorem scope_header_round_trip_witness:
  "read_scope_header (scope_header_value (Some \<lparr>allow_all = False, namespaces = [''a-1'', ''b'']\<rparr>))
     = Some \<lparr>allow_all = False, namespaces = [''a-1'', ''b'']\<rparr>"
proof -
  have "scope_formed (Some \<lparr>allow_all = False, namespaces = [''a-1'', ''b'']\<rparr>)"
    by (simp add: scope_formed_def dns_label_def label_edge_def label_inner_def is_lower_def is_digit_def
        byte_def)
  from scope_header_round_trip [OF this] show ?thesis by simp
qed

end
