(* ===== verification/Hub.thy ===== *)
theory Hub
  imports Go_Chan Ns_Scope "HOL-Library.Sublist"
begin

text \<open>
  The fan-out hub of \<open>main.go\<close>: messages, clients with their buffered channels, registration,
  the non-blocking broadcast and its counts. A \<open>*client\<close> is an address into a store, so that a
  client mutated through the hub is the client its connection handler reads from. The map of
  clients is the list of its keys; its iteration order is whatever the list is, and
  \<open>broadcast_order\<close> shows that it does not matter.
\<close>

section \<open>State\<close>

record sse_message =
  sm_topic :: string
  sm_data :: string
  sm_namespace :: string

definition poll_limit :: nat where "poll_limit = 500"

definition client_buffer :: nat where "client_buffer = poll_limit"

definition global_topic :: string where "global_topic = ''krateo''"

record client =
  cl_ch :: "sse_message chan"
  cl_topic :: string
  cl_scope :: "ns_scope option"

definition new_client :: "string \<Rightarrow> ns_scope option \<Rightarrow> client" where
  "new_client topic scope = \<lparr>cl_ch = make_chan client_buffer, cl_topic = topic, cl_scope = scope\<rparr>"

definition wants :: "client \<Rightarrow> sse_message \<Rightarrow> bool" where
  "wants c msg =
     (let topic = (if cl_topic c = [] then global_topic else cl_topic c)
      in if topic \<noteq> sm_topic msg then False else allows (cl_scope c) (sm_namespace msg))"

type_synonym cid = nat

record hub =
  hub_members :: "cid list"
  hub_store :: "cid \<Rightarrow> client option"

definition new_hub :: hub where
  "new_hub = \<lparr>hub_members = [], hub_store = (\<lambda>_. None)\<rparr>"

section \<open>Operations\<close>

text \<open>\<open>&client{...}\<close> at a fresh address.\<close>

definition alloc_client :: "cid \<Rightarrow> client \<Rightarrow> hub \<Rightarrow> hub" where
  "alloc_client c cl h = h\<lparr>hub_store := (hub_store h)(c \<mapsto> cl)\<rparr>"

definition hub_register :: "cid \<Rightarrow> hub \<Rightarrow> hub" where
  "hub_register c h = h\<lparr>hub_members := List.insert c (hub_members h)\<rparr>"

definition hub_unregister :: "cid \<Rightarrow> hub \<Rightarrow> go_panic + hub" where
  "hub_unregister c h =
     (let h' = h\<lparr>hub_members := removeAll c (hub_members h)\<rparr>
      in (case hub_store h' c of
            None \<Rightarrow> Inl NilDereference
          | Some cl \<Rightarrow>
              (case close_chan (cl_ch cl) of
                 Inl p \<Rightarrow> Inl p
               | Inr ch \<Rightarrow> Inr (h'\<lparr>hub_store := (hub_store h')(c \<mapsto> cl\<lparr>cl_ch := ch\<rparr>)\<rparr>))))"

fun fan_out ::
  "sse_message \<Rightarrow> cid list \<Rightarrow> (cid \<Rightarrow> client option) \<Rightarrow> int \<Rightarrow> int
     \<Rightarrow> go_panic + ((cid \<Rightarrow> client option) \<times> int \<times> int)" where
  "fan_out msg [] st sent dropped = Inr (st, sent, dropped)"
| "fan_out msg (c # cs) st sent dropped =
     (case st c of
        None \<Rightarrow> Inl NilDereference
      | Some cl \<Rightarrow>
          if \<not> wants cl msg then fan_out msg cs st sent dropped
          else (case chan_try_send msg (cl_ch cl) of
                  Inl p \<Rightarrow> Inl p
                | Inr (ch, True) \<Rightarrow>
                    fan_out msg cs (st(c \<mapsto> cl\<lparr>cl_ch := ch\<rparr>)) (i64 (sent + 1)) dropped
                | Inr (ch, False) \<Rightarrow> fan_out msg cs st sent (i64 (dropped + 1))))"

definition broadcast :: "sse_message \<Rightarrow> hub \<Rightarrow> go_panic + (hub \<times> int \<times> int)" where
  "broadcast msg h =
     (case fan_out msg (hub_members h) (hub_store h) 0 0 of
        Inl p \<Rightarrow> Inl p
      | Inr (st, sent, dropped) \<Rightarrow> Inr (h\<lparr>hub_store := st\<rparr>, sent, dropped))"

definition hub_count :: "hub \<Rightarrow> nat" where
  "hub_count h = length (hub_members h)"

text \<open>The handler's receive from its own client's channel.\<close>

definition client_recv :: "cid \<Rightarrow> hub \<Rightarrow> sse_message received \<times> hub" where
  "client_recv c h =
     (case hub_store h c of
        None \<Rightarrow> (WouldBlock, h)
      | Some cl \<Rightarrow>
          (case chan_recv (cl_ch cl) of
             (r, ch) \<Rightarrow> (r, h\<lparr>hub_store := (hub_store h)(c \<mapsto> cl\<lparr>cl_ch := ch\<rparr>)\<rparr>)))"

section \<open>Invariant\<close>

definition client_ok :: "client \<Rightarrow> bool" where
  "client_ok cl \<longleftrightarrow> chan_ok (cl_ch cl) \<and> ch_cap (cl_ch cl) = client_buffer"

definition hub_inv :: "hub \<Rightarrow> bool" where
  "hub_inv h \<longleftrightarrow> distinct (hub_members h)
     \<and> (\<forall>c \<in> set (hub_members h). \<exists>cl. hub_store h c = Some cl \<and> client_ok cl)"

lemma hub_invD: "hub_inv h \<Longrightarrow> c \<in> set (hub_members h) \<Longrightarrow> \<exists>cl. hub_store h c = Some cl \<and> client_ok cl"
  by (simp add: hub_inv_def)

lemma hub_inv_new [simp]: "hub_inv new_hub"
  by (simp add: hub_inv_def new_hub_def)

lemma client_ok_new [simp]: "client_ok (new_client t sc)"
  by (simp add: client_ok_def new_client_def) (simp add: make_chan_def)

lemma hub_inv_connect:
  "hub_inv h \<Longrightarrow> hub_inv (hub_register c (alloc_client c (new_client t sc) h))"
  by (auto simp: hub_inv_def hub_register_def alloc_client_def)

section \<open>What one message does to one client\<close>

definition receive :: "sse_message \<Rightarrow> client \<Rightarrow> client" where
  "receive msg cl =
     (if wants cl msg \<and> 0 < chan_room (cl_ch cl)
      then cl\<lparr>cl_ch := (cl_ch cl)\<lparr>ch_buf := ch_buf (cl_ch cl) @ [msg]\<rparr>\<rparr> else cl)"

lemma wants_receive [simp]: "wants (receive m cl) = wants cl"
  by (rule ext) (simp add: receive_def wants_def)

lemma receive_fields [simp]:
  "cl_topic (receive m cl) = cl_topic cl" "cl_scope (receive m cl) = cl_scope cl"
  by (simp_all add: receive_def)

lemma receive_ok: "client_ok cl \<Longrightarrow> client_ok (receive m cl)"
  by (auto simp: receive_def client_ok_def chan_ok_def chan_room_def)

definition takes :: "sse_message \<Rightarrow> client option \<Rightarrow> bool" where
  "takes msg oc = (case oc of None \<Rightarrow> False | Some cl \<Rightarrow> wants cl msg \<and> 0 < chan_room (cl_ch cl))"

definition refuses :: "sse_message \<Rightarrow> client option \<Rightarrow> bool" where
  "refuses msg oc = (case oc of None \<Rightarrow> False | Some cl \<Rightarrow> wants cl msg \<and> chan_room (cl_ch cl) = 0)"

lemma takes_refuses_simps [simp]:
  "takes m (Some cl) \<longleftrightarrow> wants cl m \<and> 0 < chan_room (cl_ch cl)"
  "refuses m (Some cl) \<longleftrightarrow> wants cl m \<and> chan_room (cl_ch cl) = 0"
  "\<not> takes m None" "\<not> refuses m None"
  by (simp_all add: takes_def refuses_def)

lemma fan_out_result:
  assumes "distinct cs" "\<forall>c \<in> set cs. \<exists>cl. st c = Some cl \<and> client_ok cl"
    "int64_range s" "int64_range d"
  shows "fan_out m cs st s d =
     Inr (\<lambda>c. if c \<in> set cs then map_option (receive m) (st c) else st c,
          i64 (s + int (length (filter (\<lambda>c. takes m (st c)) cs))),
          i64 (d + int (length (filter (\<lambda>c. refuses m (st c)) cs))))"
  using assms
proof (induction cs arbitrary: st s d)
  case Nil
  then show ?case by simp
next
  case (Cons c cs)
  then obtain cl where cl: "st c = Some cl" "client_ok cl" by auto
  have c: "c \<notin> set cs" using Cons.prems(1) by simp
  have same: "filter (\<lambda>x. P ((st(c \<mapsto> cl')) x)) cs = filter (\<lambda>x. P (st x)) cs" for P cl'
    using c by (intro filter_cong) auto
  have ok: "\<forall>x \<in> set cs. \<exists>k. (st(c \<mapsto> cl')) x = Some k \<and> client_ok k" for cl'
    using Cons.prems(2) c by auto
  show ?case
  proof (cases "wants cl m")
    case False
    with Cons cl c have "receive m cl = cl" by (simp add: receive_def)
    with Cons cl c False show ?thesis by (auto intro!: ext)
  next
    case True
    from cl(2) have "chan_ok (cl_ch cl)" by (simp add: client_ok_def)
    then show ?thesis
    proof (cases rule: chan_try_send_cases [of _ m])
      case (sent ch')
      then have rc: "receive m cl = cl\<lparr>cl_ch := ch'\<rparr>"
        using True by (auto simp: receive_def chan_try_send_def split: if_splits)
      have "fan_out m cs (st(c \<mapsto> cl\<lparr>cl_ch := ch'\<rparr>)) (i64 (s + 1)) d = Inr
         (\<lambda>x. if x \<in> set cs then map_option (receive m) ((st(c \<mapsto> cl\<lparr>cl_ch := ch'\<rparr>)) x)
              else (st(c \<mapsto> cl\<lparr>cl_ch := ch'\<rparr>)) x,
          i64 (i64 (s + 1) + int (length (filter (\<lambda>x. takes m (st x)) cs))),
          i64 (d + int (length (filter (\<lambda>x. refuses m (st x)) cs))))"
        using Cons.IH [OF _ ok i64_range Cons.prems(4), of "cl\<lparr>cl_ch := ch'\<rparr>" "s + 1"] Cons.prems(1)
        by (simp only: same distinct.simps)
      with sent True cl c rc show ?thesis by (auto intro!: ext simp: algebra_simps)
    next
      case dropped
      then have rc: "receive m cl = cl" by (simp add: receive_def)
      have "fan_out m cs st s (i64 (d + 1)) = Inr
         (\<lambda>x. if x \<in> set cs then map_option (receive m) (st x) else st x,
          i64 (s + int (length (filter (\<lambda>x. takes m (st x)) cs))),
          i64 (i64 (d + 1) + int (length (filter (\<lambda>x. refuses m (st x)) cs))))"
        using Cons.IH [OF _ _ Cons.prems(3) i64_range, of st "d + 1"] Cons.prems(1,2)
        by simp
      with dropped True cl c rc show ?thesis by (auto intro!: ext simp: algebra_simps)
    qed
  qed
qed

definition after_message :: "sse_message \<Rightarrow> hub \<Rightarrow> hub" where
  "after_message m h =
     h\<lparr>hub_store := (\<lambda>c. if c \<in> set (hub_members h) then map_option (receive m) (hub_store h c)
                          else hub_store h c)\<rparr>"

lemma after_message_simps [simp]:
  "hub_members (after_message m h) = hub_members h"
  "hub_store (after_message m h) c =
     (if c \<in> set (hub_members h) then map_option (receive m) (hub_store h c) else hub_store h c)"
  by (simp_all add: after_message_def)

lemma zero_range [simp]: "int64_range 0"
  by (simp add: int64_range_def)

lemma broadcast_result:
  assumes "hub_inv h"
  shows "broadcast m h =
     Inr (after_message m h,
          i64 (int (length (filter (\<lambda>c. takes m (hub_store h c)) (hub_members h)))),
          i64 (int (length (filter (\<lambda>c. refuses m (hub_store h c)) (hub_members h)))))"
proof -
  have "fan_out m (hub_members h) (hub_store h) 0 0 =
     Inr (hub_store (after_message m h),
          i64 (int (length (filter (\<lambda>c. takes m (hub_store h c)) (hub_members h)))),
          i64 (int (length (filter (\<lambda>c. refuses m (hub_store h c)) (hub_members h)))))"
    using assms fan_out_result [of "hub_members h" "hub_store h" 0 0 m]
    by (simp add: hub_inv_def after_message_def)
  then show ?thesis by (simp add: broadcast_def after_message_def)
qed

lemma hub_inv_after_message: "hub_inv h \<Longrightarrow> hub_inv (after_message m h)"
  by (auto simp: hub_inv_def intro!: receive_ok)

lemma broadcast_inv: "hub_inv h \<Longrightarrow> broadcast m h = Inr (h', s, d) \<Longrightarrow> hub_inv h'"
  using broadcast_result hub_inv_after_message by fastforce

lemma wanting_split:
  assumes "hub_inv h"
  shows "length (filter (\<lambda>c. takes m (hub_store h c)) (hub_members h))
       + length (filter (\<lambda>c. refuses m (hub_store h c)) (hub_members h))
     = length (filter (\<lambda>c. \<exists>cl. hub_store h c = Some cl \<and> wants cl m) (hub_members h))"
proof -
  have "\<forall>c \<in> set cs. \<exists>cl. hub_store h c = Some cl \<Longrightarrow>
      length (filter (\<lambda>c. takes m (hub_store h c)) cs)
      + length (filter (\<lambda>c. refuses m (hub_store h c)) cs)
      = length (filter (\<lambda>c. \<exists>cl. hub_store h c = Some cl \<and> wants cl m) cs)" for cs
    by (induction cs) auto
  moreover have "\<forall>c \<in> set (hub_members h). \<exists>cl. hub_store h c = Some cl"
    using assms hub_invD by blast
  ultimately show ?thesis by blast
qed

section \<open>A sequence of messages\<close>

fun broadcast_all ::
  "sse_message list \<Rightarrow> hub \<Rightarrow> int \<Rightarrow> int \<Rightarrow> go_panic + (hub \<times> int \<times> int)" where
  "broadcast_all [] h sent dropped = Inr (h, sent, dropped)"
| "broadcast_all (m # ms) h sent dropped =
     (case broadcast m h of
        Inl p \<Rightarrow> Inl p
      | Inr (h', s, d) \<Rightarrow> broadcast_all ms h' (i64 (sent + s)) (i64 (dropped + d)))"

definition receive_all :: "sse_message list \<Rightarrow> client \<Rightarrow> client" where
  "receive_all ms cl = fold receive ms cl"

definition after_messages :: "sse_message list \<Rightarrow> hub \<Rightarrow> hub" where
  "after_messages ms h = fold after_message ms h"

lemma receive_all_simps [simp]:
  "receive_all [] cl = cl"
  "receive_all (m # ms) cl = receive_all ms (receive m cl)"
  by (simp_all add: receive_all_def)

lemma receive_all_fields [simp]:
  "cl_topic (receive_all ms cl) = cl_topic cl" "cl_scope (receive_all ms cl) = cl_scope cl"
  "wants (receive_all ms cl) = wants cl"
  by (induction ms arbitrary: cl) simp_all

lemma receive_all_ok: "client_ok cl \<Longrightarrow> client_ok (receive_all ms cl)"
  by (induction ms arbitrary: cl) (simp_all add: receive_ok)

text \<open>A client's channel is offered exactly the messages the client wants.\<close>

lemma receive_all_offer:
  "client_ok cl \<Longrightarrow>
     \<exists>n. offer_all chan_try_send (filter (wants cl) ms) (cl_ch cl) = Inr (cl_ch (receive_all ms cl), n)"
proof (induction ms arbitrary: cl)
  case Nil
  then show ?case by simp
next
  case (Cons m ms)
  from Cons.IH [OF receive_ok [OF Cons.prems], of m] obtain n where
    n: "offer_all chan_try_send (filter (wants cl) ms) (cl_ch (receive m cl))
        = Inr (cl_ch (receive_all ms (receive m cl)), n)" by auto
  show ?case
  proof (cases "wants cl m")
    case False
    with n show ?thesis by (auto simp: receive_def)
  next
    case True
    then have "\<exists>ok. chan_try_send m (cl_ch cl) = Inr (cl_ch (receive m cl), ok)"
      using Cons.prems by (auto simp: client_ok_def receive_def chan_try_send_def chan_ok_def chan_room_def)
    with True n show ?thesis by auto
  qed
qed

lemma receive_all_buf:
  assumes "client_ok cl"
  shows "ch_buf (cl_ch (receive_all ms cl))
      = ch_buf (cl_ch cl) @ take (chan_room (cl_ch cl)) (filter (wants cl) ms)"
  using receive_all_offer [OF assms, of ms] chan.offer_all_result [of "cl_ch cl" "filter (wants cl) ms"]
    assms by (auto simp: client_ok_def)

lemma after_messages_simps [simp]:
  "after_messages [] h = h"
  "after_messages (m # ms) h = after_messages ms (after_message m h)"
  by (simp_all add: after_messages_def)

lemma after_messages_members [simp]: "hub_members (after_messages ms h) = hub_members h"
  by (induction ms arbitrary: h) simp_all

lemma after_messages_store:
  "hub_store (after_messages ms h) c =
     (if c \<in> set (hub_members h) then map_option (receive_all ms) (hub_store h c) else hub_store h c)"
proof (induction ms arbitrary: h)
  case Nil
  then show ?case by (cases "hub_store h c") simp_all
next
  case (Cons m ms)
  then show ?case by (cases "hub_store h c") simp_all
qed

lemma hub_inv_after_messages: "hub_inv h \<Longrightarrow> hub_inv (after_messages ms h)"
  by (induction ms arbitrary: h) (simp_all add: hub_inv_after_message)

text \<open>How many of the offered messages a client took and refused.\<close>

definition taken_count :: "sse_message list \<Rightarrow> client option \<Rightarrow> nat" where
  "taken_count ms oc = (case oc of None \<Rightarrow> 0
     | Some cl \<Rightarrow> min (chan_room (cl_ch cl)) (length (filter (wants cl) ms)))"

definition refused_count :: "sse_message list \<Rightarrow> client option \<Rightarrow> nat" where
  "refused_count ms oc = (case oc of None \<Rightarrow> 0
     | Some cl \<Rightarrow> length (filter (wants cl) ms) - chan_room (cl_ch cl))"

lemma count_Nil [simp]: "taken_count [] oc = 0" "refused_count [] oc = 0"
  by (simp_all add: taken_count_def refused_count_def split: option.splits)

lemma chan_room_receive:
  "client_ok cl \<Longrightarrow> chan_room (cl_ch (receive m cl))
     = (if wants cl m then chan_room (cl_ch cl) - 1 else chan_room (cl_ch cl))"
  by (auto simp: receive_def client_ok_def chan_ok_def chan_room_def)

lemma count_Cons:
  assumes "client_ok cl"
  shows "taken_count (m # ms) (Some cl) =
      (if takes m (Some cl) then 1 else 0) + taken_count ms (Some (receive m cl))"
    and "refused_count (m # ms) (Some cl) =
      (if refuses m (Some cl) then 1 else 0) + refused_count ms (Some (receive m cl))"
  using chan_room_receive [OF assms, of m] by (auto simp: taken_count_def refused_count_def)

lemma length_filter_sum: "length (filter P xs) = sum_list (map (\<lambda>x. if P x then 1 else 0) xs)"
  by (induction xs) simp_all

lemma count_sum_Cons:
  assumes "hub_inv h"
  shows "(\<Sum>c\<leftarrow>hub_members h. taken_count (m # ms) (hub_store h c))
      = length (filter (\<lambda>c. takes m (hub_store h c)) (hub_members h))
        + (\<Sum>c\<leftarrow>hub_members h. taken_count ms (hub_store (after_message m h) c))"
    and "(\<Sum>c\<leftarrow>hub_members h. refused_count (m # ms) (hub_store h c))
      = length (filter (\<lambda>c. refuses m (hub_store h c)) (hub_members h))
        + (\<Sum>c\<leftarrow>hub_members h. refused_count ms (hub_store (after_message m h) c))"
proof -
  have c: "taken_count (m # ms) (hub_store h c)
        = (if takes m (hub_store h c) then 1 else 0) + taken_count ms (hub_store (after_message m h) c)
      \<and> refused_count (m # ms) (hub_store h c)
        = (if refuses m (hub_store h c) then 1 else 0) + refused_count ms (hub_store (after_message m h) c)"
    if "c \<in> set (hub_members h)" for c
    using hub_invD [OF assms that] count_Cons that by auto
  show "(\<Sum>c\<leftarrow>hub_members h. taken_count (m # ms) (hub_store h c))
      = length (filter (\<lambda>c. takes m (hub_store h c)) (hub_members h))
        + (\<Sum>c\<leftarrow>hub_members h. taken_count ms (hub_store (after_message m h) c))"
    unfolding length_filter_sum sum_list_map_add [symmetric]
    using c by (intro arg_cong [where f = sum_list] map_cong) auto
  show "(\<Sum>c\<leftarrow>hub_members h. refused_count (m # ms) (hub_store h c))
      = length (filter (\<lambda>c. refuses m (hub_store h c)) (hub_members h))
        + (\<Sum>c\<leftarrow>hub_members h. refused_count ms (hub_store (after_message m h) c))"
    unfolding length_filter_sum sum_list_map_add [symmetric]
    using c by (intro arg_cong [where f = sum_list] map_cong) auto
qed

lemma broadcast_all_result:
  assumes "hub_inv h" "int64_range s" "int64_range d"
  shows "broadcast_all ms h s d =
     Inr (after_messages ms h,
          i64 (s + int (\<Sum>c\<leftarrow>hub_members h. taken_count ms (hub_store h c))),
          i64 (d + int (\<Sum>c\<leftarrow>hub_members h. refused_count ms (hub_store h c))))"
  using assms
proof (induction ms arbitrary: h s d)
  case Nil
  then show ?case by simp
next
  case (Cons m ms)
  from Cons.IH [OF hub_inv_after_message [OF Cons.prems(1)] i64_range i64_range]
  show ?case
    using count_sum_Cons [OF Cons.prems(1), of m ms]
    by (simp add: broadcast_result [OF Cons.prems(1)] add.assoc del: after_message_simps(2))
qed

section \<open>Properties of the broadcast\<close>

text \<open>
  One broadcast accounts for every registered client that wants the message: the number of
  sends that landed plus the number dropped is the number of clients that want it, a client
  that wants it gets it at the end of its queue exactly when the queue has room, and nothing
  else in the hub changes.
\<close>

theorem broadcast_accounts:
  assumes "hub_inv h"
  shows "\<exists>h' s d. broadcast m h = Inr (h', i64 (int s), i64 (int d))
      \<and> s + d = length (filter (\<lambda>c. \<exists>cl. hub_store h c = Some cl \<and> wants cl m) (hub_members h))
      \<and> hub_members h' = hub_members h
      \<and> (\<forall>c cl. hub_store h c = Some cl \<longrightarrow>
           (\<exists>cl'. hub_store h' c = Some cl' \<and> cl_topic cl' = cl_topic cl \<and> cl_scope cl' = cl_scope cl
              \<and> ch_buf (cl_ch cl') = ch_buf (cl_ch cl) @
                 (if c \<in> set (hub_members h) \<and> wants cl m \<and> length (ch_buf (cl_ch cl)) < client_buffer
                  then [m] else [])))"
proof -
  have "\<exists>cl'. hub_store (after_message m h) c = Some cl' \<and> cl_topic cl' = cl_topic cl
      \<and> cl_scope cl' = cl_scope cl \<and> ch_buf (cl_ch cl') = ch_buf (cl_ch cl) @
         (if c \<in> set (hub_members h) \<and> wants cl m \<and> length (ch_buf (cl_ch cl)) < client_buffer
          then [m] else [])" if "hub_store h c = Some cl" for c cl
    using that hub_invD [OF assms, of c]
    by (auto simp: receive_def client_ok_def chan_room_def)
  with broadcast_result [OF assms, of m] wanting_split [OF assms, of m] show ?thesis
    by (intro exI conjI) (assumption | simp)+
qed

definition sample_scope :: "ns_scope option" where
  "sample_scope = Some \<lparr>allow_all = False, namespaces = [''team-a'']\<rparr>"

definition sample_hub :: hub where
  "sample_hub = hub_register 1 (alloc_client 1 (new_client [] sample_scope)
     (hub_register 0 (alloc_client 0 (new_client [] None) new_hub)))"

definition sample_message :: sse_message where
  "sample_message = \<lparr>sm_topic = global_topic, sm_data = ''x'', sm_namespace = ''team-b''\<rparr>"

lemma sample_hub_inv: "hub_inv sample_hub"
  by (simp add: sample_hub_def hub_inv_connect)

theorem broadcast_accounts_witness:
  "\<exists>h' s d. broadcast sample_message sample_hub = Inr (h', i64 (int s), i64 (int d)) \<and> s + d = 1"
  using broadcast_accounts [OF sample_hub_inv, of sample_message]
  by (auto simp: sample_hub_def sample_message_def sample_scope_def hub_register_def alloc_client_def
      new_hub_def wants_def new_client_def)

text \<open>
  C24: the iteration order of Go's map of clients is irrelevant to a broadcast: visiting the same
  clients in any other order leaves the same store and returns the same two counts.
\<close>

theorem broadcast_order:
  assumes "hub_inv h" "mset cs = mset (hub_members h)"
  shows "fan_out m cs (hub_store h) 0 0 = fan_out m (hub_members h) (hub_store h) 0 0"
proof -
  have d: "distinct cs" "set cs = set (hub_members h)"
    using assms by (auto simp: hub_inv_def dest: mset_eq_setD mset_eq_imp_distinct_iff)
  have "length (filter P cs) = length (filter P (hub_members h))" for P
    using assms(2) by (metis mset_filter size_mset)
  with d assms fan_out_result [of cs "hub_store h" 0 0 m]
    fan_out_result [of "hub_members h" "hub_store h" 0 0 m]
  show ?thesis by (simp add: hub_inv_def)
qed

theorem broadcast_order_witness:
  "fan_out sample_message [0, 1] (hub_store sample_hub) 0 0
     = fan_out sample_message [1, 0] (hub_store sample_hub) 0 0"
  using broadcast_order [OF sample_hub_inv, of "[0, 1]" sample_message]
  by (simp add: sample_hub_def hub_register_def alloc_client_def new_hub_def add_mset_commute)

text \<open>
  A sequence of broadcasts costs a client nothing as long as its queue has room for the messages
  it wants: every one of them is queued, in order, and the drop count the sequence returns is zero.
\<close>

theorem broadcasts_fit:
  assumes "hub_inv h"
    and "\<forall>c \<in> set (hub_members h). \<forall>cl. hub_store h c = Some cl \<longrightarrow>
           length (ch_buf (cl_ch cl)) + length (filter (wants cl) ms) \<le> client_buffer"
  shows "\<exists>h' s. broadcast_all ms h 0 0 = Inr (h', s, 0)
      \<and> (\<forall>c \<in> set (hub_members h). \<forall>cl. hub_store h c = Some cl \<longrightarrow>
           (\<exists>cl'. hub_store h' c = Some cl' \<and> ch_buf (cl_ch cl') = ch_buf (cl_ch cl) @ filter (wants cl) ms))"
proof -
  have fits: "length (filter (wants cl) ms) \<le> chan_room (cl_ch cl) \<and> client_ok cl"
    if "c \<in> set (hub_members h)" "hub_store h c = Some cl" for c cl
    using assms(2) hub_invD [OF assms(1), of c] that by (auto simp: chan_room_def client_ok_def)
  then have z: "\<forall>c \<in> set (hub_members h). refused_count ms (hub_store h c) = 0"
    by (auto simp: refused_count_def split: option.splits)
  have "(\<Sum>c\<leftarrow>hub_members h. refused_count ms (hub_store h c)) = 0"
    using z by (induction "hub_members h") simp_all
  with fits broadcast_all_result [OF assms(1) zero_range zero_range, of ms] show ?thesis
    by (auto simp: after_messages_store receive_all_buf)
qed

theorem broadcasts_fit_witness:
  "\<exists>h' s. broadcast_all [sample_message, sample_message] sample_hub 0 0 = Inr (h', s, 0)"
proof -
  have "\<forall>c \<in> set (hub_members sample_hub). \<forall>cl. hub_store sample_hub c = Some cl \<longrightarrow>
      length (ch_buf (cl_ch cl)) + length (filter (wants cl) [sample_message, sample_message]) \<le> client_buffer"
    by (simp add: sample_hub_def hub_register_def alloc_client_def new_hub_def new_client_def
        client_buffer_def poll_limit_def)
  from broadcasts_fit [OF sample_hub_inv this] show ?thesis by blast
qed

end
