(* ===== verification/Hub_System.thy ===== *)
theory Hub_System
  imports Hub
begin

text \<open>
  The hub under concurrency: every interleaving of connections, deliveries, disconnections and
  broadcasts as a step relation, the invariant of its reachable states, and the guarantees a
  connection has whatever the others do. Each hub operation holds the hub's lock for its whole
  duration in the code, so an operation is one step here.
\<close>

section \<open>Interleavings\<close>

text \<open>
  Connections, deliveries, disconnections and broadcasts in any order. Besides the hub a state
  records, per address, whether the connection has not started, is streaming or has ended; what the
  handler has written to it; what has been broadcast since it registered; and how many of the
  messages it wanted were dropped because its channel was full.
\<close>

datatype phase = Fresh | Streaming | Ended

record hub_system =
  hs_hub :: hub
  hs_phase :: "cid \<Rightarrow> phase"
  hs_out :: "cid \<Rightarrow> sse_message list"
  hs_published :: "cid \<Rightarrow> sse_message list"
  hs_lost :: "cid \<Rightarrow> nat"

definition hub_start :: hub_system where
  "hub_start = \<lparr>hs_hub = new_hub, hs_phase = (\<lambda>_. Fresh), hs_out = (\<lambda>_. []), hs_published = (\<lambda>_. []),
     hs_lost = (\<lambda>_. 0)\<rparr>"

definition record_publish :: "sse_message \<Rightarrow> hub_system \<Rightarrow> hub_system" where
  "record_publish m s =
     s\<lparr>hs_published := (\<lambda>c. if c \<in> set (hub_members (hs_hub s)) then hs_published s c @ [m]
                            else hs_published s c),
       hs_lost := (\<lambda>c. if c \<in> set (hub_members (hs_hub s)) \<and> refuses m (hub_store (hs_hub s) c)
                       then Suc (hs_lost s c) else hs_lost s c)\<rparr>"

inductive hub_step :: "hub_system \<Rightarrow> hub_system \<Rightarrow> bool" where
  connect: "hs_phase s c = Fresh \<Longrightarrow>
     hub_step s (s\<lparr>hs_hub := hub_register c (alloc_client c (new_client topic sc) (hs_hub s)),
                   hs_phase := (hs_phase s)(c := Streaming)\<rparr>)"
| deliver: "hs_phase s c = Streaming \<Longrightarrow> client_recv c (hs_hub s) = (Got m, h) \<Longrightarrow>
     hub_step s (s\<lparr>hs_hub := h, hs_out := (hs_out s)(c := hs_out s c @ [m])\<rparr>)"
| disconnect: "hs_phase s c = Streaming \<Longrightarrow> hub_unregister c (hs_hub s) = Inr h \<Longrightarrow>
     hub_step s (s\<lparr>hs_hub := h, hs_phase := (hs_phase s)(c := Ended)\<rparr>)"
| publish: "broadcast m (hs_hub s) = Inr (h, sent, dropped) \<Longrightarrow>
     hub_step s ((record_publish m s)\<lparr>hs_hub := h\<rparr>)"

inductive hub_reachable :: "hub_system \<Rightarrow> bool" where
  start: "hub_reachable hub_start"
| step: "hub_reachable s \<Longrightarrow> hub_step s t \<Longrightarrow> hub_reachable t"

inductive_cases hub_stepE: "hub_step s t"

text \<open>
  A streaming connection is registered, its channel is open, and what it has written followed by
  what waits in its channel is a subsequence of the messages it wants among those broadcast since
  it registered, shorter by exactly the messages dropped.
\<close>

definition stream_inv :: "hub_system \<Rightarrow> cid \<Rightarrow> bool" where
  "stream_inv s c \<longleftrightarrow>
     (\<exists>cl. hub_store (hs_hub s) c = Some cl \<and> client_ok cl
        \<and> subseq (hs_out s c @ ch_buf (cl_ch cl)) (filter (wants cl) (hs_published s c))
        \<and> length (hs_out s c) + length (ch_buf (cl_ch cl)) + hs_lost s c
            = length (filter (wants cl) (hs_published s c)))"

definition ended_inv :: "hub_system \<Rightarrow> cid \<Rightarrow> bool" where
  "ended_inv s c \<longleftrightarrow>
     (\<exists>cl. hub_store (hs_hub s) c = Some cl \<and> ch_closed (cl_ch cl)
        \<and> subseq (hs_out s c) (filter (wants cl) (hs_published s c)))"

definition system_inv :: "hub_system \<Rightarrow> bool" where
  "system_inv s \<longleftrightarrow>
     distinct (hub_members (hs_hub s))
     \<and> (\<forall>c. c \<in> set (hub_members (hs_hub s)) \<longleftrightarrow> hs_phase s c = Streaming)
     \<and> (\<forall>c. hs_phase s c = Fresh \<longrightarrow> hs_out s c = [] \<and> hs_published s c = [] \<and> hs_lost s c = 0)
     \<and> (\<forall>c. hs_phase s c = Streaming \<longrightarrow> stream_inv s c)
     \<and> (\<forall>c. hs_phase s c = Ended \<longrightarrow> ended_inv s c)"

lemma system_inv_hub: "system_inv s \<Longrightarrow> hub_inv (hs_hub s)"
  by (auto simp: system_inv_def hub_inv_def stream_inv_def)

lemma system_inv_start: "system_inv hub_start"
  by (simp add: system_inv_def hub_start_def new_hub_def)

lemma system_inv_connect:
  assumes "system_inv s" "hs_phase s c = Fresh"
  shows "system_inv (s\<lparr>hs_hub := hub_register c (alloc_client c (new_client topic sc) (hs_hub s)),
                   hs_phase := (hs_phase s)(c := Streaming)\<rparr>)"
proof -
  have "ch_buf (cl_ch (new_client topic sc)) = []"
    by (simp add: new_client_def make_chan_def)
  with assms show ?thesis
    by (auto simp: system_inv_def hub_register_def alloc_client_def stream_inv_def ended_inv_def)
qed

lemma client_recv_Got:
  assumes "client_recv c h = (Got m, h')" "hub_store h c = Some cl"
  obtains xs where "ch_buf (cl_ch cl) = m # xs"
    "h' = h\<lparr>hub_store := (hub_store h)(c \<mapsto> cl\<lparr>cl_ch := (cl_ch cl)\<lparr>ch_buf := xs\<rparr>\<rparr>)\<rparr>"
  using assms by (auto simp: client_recv_def chan_recv_def split: list.splits if_splits)

lemma system_inv_deliver:
  assumes inv: "system_inv s" and ph: "hs_phase s c = Streaming"
    and rc: "client_recv c (hs_hub s) = (Got m, h)"
  shows "system_inv (s\<lparr>hs_hub := h, hs_out := (hs_out s)(c := hs_out s c @ [m])\<rparr>)"
proof -
  from inv ph obtain cl where cl: "hub_store (hs_hub s) c = Some cl" "client_ok cl"
    "subseq (hs_out s c @ ch_buf (cl_ch cl)) (filter (wants cl) (hs_published s c))"
    "length (hs_out s c) + length (ch_buf (cl_ch cl)) + hs_lost s c
       = length (filter (wants cl) (hs_published s c))"
    by (auto simp: system_inv_def stream_inv_def)
  from client_recv_Got [OF rc cl(1)] obtain xs where xs: "ch_buf (cl_ch cl) = m # xs"
    "h = (hs_hub s)\<lparr>hub_store := (hub_store (hs_hub s))(c \<mapsto> cl\<lparr>cl_ch := (cl_ch cl)\<lparr>ch_buf := xs\<rparr>\<rparr>)\<rparr>"
    by metis
  let ?cl = "cl\<lparr>cl_ch := (cl_ch cl)\<lparr>ch_buf := xs\<rparr>\<rparr>"
  have "wants ?cl = wants cl" by (rule ext) (simp add: wants_def)
  moreover have "client_ok ?cl" using cl(2) xs(1) by (auto simp: client_ok_def chan_ok_def)
  ultimately show ?thesis
    using inv ph cl xs by (auto simp: system_inv_def stream_inv_def ended_inv_def)
qed

lemma system_inv_disconnect:
  assumes inv: "system_inv s" and ph: "hs_phase s c = Streaming"
    and un: "hub_unregister c (hs_hub s) = Inr h"
  shows "system_inv (s\<lparr>hs_hub := h, hs_phase := (hs_phase s)(c := Ended)\<rparr>)"
proof -
  from inv ph obtain cl where cl: "hub_store (hs_hub s) c = Some cl" "client_ok cl"
    "subseq (hs_out s c @ ch_buf (cl_ch cl)) (filter (wants cl) (hs_published s c))"
    by (auto simp: system_inv_def stream_inv_def)
  let ?cl = "cl\<lparr>cl_ch := (cl_ch cl)\<lparr>ch_closed := True\<rparr>\<rparr>"
  from un cl have h: "h = (hs_hub s)\<lparr>hub_members := removeAll c (hub_members (hs_hub s)),
      hub_store := (hub_store (hs_hub s))(c \<mapsto> ?cl)\<rparr>"
    by (auto simp: hub_unregister_def close_chan_def client_ok_def chan_ok_def)
  have "wants ?cl = wants cl" by (rule ext) (simp add: wants_def)
  moreover have "subseq (hs_out s c) (filter (wants cl) (hs_published s c))"
    using subseq_rev_drop_many [OF subseq_order.refl] cl(3) by (rule subseq_order.trans)
  ultimately show ?thesis
    using inv ph h by (auto simp: system_inv_def stream_inv_def ended_inv_def distinct_removeAll)
qed

lemma system_inv_publish:
  assumes inv: "system_inv s" and b: "broadcast m (hs_hub s) = Inr (h, sent, dropped)"
  shows "system_inv ((record_publish m s)\<lparr>hs_hub := h\<rparr>)"
    (is "system_inv ?t")
proof -
  from b broadcast_result [OF system_inv_hub [OF inv], of m]
  have h: "h = after_message m (hs_hub s)" by simp
  have str: "stream_inv ?t c" if ph: "hs_phase s c = Streaming" for c
  proof -
    from inv ph have mem: "c \<in> set (hub_members (hs_hub s))" by (simp add: system_inv_def)
    from inv ph obtain cl where cl: "hub_store (hs_hub s) c = Some cl" "client_ok cl"
      "subseq (hs_out s c @ ch_buf (cl_ch cl)) (filter (wants cl) (hs_published s c))"
      "length (hs_out s c) + length (ch_buf (cl_ch cl)) + hs_lost s c
         = length (filter (wants cl) (hs_published s c))"
      by (auto simp: system_inv_def stream_inv_def)
    have "subseq (hs_out s c @ ch_buf (cl_ch (receive m cl)))
        (filter (wants cl) (hs_published s c @ [m]))"
      using cl(3) by (auto simp: receive_def list_emb_append_mono subseq_rev_drop_many
          simp flip: append_assoc)
    moreover have "length (hs_out s c) + length (ch_buf (cl_ch (receive m cl)))
        + hs_lost (record_publish m s) c = length (filter (wants cl) (hs_published s c @ [m]))"
      using cl(1,4) mem by (auto simp: record_publish_def receive_def)
    moreover have "hs_published ?t c = hs_published s c @ [m]" "hs_out ?t c = hs_out s c"
      using mem by (simp_all add: record_publish_def)
    ultimately show ?thesis
      using cl(1) mem h receive_ok [OF cl(2), of m] by (simp add: stream_inv_def split: if_splits)
  qed
  have "ended_inv ?t c" if ph: "hs_phase s c = Ended" for c
  proof -
    from inv ph have "c \<notin> set (hub_members (hs_hub s))" by (simp add: system_inv_def)
    moreover from inv ph have "ended_inv s c" by (simp add: system_inv_def)
    ultimately show ?thesis using h by (simp add: ended_inv_def record_publish_def)
  qed
  with str inv h show ?thesis by (auto simp: system_inv_def record_publish_def)
qed

lemma hub_step_inv: "hub_step s t \<Longrightarrow> system_inv s \<Longrightarrow> system_inv t"
  by (erule hub_stepE)
    (simp_all only: system_inv_connect system_inv_deliver system_inv_disconnect system_inv_publish)

lemma reachable_inv: "hub_reachable s \<Longrightarrow> system_inv s"
  by (induction rule: hub_reachable.induct) (auto intro: system_inv_start hub_step_inv)

section \<open>A scheduler\<close>

text \<open>Runs a list of events; an event that is not enabled does nothing.\<close>

datatype hub_event =
    Connect cid string "ns_scope option"
  | Deliver cid
  | Disconnect cid
  | Publish sse_message

fun hub_apply :: "hub_event \<Rightarrow> hub_system \<Rightarrow> hub_system" where
  "hub_apply (Connect c topic sc) s =
     (if hs_phase s c = Fresh
      then s\<lparr>hs_hub := hub_register c (alloc_client c (new_client topic sc) (hs_hub s)),
             hs_phase := (hs_phase s)(c := Streaming)\<rparr>
      else s)"
| "hub_apply (Deliver c) s =
     (if hs_phase s c = Streaming
      then (case client_recv c (hs_hub s) of
              (Got m, h) \<Rightarrow> s\<lparr>hs_hub := h, hs_out := (hs_out s)(c := hs_out s c @ [m])\<rparr>
            | _ \<Rightarrow> s)
      else s)"
| "hub_apply (Disconnect c) s =
     (if hs_phase s c = Streaming
      then (case hub_unregister c (hs_hub s) of
              Inr h \<Rightarrow> s\<lparr>hs_hub := h, hs_phase := (hs_phase s)(c := Ended)\<rparr>
            | Inl _ \<Rightarrow> s)
      else s)"
| "hub_apply (Publish m) s =
     (case broadcast m (hs_hub s) of
        Inr (h, sent, dropped) \<Rightarrow> (record_publish m s)\<lparr>hs_hub := h\<rparr>
      | Inl _ \<Rightarrow> s)"

definition hub_exec :: "hub_event list \<Rightarrow> hub_system \<Rightarrow> hub_system" where
  "hub_exec es s = fold hub_apply es s"

lemma hub_apply_reachable: "hub_reachable s \<Longrightarrow> hub_reachable (hub_apply e s)"
proof (cases e)
  case (Connect c topic sc)
  assume "hub_reachable s"
  with Connect show ?thesis by (auto intro: hub_reachable.step hub_step.connect)
next
  case (Deliver c)
  assume r: "hub_reachable s"
  obtain x h where x: "client_recv c (hs_hub s) = (x, h)" by fastforce
  with r Deliver show ?thesis
    by (cases x) (auto intro: hub_reachable.step hub_step.deliver)
next
  case (Disconnect c)
  assume "hub_reachable s"
  with Disconnect show ?thesis
    by (auto intro: hub_reachable.step hub_step.disconnect split: sum.splits)
next
  case (Publish m)
  assume "hub_reachable s"
  with Publish show ?thesis
    by (auto intro: hub_reachable.step hub_step.publish split: sum.splits)
qed

lemma hub_exec_reachable: "hub_reachable s \<Longrightarrow> hub_reachable (hub_exec es s)"
  unfolding hub_exec_def by (induction es arbitrary: s) (auto intro: hub_apply_reachable)

section \<open>Guarantees in every reachable state\<close>

definition subscribed_topic :: "client \<Rightarrow> string" where
  "subscribed_topic cl = (if cl_topic cl = [] then global_topic else cl_topic cl)"

lemma wants_iff: "wants cl m \<longleftrightarrow> sm_topic m = subscribed_topic cl \<and> allows (cl_scope cl) (sm_namespace m)"
  by (auto simp: wants_def subscribed_topic_def Let_def)

lemma reachable_written:
  assumes "hub_reachable s" "hs_phase s c \<noteq> Fresh"
  shows "\<exists>cl. hub_store (hs_hub s) c = Some cl \<and> subseq (hs_out s c) (filter (wants cl) (hs_published s c))"
proof -
  from reachable_inv [OF assms(1)] assms(2) have "stream_inv s c \<or> ended_inv s c"
    by (cases "hs_phase s c") (auto simp: system_inv_def)
  then show ?thesis
    unfolding stream_inv_def ended_inv_def
    using subseq_rev_drop_many [OF subseq_order.refl] subseq_order.trans by blast
qed

text \<open>
  Tenant isolation of the stream. Whatever the interleaving of connections, polls and
  disconnections, every message a connection has written belongs to the topic it subscribed to and
  to a namespace its scope, fixed when it connected, allows; a caller restricted to a set of
  namespaces is never shown an event of another namespace nor a cluster-scoped one.
\<close>

theorem stream_isolation:
  assumes "hub_reachable s" "hub_store (hs_hub s) c = Some cl" "m \<in> set (hs_out s c)"
  shows "sm_topic m = subscribed_topic cl \<and> allows (cl_scope cl) (sm_namespace m)
      \<and> (restricted (cl_scope cl) \<longrightarrow> sm_namespace m \<in> set (scope_list (cl_scope cl)))"
proof -
  have "hs_phase s c \<noteq> Fresh"
    using reachable_inv [OF assms(1)] assms(3) by (auto simp: system_inv_def)
  from reachable_written [OF assms(1) this] assms(2)
  have "subseq (hs_out s c) (filter (wants cl) (hs_published s c))" by simp
  from list_emb_set [OF this assms(3)] have "wants cl m" by auto
  then show ?thesis by (auto simp: wants_iff scope.bounded_permits)
qed

definition own_message :: sse_message where
  "own_message = \<lparr>sm_topic = global_topic, sm_data = ''y'', sm_namespace = ''team-a''\<rparr>"

definition sample_run :: hub_system where
  "sample_run = hub_exec [Connect 0 [] sample_scope, Publish sample_message, Publish own_message, Deliver 0]
     hub_start"

lemma sample_run_reachable: "hub_reachable sample_run"
  unfolding sample_run_def by (intro hub_exec_reachable hub_reachable.start)

lemmas sample_run_defs = sample_run_def hub_exec_def hub_start_def new_hub_def hub_register_def
  alloc_client_def new_client_def make_chan_def client_buffer_def poll_limit_def broadcast_def
  sample_message_def own_message_def sample_scope_def wants_def chan_try_send_def client_recv_def
  chan_recv_def global_topic_def record_publish_def

lemma sample_run_state:
  "hs_out sample_run 0 = [own_message]"
  "hub_store (hs_hub sample_run) 0 = Some (new_client [] sample_scope)"
  "hs_phase sample_run 0 = Streaming"
  "hs_published sample_run 0 = [sample_message, own_message]"
  by (simp_all add: sample_run_defs)

lemma sample_run_lost: "hs_lost sample_run 0 = 0"
  by (simp add: sample_run_defs chan_room_def)

theorem stream_isolation_witness:
  "hub_reachable sample_run \<and> own_message \<in> set (hs_out sample_run 0)
     \<and> sm_namespace own_message \<in> set (scope_list sample_scope)"
  using stream_isolation [OF sample_run_reachable sample_run_state(2), of own_message]
    sample_run_reachable sample_run_state(1)
  by (simp add: new_client_def sample_scope_def)

text \<open>
  What a connected client has been sent, followed by what waits in its queue, is in order and
  without repetition a part of the messages it wants among those broadcast since it registered; the
  queue never holds more than one poll; and as long as nothing was dropped for it the client has
  been sent, or has queued, every one of them exactly once.
\<close>

theorem stream_in_order:
  assumes "hub_reachable s" "hs_phase s c = Streaming"
  shows "\<exists>cl. hub_store (hs_hub s) c = Some cl
      \<and> subseq (hs_out s c @ ch_buf (cl_ch cl)) (filter (wants cl) (hs_published s c))
      \<and> length (ch_buf (cl_ch cl)) \<le> client_buffer
      \<and> (hs_lost s c = 0 \<longrightarrow> hs_out s c @ ch_buf (cl_ch cl) = filter (wants cl) (hs_published s c))"
proof -
  from reachable_inv [OF assms(1)] assms(2) have "stream_inv s c"
    by (simp add: system_inv_def)
  then obtain cl where cl: "hub_store (hs_hub s) c = Some cl" "client_ok cl"
    "subseq (hs_out s c @ ch_buf (cl_ch cl)) (filter (wants cl) (hs_published s c))"
    "length (hs_out s c) + length (ch_buf (cl_ch cl)) + hs_lost s c
       = length (filter (wants cl) (hs_published s c))"
    by (auto simp: stream_inv_def)
  from cl(2) have "length (ch_buf (cl_ch cl)) \<le> client_buffer"
    by (auto simp: client_ok_def chan_ok_def)
  moreover have "hs_out s c @ ch_buf (cl_ch cl) = filter (wants cl) (hs_published s c)"
    if "hs_lost s c = 0"
    using subseq_same_length [OF cl(3)] cl(4) that by simp
  ultimately show ?thesis
    using cl(1,3) by (intro exI [of _ cl] conjI impI) assumption+
qed

theorem stream_in_order_witness:
  "\<exists>cl. hub_store (hs_hub sample_run) 0 = Some cl
     \<and> hs_out sample_run 0 @ ch_buf (cl_ch cl) = filter (wants cl) (hs_published sample_run 0)"
  using stream_in_order [OF sample_run_reachable sample_run_state(3)] sample_run_lost by blast



end
