(* ===== verification/Hub_Refinement.thy ===== *)
theory Hub_Refinement
  imports Hub_System
begin

text \<open>
  The contract of the hub, stated without channels, stores or counters: every connection is a
  subscription with a bounded queue. \<open>subscriptions\<close> projects a state of the hub system to it, and
  each event of the system is the corresponding event of the contract.
\<close>

section \<open>The contract\<close>

datatype subscription =
    Unused
  | Active (sub_topic: string) (sub_scope: "ns_scope option") (sub_queue: "sse_message list")
      (sub_seen: "sse_message list")
  | Gone (sub_seen: "sse_message list")

type_synonym service = "cid \<Rightarrow> subscription"

definition offer :: "sse_message \<Rightarrow> subscription \<Rightarrow> subscription" where
  "offer m sub =
     (case sub of
        Active topic sc queue seen \<Rightarrow>
          if sm_topic m = topic \<and> allows sc (sm_namespace m) \<and> length queue < client_buffer
          then Active topic sc (queue @ [m]) seen else sub
      | _ \<Rightarrow> sub)"

fun serve :: "hub_event \<Rightarrow> service \<Rightarrow> service" where
  "serve (Connect c topic sc) t =
     (if t c = Unused then t(c := Active (if topic = [] then global_topic else topic) sc [] []) else t)"
| "serve (Deliver c) t =
     (case t c of Active topic sc (m # queue) seen \<Rightarrow> t(c := Active topic sc queue (seen @ [m])) | _ \<Rightarrow> t)"
| "serve (Disconnect c) t =
     (case t c of Active topic sc queue seen \<Rightarrow> t(c := Gone seen) | _ \<Rightarrow> t)"
| "serve (Publish m) t = (\<lambda>c. offer m (t c))"

section \<open>The projection\<close>

definition subscriptions :: "hub_system \<Rightarrow> service" where
  "subscriptions s c =
     (case hs_phase s c of
        Fresh \<Rightarrow> Unused
      | Streaming \<Rightarrow>
          (case hub_store (hs_hub s) c of
             None \<Rightarrow> Unused
           | Some cl \<Rightarrow> Active (subscribed_topic cl) (cl_scope cl) (ch_buf (cl_ch cl)) (hs_out s c))
      | Ended \<Rightarrow> Gone (hs_out s c))"

lemma subscriptions_start [simp]: "subscriptions hub_start = (\<lambda>_. Unused)"
  by (simp add: subscriptions_def hub_start_def fun_eq_iff)

lemma subscriptions_streaming:
  assumes "system_inv s" "hs_phase s c = Streaming"
  obtains cl where "hub_store (hs_hub s) c = Some cl" "client_ok cl" "c \<in> set (hub_members (hs_hub s))"
    "subscriptions s c = Active (subscribed_topic cl) (cl_scope cl) (ch_buf (cl_ch cl)) (hs_out s c)"
  using assms by (auto simp: system_inv_def stream_inv_def subscriptions_def)

lemma subscriptions_cases:
  assumes "system_inv s"
  shows "subscriptions s c = Unused \<longleftrightarrow> hs_phase s c = Fresh"
    "hs_phase s c = Ended \<Longrightarrow> subscriptions s c = Gone (hs_out s c)"
proof -
  show "subscriptions s c = Unused \<longleftrightarrow> hs_phase s c = Fresh"
    using assms
    by (cases "hs_phase s c") (auto simp: subscriptions_def elim: subscriptions_streaming)
qed (simp add: subscriptions_def)

lemma connect_square:
  assumes "system_inv s"
  shows "subscriptions (hub_apply (Connect c topic sc) s) = serve (Connect c topic sc) (subscriptions s)"
proof (cases "hs_phase s c = Fresh")
  case True
  with assms have "hs_out s c = []" by (simp add: system_inv_def)
  with True subscriptions_cases(1) [OF assms, of c] show ?thesis
    by (auto simp: fun_eq_iff subscriptions_def hub_register_def alloc_client_def new_client_def
        make_chan_def subscribed_topic_def split: phase.split option.split)
next
  case False
  with subscriptions_cases(1) [OF assms, of c] show ?thesis by simp
qed

lemma idle_square: "hs_phase s c \<noteq> Streaming \<Longrightarrow> system_inv s \<Longrightarrow>
    serve (Deliver c) (subscriptions s) = subscriptions s \<and> serve (Disconnect c) (subscriptions s) = subscriptions s"
  by (cases "hs_phase s c") (auto simp: subscriptions_def)

lemma deliver_square:
  assumes "system_inv s"
  shows "subscriptions (hub_apply (Deliver c) s) = serve (Deliver c) (subscriptions s)"
proof (cases "hs_phase s c = Streaming")
  case True
  from subscriptions_streaming [OF assms this] obtain cl where cl:
    "hub_store (hs_hub s) c = Some cl" "client_ok cl"
    "subscriptions s c = Active (subscribed_topic cl) (cl_scope cl) (ch_buf (cl_ch cl)) (hs_out s c)" by metis
  show ?thesis
  proof (cases "ch_buf (cl_ch cl)")
    case Nil
    with cl True show ?thesis by (simp add: client_recv_def chan_recv_def client_ok_def chan_ok_def)
  next
    case (Cons m ms)
    with cl True show ?thesis
      by (auto simp: client_recv_def chan_recv_def fun_eq_iff subscriptions_def subscribed_topic_def
          split: phase.split option.split)
  qed
next
  case False
  with idle_square [OF this assms] show ?thesis by simp
qed

lemma disconnect_square:
  assumes "system_inv s"
  shows "subscriptions (hub_apply (Disconnect c) s) = serve (Disconnect c) (subscriptions s)"
proof (cases "hs_phase s c = Streaming")
  case True
  from subscriptions_streaming [OF assms this] obtain cl where cl:
    "hub_store (hs_hub s) c = Some cl" "client_ok cl"
    "subscriptions s c = Active (subscribed_topic cl) (cl_scope cl) (ch_buf (cl_ch cl)) (hs_out s c)" by metis
  then have "\<not> ch_closed (cl_ch cl)" by (simp add: client_ok_def chan_ok_def)
  with cl True show ?thesis
    by (auto simp: hub_unregister_def close_chan_def Let_def fun_eq_iff subscriptions_def split: phase.split option.split)
next
  case False
  with idle_square [OF this assms] show ?thesis by simp
qed

lemma publish_square:
  assumes "system_inv s"
  shows "subscriptions (hub_apply (Publish m) s) = serve (Publish m) (subscriptions s)"
proof
  fix c
  from broadcast_result [OF system_inv_hub [OF assms], of m] obtain sent dropped where
    b: "broadcast m (hs_hub s) = Inr (after_message m (hs_hub s), sent, dropped)" by blast
  show "subscriptions (hub_apply (Publish m) s) c = serve (Publish m) (subscriptions s) c"
  proof (cases "hs_phase s c = Streaming")
    case True
    from subscriptions_streaming [OF assms this] obtain cl where cl:
      "hub_store (hs_hub s) c = Some cl" "client_ok cl" "c \<in> set (hub_members (hs_hub s))"
      "subscriptions s c = Active (subscribed_topic cl) (cl_scope cl) (ch_buf (cl_ch cl)) (hs_out s c)" by metis
    have "0 < chan_room (cl_ch cl) \<longleftrightarrow> length (ch_buf (cl_ch cl)) < client_buffer"
      using cl(2) by (auto simp: client_ok_def chan_room_def)
    with b cl True show ?thesis
      by (auto simp: subscriptions_def record_publish_def offer_def receive_def wants_iff subscribed_topic_def)
  next
    case False
    with b show ?thesis
      by (cases "hs_phase s c") (auto simp: subscriptions_def record_publish_def offer_def)
  qed
qed

lemma serve_square:
  "system_inv s \<Longrightarrow> subscriptions (hub_apply e s) = serve e (subscriptions s)"
  by (cases e) (simp_all only: connect_square deliver_square disconnect_square publish_square)

lemma exec_serves: "subscriptions (hub_exec es hub_start) = fold serve es (\<lambda>_. Unused)"
proof -
  have "subscriptions (hub_exec es s) = fold serve es (subscriptions s)" if "hub_reachable s" for s
    using that
    by (induction es arbitrary: s)
      (simp_all add: hub_exec_def hub_apply_reachable serve_square reachable_inv)
  from this [OF hub_reachable.start] show ?thesis by simp
qed

text \<open>
  The hub implements a service of independent bounded queues: after any sequence of connections,
  deliveries, disconnections and broadcasts, what each connection has been sent and what waits for it
  is what the contract says, in which a published message is appended to the queue of every active
  subscription of its topic whose scope allows its namespace and whose queue holds fewer than 500,
  and nothing else happens to anyone.
\<close>

theorem hub_refines_queues:
  "subscriptions (hub_exec es hub_start) = fold serve es (\<lambda>_. Unused)"
  by (rule exec_serves)

end
