(* ===== verification/Http.thy ===== *)
theory Http
  imports Go_Strings
begin

text \<open>
  The parts of \<open>net/http\<close> and \<open>net/url\<close> the handlers and clients use: the request a handler
  receives, the \<open>ResponseWriter\<close> it writes to, the outgoing requests the proxy sends to ClickHouse
  and the Kubernetes API, and the environment that answers those. The environment is a record of
  functions on an arbitrary world state, a parameter of every definition that reaches outside the
  process; nothing is assumed about it here.
\<close>

section \<open>Requests\<close>

text \<open>
  \<open>jwtutil.UserInfo\<close>: the identity the verified token carries. A nil slice of groups is \<open>None\<close>: it
  marshals as \<open>null\<close>, where an empty one marshals as \<open>[]\<close>.
\<close>

record user_info =
  ui_username :: string
  ui_groups :: "string list option"

text \<open>
  Header keys are in canonical form, as the server stores them. \<open>rq_user\<close> is the value stored under
  \<open>userInfoCtxKey\<close> in the request context, \<open>None\<close> until the authentication wrapper sets it.
\<close>

record http_request =
  rq_method :: string
  rq_path :: string
  rq_raw_query :: string
  rq_headers :: "(string \<times> string) list"
  rq_cookies :: "(string \<times> string) list"
  rq_pattern :: string
  rq_user :: "user_info option"

definition header_get :: "string \<Rightarrow> (string \<times> string) list \<Rightarrow> string" where
  "header_get k hs = (case map_of hs k of None \<Rightarrow> [] | Some v \<Rightarrow> v)"

definition url_query :: "http_request \<Rightarrow> url_values" where
  "url_query r = parse_query (rq_raw_query r)"

definition request_cookie :: "string \<Rightarrow> http_request \<Rightarrow> string option" where
  "request_cookie name r = (if name = [] then None else map_of (rq_cookies r) name)"

section \<open>Response writers\<close>

text \<open>
  The header map may be changed until the status line is sent; what was sent is fixed by the first
  \<open>WriteHeader\<close> or \<open>Write\<close>, and a second \<open>WriteHeader\<close> is ignored.
\<close>

record response_writer =
  rw_flusher :: bool
  rw_header :: "(string \<times> string) list"
  rw_sent :: "(nat \<times> (string \<times> string) list) option"
  rw_body :: string

definition new_writer :: "bool \<Rightarrow> response_writer" where
  "new_writer fl = \<lparr>rw_flusher = fl, rw_header = [], rw_sent = None, rw_body = []\<rparr>"

definition header_set :: "string \<Rightarrow> string \<Rightarrow> response_writer \<Rightarrow> response_writer" where
  "header_set k v w = w\<lparr>rw_header := (k, v) # filter (\<lambda>(k', _). k' \<noteq> k) (rw_header w)\<rparr>"

definition header_del :: "string \<Rightarrow> response_writer \<Rightarrow> response_writer" where
  "header_del k w = w\<lparr>rw_header := filter (\<lambda>(k', _). k' \<noteq> k) (rw_header w)\<rparr>"

definition write_header :: "nat \<Rightarrow> response_writer \<Rightarrow> response_writer" where
  "write_header code w =
     (case rw_sent w of None \<Rightarrow> w\<lparr>rw_sent := Some (code, rw_header w)\<rparr> | Some _ \<Rightarrow> w)"

definition write_body :: "string \<Rightarrow> response_writer \<Rightarrow> response_writer" where
  "write_body s w = (let w' = write_header 200 w in w'\<lparr>rw_body := rw_body w' @ s\<rparr>)"

text \<open>\<open>http.Error\<close>.\<close>

definition http_error :: "string \<Rightarrow> nat \<Rightarrow> response_writer \<Rightarrow> response_writer" where
  "http_error msg code w =
     write_body (msg @ [nl])
       (write_header code
         (header_set ''X-Content-Type-Options'' ''nosniff''
           (header_set ''Content-Type'' ''text/plain; charset=utf-8''
             (header_del ''Content-Length'' w))))"

definition status_of :: "response_writer \<Rightarrow> nat option" where
  "status_of w = map_option fst (rw_sent w)"

definition sent_header :: "string \<Rightarrow> response_writer \<Rightarrow> string option" where
  "sent_header k w = (case rw_sent w of None \<Rightarrow> None | Some (_, hs) \<Rightarrow> map_of hs k)"

lemma map_of_filter_key:
  "map_of (filter (\<lambda>(k', _). k' \<noteq> k) hs) j = (if j = k then None else map_of hs j)"
  by (induction hs) auto

lemma header_set_simps [http_simps]:
  "rw_sent (header_set k v w) = rw_sent w"
  "rw_body (header_set k v w) = rw_body w"
  "rw_flusher (header_set k v w) = rw_flusher w"
  "map_of (rw_header (header_set k v w)) = (map_of (rw_header w))(k \<mapsto> v)"
  by (auto simp: header_set_def map_of_filter_key fun_eq_iff)

lemma header_del_simps [http_simps]:
  "rw_sent (header_del k w) = rw_sent w"
  "rw_body (header_del k w) = rw_body w"
  "rw_flusher (header_del k w) = rw_flusher w"
  "map_of (rw_header (header_del k w)) = (map_of (rw_header w))(k := None)"
  by (auto simp: header_del_def map_of_filter_key fun_eq_iff)

lemma write_header_simps [http_simps]:
  "rw_body (write_header code w) = rw_body w"
  "rw_flusher (write_header code w) = rw_flusher w"
  "rw_header (write_header code w) = rw_header w"
  "rw_sent w = None \<Longrightarrow> rw_sent (write_header code w) = Some (code, rw_header w)"
  "rw_sent w = Some x \<Longrightarrow> write_header code w = w"
  by (auto simp: write_header_def split: option.splits)

lemma write_body_simps [http_simps]:
  "rw_body (write_body s w) = rw_body w @ s"
  "rw_sent w = None \<Longrightarrow> rw_sent (write_body s w) = Some (200, rw_header w)"
  "rw_sent w = Some x \<Longrightarrow> rw_sent (write_body s w) = Some x"
  "rw_header (write_body s w) = rw_header w"
  "rw_flusher (write_body s w) = rw_flusher w"
  by (auto simp: write_body_def write_header_def Let_def split: option.splits)

lemma http_error_simps [http_simps]:
  "rw_sent w = None \<Longrightarrow> status_of (http_error msg code w) = Some code"
  "rw_body (http_error msg code w) = rw_body w @ msg @ [nl]"
  by (simp_all add: http_error_def status_of_def http_simps)

lemma http_error_sent [http_simps]:
  "rw_sent w = None \<Longrightarrow> \<exists>hs. rw_sent (http_error msg code w) = Some (code, hs)
     \<and> (\<forall>k. k \<noteq> ''X-Content-Type-Options'' \<longrightarrow> k \<noteq> ''Content-Type'' \<longrightarrow> k \<noteq> ''Content-Length''
           \<longrightarrow> map_of hs k = map_of (rw_header w) k)"
  by (simp add: http_error_def http_simps)

section \<open>Outgoing requests and the environment\<close>

record out_request =
  or_method :: string
  or_url :: string
  or_headers :: "(string \<times> string) list"
  or_basic_auth :: "(string \<times> string) option"
  or_body :: string

text \<open>A reply's body is read with \<open>io.ReadAll\<close>, which may fail after the status arrived.\<close>

record out_reply =
  rp_status :: nat
  rp_body :: "string result"

text \<open>
  \<open>env_http\<close> is \<open>(*http.Client).Do\<close>, \<open>env_now\<close> is \<open>time.Now\<close> and \<open>env_read_file\<close> is \<open>os.ReadFile\<close>.
\<close>

record 'w env =
  env_http :: "out_request \<Rightarrow> 'w \<Rightarrow> out_reply result \<times> 'w"
  env_now :: "'w \<Rightarrow> time \<times> 'w"
  env_read_file :: "string \<Rightarrow> 'w \<Rightarrow> string result \<times> 'w"

section \<open>URLs of outgoing requests\<close>

text \<open>\<open>url.QueryEscape\<close>.\<close>

definition url_unreserved :: "char \<Rightarrow> bool" where
  "url_unreserved c \<longleftrightarrow> is_lower c \<or> is_upper c \<or> is_digit c
     \<or> c = CHR ''-'' \<or> c = CHR ''_'' \<or> c = CHR ''.'' \<or> c = CHR ''~''"

definition upper_hex :: "nat \<Rightarrow> char" where
  "upper_hex n = (if n < 10 then char_of (48 + n) else char_of (55 + n))"

definition escape_char :: "char \<Rightarrow> string" where
  "escape_char c =
     (if url_unreserved c then [c]
      else if c = CHR '' '' then [CHR ''+'']
      else [CHR ''%'', upper_hex (byte c div 16), upper_hex (byte c mod 16)])"

definition query_escape :: "string \<Rightarrow> string" where
  "query_escape s = concat (map escape_char s)"

text \<open>
  \<open>url.Values\<close> as an association list: \<open>Set\<close> replaces every value of the key, and \<open>Encode\<close> writes
  the pairs sorted by key, the values of one key in order.
\<close>

definition values_set :: "string \<Rightarrow> string \<Rightarrow> url_values \<Rightarrow> url_values" where
  "values_set k v q = filter (\<lambda>(k', _). k' \<noteq> k) q @ [(k, v)]"

definition url_encode :: "url_values \<Rightarrow> string" where
  "url_encode q =
     join ''&'' (map (\<lambda>(k, v). query_escape k @ ''='' @ query_escape v) (sort_key fst q))"

text \<open>
  \<open>url.Parse\<close> of the configured base URL, as far as the client uses it: a control byte is an error,
  the fragment after \<open>#\<close> is cut off, and the raw query follows the first \<open>?\<close>. The checks Go makes on
  the scheme, host and port of the rest are not modelled: the rest is kept as it is written.
\<close>

definition parse_url :: "string \<Rightarrow> (string \<times> string) result" where
  "parse_url u =
     (if list_ex (\<lambda>c. byte c < 32 \<or> byte c = 127) u
      then Inl (''net/url: invalid control character in URL'')
      else (case cut CHR ''#'' u of (rest, _, _) \<Rightarrow>
              (case cut CHR ''?'' rest of (base, q, _) \<Rightarrow> Inr (base, q))))"

definition url_string :: "string \<Rightarrow> string \<Rightarrow> string" where
  "url_string base raw = (if raw = [] then base else base @ ''?'' @ raw)"

lemma unhex_upper: "n < 16 \<Longrightarrow> is_hex (upper_hex n) \<and> unhex (upper_hex n) = n"
  by (auto simp: upper_hex_def is_hex_def unhex_def is_digit_def)

lemma url_unreserved_plain: "url_unreserved c \<Longrightarrow> c \<noteq> CHR ''%'' \<and> c \<noteq> CHR ''+'' \<and> c \<noteq> CHR ''&''
    \<and> c \<noteq> CHR '';'' \<and> c \<noteq> CHR ''=''"
  by (auto simp: url_unreserved_def is_lower_def is_upper_def is_digit_def byte_def)

lemma byte_nibbles: "byte c div 16 < 16" "byte c mod 16 < 16"
    "16 * (byte c div 16) + byte c mod 16 = byte c"
  using byte_less [of c] by (linarith, simp_all)

lemma query_unescape_escape_char:
  "query_unescape (escape_char c @ s) = map_option ((#) c) (query_unescape s)"
proof -
  consider (plain) "url_unreserved c" | (space) "\<not> url_unreserved c" "c = CHR '' ''"
    | (esc) "\<not> url_unreserved c" "c \<noteq> CHR '' ''" by blast
  then show ?thesis
  proof cases
    case plain
    with url_unreserved_plain [OF plain] show ?thesis by (simp add: escape_char_def)
  next
    case space
    then show ?thesis by (simp add: escape_char_def)
  next
    case esc
    then show ?thesis
      using unhex_upper [OF byte_nibbles(1) [of c]] unhex_upper [OF byte_nibbles(2) [of c]]
      by (simp add: escape_char_def byte_nibbles(3))
  qed
qed

theorem query_unescape_escape: "query_unescape (query_escape s) = Some s"
  by (induction s) (simp_all add: query_escape_def query_unescape_escape_char)

lemma upper_hex_unreserved: "n < 16 \<Longrightarrow> url_unreserved (upper_hex n)"
  by (auto simp: upper_hex_def url_unreserved_def is_digit_def is_upper_def)

lemma query_escape_chars:
  assumes "c \<in> set (query_escape s)"
  shows "c \<noteq> CHR ''&'' \<and> c \<noteq> CHR '';'' \<and> c \<noteq> CHR ''='' \<and> c \<noteq> CHR ''#''"
proof -
  have un: "url_unreserved d \<Longrightarrow> d \<noteq> CHR ''&'' \<and> d \<noteq> CHR '';'' \<and> d \<noteq> CHR ''='' \<and> d \<noteq> CHR ''#''" for d
    by (auto simp: url_unreserved_def is_lower_def is_upper_def is_digit_def byte_def)
  from assms obtain d where "c \<in> set (escape_char d)"
    by (auto simp: query_escape_def)
  then have "url_unreserved c \<or> c = CHR ''+'' \<or> c = CHR ''%''"
    using upper_hex_unreserved [OF byte_nibbles(1) [of d]] upper_hex_unreserved [OF byte_nibbles(2) [of d]]
    by (auto simp: escape_char_def split: if_splits)
  with un show ?thesis by auto
qed

lemma query_escape_eq_Nil [simp]: "query_escape s = [] \<longleftrightarrow> s = []"
  by (cases s) (auto simp: query_escape_def escape_char_def)

lemma parse_pair_encoded:
  assumes "k \<noteq> []"
  shows "parse_pair (query_escape k @ ''='' @ query_escape v) = Some (k, v)"
proof -
  have "cut CHR ''='' (query_escape k @ CHR ''='' # query_escape v) = (query_escape k, query_escape v, True)"
    using query_escape_chars by (intro cut_append) blast
  moreover have "CHR '';'' \<notin> set (query_escape k @ CHR ''='' # query_escape v)"
    using query_escape_chars by auto
  ultimately show ?thesis using assms by (simp add: parse_pair_def query_unescape_escape)
qed

text \<open>Parsing an encoded query gives back every pair, in the order of the encoding.\<close>

theorem parse_url_encode:
  assumes "\<forall>(k, v) \<in> set q. k \<noteq> []"
  shows "parse_query (url_encode q) = sort_key fst q"
proof (cases "sort_key fst q = []")
  case True
  then show ?thesis by (simp add: parse_query_def url_encode_def List.map_filter_def parse_pair_def)
next
  case False
  let ?enc = "\<lambda>(k, v). query_escape k @ ''='' @ query_escape v"
  have "\<forall>p \<in> set (map ?enc (sort_key fst q)). CHR ''&'' \<notin> set p"
    using query_escape_chars by (auto simp: split_beta)
  then have "split_on CHR ''&'' (url_encode q) = map ?enc (sort_key fst q)"
    using False by (simp add: url_encode_def split_on_join del: sort_key_const)
  moreover have "List.map_filter parse_pair (map ?enc xs) = xs"
    if "\<forall>(k, v) \<in> set xs. k \<noteq> []" for xs
    using that
  proof (induction xs)
    case Nil
    then show ?case by (simp add: List.map_filter_def)
  next
    case (Cons x xs)
    obtain k v where x: "x = (k, v)" by (cases x)
    with Cons parse_pair_encoded [of k v] show ?case
      by (simp add: List.map_filter_def)
  qed
  ultimately show ?thesis using assms by (simp add: parse_query_def)
qed

end
