(* ===== verification/Go_Json.thy ===== *)
theory Go_Json
  imports Go_Strings
begin

text \<open>
  \<open>encoding/json\<close>, as far as the proxy uses it: \<open>Marshal\<close> of strings and flat objects (with the
  default HTML escaping and the replacement of invalid UTF-8), and \<open>Unmarshal\<close>: the syntax check and
  parse of a whole value, and the decoding of an object into a struct (exact field names first, then
  case-insensitive ones, unknown names ignored, \<open>null\<close> leaving the field alone, a type mismatch
  reported after the remaining fields have been decoded). Go's limit of 10000 nested values is not
  modelled.
\<close>

section \<open>UTF-8\<close>

definition cont_byte :: "nat \<Rightarrow> bool" where
  "cont_byte n \<longleftrightarrow> 0x80 \<le> n \<and> n \<le> 0xBF"

text \<open>The size of the code point at the front of a string, 0 when its bytes are not UTF-8.\<close>

definition utf8_second :: "nat \<Rightarrow> nat \<Rightarrow> bool" where
  "utf8_second a b \<longleftrightarrow>
     (if a = 0xE0 then 0xA0 \<le> b \<and> b \<le> 0xBF
      else if a = 0xED then 0x80 \<le> b \<and> b \<le> 0x9F
      else if a = 0xF0 then 0x90 \<le> b \<and> b \<le> 0xBF
      else if a = 0xF4 then 0x80 \<le> b \<and> b \<le> 0x8F
      else cont_byte b)"

definition utf8_size :: "string \<Rightarrow> nat" where
  "utf8_size s =
     (case s of
        [] \<Rightarrow> 0
      | c # t \<Rightarrow>
          let a = byte c; b = map byte t in
          if a < 0x80 then 1
          else if 0xC2 \<le> a \<and> a \<le> 0xDF then
            (if 1 \<le> length b \<and> utf8_second a (b ! 0) then 2 else 0)
          else if 0xE0 \<le> a \<and> a \<le> 0xEF then
            (if 2 \<le> length b \<and> utf8_second a (b ! 0) \<and> cont_byte (b ! 1) then 3 else 0)
          else if 0xF0 \<le> a \<and> a \<le> 0xF4 then
            (if 3 \<le> length b \<and> utf8_second a (b ! 0) \<and> cont_byte (b ! 1) \<and> cont_byte (b ! 2)
             then 4 else 0)
          else 0)"

definition replacement_char :: string where
  "replacement_char = [CHR 0xEF, CHR 0xBF, CHR 0xBD]"

lemma utf8_size_le: "utf8_size s \<le> length s"
  by (auto simp: utf8_size_def Let_def split: list.splits)

lemma utf8_size_pos: "utf8_size s \<noteq> 0 \<Longrightarrow> s \<noteq> []"
  by (auto simp: utf8_size_def)

lemma utf8_size_ascii: "byte c < 0x80 \<Longrightarrow> utf8_size (c # s) = 1"
  by (simp add: utf8_size_def)

text \<open>What survives a decoder that replaces every byte that is not part of a code point.\<close>

function utf8_fix :: "string \<Rightarrow> string" where
  "utf8_fix [] = []"
| "utf8_fix (c # s) =
     (if utf8_size (c # s) = 0 then replacement_char @ utf8_fix s
      else take (utf8_size (c # s)) (c # s) @ utf8_fix (drop (utf8_size (c # s)) (c # s)))"
  by pat_completeness auto
termination
  by (relation "measure length") auto

definition valid_utf8 :: "string \<Rightarrow> bool" where
  "valid_utf8 s \<longleftrightarrow> utf8_fix s = s"

text \<open>\<open>utf8.EncodeRune\<close> for a code point below 0x110000.\<close>

definition encode_rune :: "nat \<Rightarrow> string" where
  "encode_rune r =
     (if r < 0x80 then [char_of r]
      else if r < 0x800 then [char_of (0xC0 + r div 64), char_of (0x80 + r mod 64)]
      else if 0xD800 \<le> r \<and> r \<le> 0xDFFF then replacement_char
      else if r < 0x10000 then
        [char_of (0xE0 + r div 4096), char_of (0x80 + r div 64 mod 64), char_of (0x80 + r mod 64)]
      else
        [char_of (0xF0 + r div 262144), char_of (0x80 + r div 4096 mod 64),
         char_of (0x80 + r div 64 mod 64), char_of (0x80 + r mod 64)])"

section \<open>Marshalling strings\<close>

abbreviation dquote :: char where "dquote \<equiv> CHR 0x22"
abbreviation backslash :: char where "backslash \<equiv> CHR 0x5C"

definition lower_hex :: "nat \<Rightarrow> char" where
  "lower_hex n = (if n < 10 then char_of (48 + n) else char_of (87 + n))"

definition json_escape_ascii :: "char \<Rightarrow> string" where
  "json_escape_ascii c =
     (if c = dquote then [backslash, dquote]
      else if c = backslash then [backslash, backslash]
      else if c = CHR 0x08 then [backslash, CHR ''b'']
      else if c = CHR 0x0C then [backslash, CHR ''f'']
      else if c = CHR 0x0A then [backslash, CHR ''n'']
      else if c = CHR 0x0D then [backslash, CHR ''r'']
      else if c = CHR 0x09 then [backslash, CHR ''t'']
      else if byte c < 32 \<or> c = CHR ''<'' \<or> c = CHR ''>'' \<or> c = CHR ''&''
        then [backslash, CHR ''u'', CHR ''0'', CHR ''0'', lower_hex (byte c div 16), lower_hex (byte c mod 16)]
      else [c])"

definition is_line_sep :: "string \<Rightarrow> bool" where
  "is_line_sep s \<longleftrightarrow> s = [CHR 0xE2, CHR 0x80, CHR 0xA8] \<or> s = [CHR 0xE2, CHR 0x80, CHR 0xA9]"

definition json_escape_rune :: "string \<Rightarrow> string" where
  "json_escape_rune u =
     (if is_line_sep u
      then [backslash, CHR ''u'', CHR ''2'', CHR ''0'', CHR ''2'', lower_hex (byte (u ! 2) mod 16)]
      else u)"

function json_body :: "string \<Rightarrow> string" where
  "json_body [] = []"
| "json_body (c # s) =
     (if byte c < 0x80 then json_escape_ascii c @ json_body s
      else if utf8_size (c # s) = 0 then backslash # ''ufffd'' @ json_body s
      else json_escape_rune (take (utf8_size (c # s)) (c # s))
             @ json_body (drop (utf8_size (c # s)) (c # s)))"
  by pat_completeness auto
termination
  by (relation "measure length") auto

definition json_string :: "string \<Rightarrow> string" where
  "json_string s = dquote # json_body s @ [dquote]"

text \<open>An object is its members in the order of the struct's fields.\<close>

definition json_object :: "(string \<times> string) list \<Rightarrow> string" where
  "json_object ms =
     CHR 0x7B # join '','' (map (\<lambda>(k, v). json_string k @ '':'' @ v) ms) @ [CHR 0x7D]"

definition json_array :: "string list \<Rightarrow> string" where
  "json_array vs = CHR 0x5B # join '','' vs @ [CHR 0x5D]"

section \<open>Parsing\<close>

datatype json =
    JNull
  | JBool bool
  | JNum string
  | JStr string
  | JArr "json list"
  | JObj "(string \<times> json) list"

definition json_ws :: "char \<Rightarrow> bool" where
  "json_ws c \<longleftrightarrow> c = CHR '' '' \<or> c = CHR 0x09 \<or> c = CHR 0x0A \<or> c = CHR 0x0D"

definition skip_ws :: "string \<Rightarrow> string" where
  "skip_ws s = dropWhile json_ws s"

text \<open>\<open>getu4\<close>: the code unit of a \<open>\uXXXX\<close> whose backslash and \<open>u\<close> have been read.\<close>

definition get_hex4 :: "string \<Rightarrow> (nat \<times> string) option" where
  "get_hex4 s =
     (case s of
        a # b # c # d # t \<Rightarrow>
          if is_hex a \<and> is_hex b \<and> is_hex c \<and> is_hex d
          then Some (((unhex a * 16 + unhex b) * 16 + unhex c) * 16 + unhex d, t)
          else None
      | _ \<Rightarrow> None)"

lemma get_hex4_length: "get_hex4 s = Some (n, t) \<Longrightarrow> length t < length s"
  by (auto simp: get_hex4_def split: list.splits if_splits)

definition simple_escape :: "char \<Rightarrow> char option" where
  "simple_escape e =
     (if e = dquote \<or> e = backslash \<or> e = CHR ''/'' then Some e
      else if e = CHR ''b'' then Some CHR 0x08
      else if e = CHR ''f'' then Some CHR 0x0C
      else if e = CHR ''n'' then Some CHR 0x0A
      else if e = CHR ''r'' then Some CHR 0x0D
      else if e = CHR ''t'' then Some CHR 0x09
      else None)"

text \<open>
  The code point of a \<open>\u\<close> escape and what follows it: two escapes for a surrogate pair, U+FFFD for
  a surrogate on its own.
\<close>

definition unicode_escape :: "string \<Rightarrow> (nat \<times> string) option" where
  "unicode_escape s =
     (case get_hex4 s of
        None \<Rightarrow> None
      | Some (r, t) \<Rightarrow>
          if r < 0xD800 \<or> 0xDFFF < r then Some (r, t)
          else
            (case t of
               x # y # t' \<Rightarrow>
                 if x = backslash \<and> y = CHR ''u'' then
                   (case get_hex4 t' of
                      Some (r2, t'') \<Rightarrow>
                        if r < 0xDC00 \<and> 0xDC00 \<le> r2 \<and> r2 \<le> 0xDFFF
                        then Some ((r - 0xD800) * 1024 + (r2 - 0xDC00) + 0x10000, t'')
                        else Some (0xFFFD, t)
                    | None \<Rightarrow> Some (0xFFFD, t))
                 else Some (0xFFFD, t)
             | _ \<Rightarrow> Some (0xFFFD, t)))"

lemma unicode_escape_length: "unicode_escape s = Some (r, t) \<Longrightarrow> length t < length s"
  by (fastforce simp: unicode_escape_def split: option.splits if_splits list.splits
      dest: get_hex4_length)

text \<open>A string after its opening quote: the decoded text and what follows the closing quote.\<close>

function parse_string :: "string \<Rightarrow> (string \<times> string) option" where
  "parse_string [] = None"
| "parse_string (c # s) =
     (if c = dquote then Some ([], s)
      else if byte c < 32 then None
      else if c = backslash then
        (case s of
           [] \<Rightarrow> None
         | e # s' \<Rightarrow>
             if e = CHR ''u'' then
               (case unicode_escape s' of
                  None \<Rightarrow> None
                | Some (r, t) \<Rightarrow> map_option (apfst ((@) (encode_rune r))) (parse_string t))
             else
               (case simple_escape e of
                  None \<Rightarrow> None
                | Some d \<Rightarrow> map_option (apfst ((#) d)) (parse_string s')))
      else if byte c < 0x80 then map_option (apfst ((#) c)) (parse_string s)
      else if utf8_size (c # s) = 0 then map_option (apfst ((@) replacement_char)) (parse_string s)
      else map_option (apfst ((@) (take (utf8_size (c # s)) (c # s))))
             (parse_string (drop (utf8_size (c # s)) (c # s))))"
  by pat_completeness auto
termination
  by (relation "measure length") (auto dest: unicode_escape_length)

text \<open>A number literal: \<open>-?(0|[1-9][0-9]*)(\.[0-9]+)?([eE][-+]?[0-9]+)?\<close>.\<close>

definition digits1 :: "string \<Rightarrow> (string \<times> string) option" where
  "digits1 s = (if takeWhile is_digit s = [] then None else Some (takeWhile is_digit s, dropWhile is_digit s))"

definition number_int :: "string \<Rightarrow> (string \<times> string) option" where
  "number_int s =
     (case s of
        [] \<Rightarrow> None
      | c # t \<Rightarrow> if c = CHR ''0'' then Some ([c], t) else digits1 s)"

definition number_frac :: "string \<Rightarrow> (string \<times> string) option" where
  "number_frac s =
     (case s of
        c # t \<Rightarrow> if c = CHR ''.'' then map_option (apfst ((#) c)) (digits1 t) else Some ([], s)
      | [] \<Rightarrow> Some ([], []))"

definition number_exp :: "string \<Rightarrow> (string \<times> string) option" where
  "number_exp s =
     (case s of
        c # t \<Rightarrow>
          if c = CHR ''e'' \<or> c = CHR ''E'' then
            (case t of
               d # u \<Rightarrow>
                 if d = CHR ''+'' \<or> d = CHR ''-''
                 then map_option (apfst (\<lambda>ds. c # d # ds)) (digits1 u)
                 else map_option (apfst ((#) c)) (digits1 t)
             | [] \<Rightarrow> None)
          else Some ([], s)
      | [] \<Rightarrow> Some ([], []))"

definition parse_number :: "string \<Rightarrow> (json \<times> string) option" where
  "parse_number s =
     (let (sign, t) = (case s of c # u \<Rightarrow> if c = CHR ''-'' then ([c], u) else ([], s) | [] \<Rightarrow> ([], []))
      in (case number_int t of
            None \<Rightarrow> None
          | Some (i, t1) \<Rightarrow>
              (case number_frac t1 of
                 None \<Rightarrow> None
               | Some (f, t2) \<Rightarrow>
                   (case number_exp t2 of
                      None \<Rightarrow> None
                    | Some (e, t3) \<Rightarrow> Some (JNum (sign @ i @ f @ e), t3)))))"

definition parse_word :: "string \<Rightarrow> json \<Rightarrow> string \<Rightarrow> (json \<times> string) option" where
  "parse_word w v s = (if is_prefix_of w s then Some (v, drop (length w) s) else None)"

definition parse_scalar :: "string \<Rightarrow> (json \<times> string) option" where
  "parse_scalar s =
     (case s of
        [] \<Rightarrow> None
      | c # t \<Rightarrow>
          if c = dquote then map_option (apfst JStr) (parse_string t)
          else if c = CHR ''t'' then parse_word ''true'' (JBool True) s
          else if c = CHR ''f'' then parse_word ''false'' (JBool False) s
          else if c = CHR ''n'' then parse_word ''null'' JNull s
          else parse_number s)"

text \<open>
  A value, the members of an object after its brace, the elements of an array after its bracket.
  Every call reads at least one byte before the next, so fuel above the length of the input is
  enough (\<open>parse_fuel\<close> below).
\<close>

fun parse_value :: "nat \<Rightarrow> string \<Rightarrow> (json \<times> string) option"
and parse_members :: "nat \<Rightarrow> string \<Rightarrow> ((string \<times> json) list \<times> string) option"
and parse_elements :: "nat \<Rightarrow> string \<Rightarrow> (json list \<times> string) option"
where
  "parse_value 0 s = None"
| "parse_value (Suc n) s =
     (case skip_ws s of
        [] \<Rightarrow> None
      | c # t \<Rightarrow>
          if c = CHR 0x7B then
            (case skip_ws t of
               [] \<Rightarrow> None
             | d # u \<Rightarrow> if d = CHR 0x7D then Some (JObj [], u)
                        else map_option (apfst JObj) (parse_members n (d # u)))
          else if c = CHR 0x5B then
            (case skip_ws t of
               [] \<Rightarrow> None
             | d # u \<Rightarrow> if d = CHR 0x5D then Some (JArr [], u)
                        else map_option (apfst JArr) (parse_elements n (d # u)))
          else parse_scalar (c # t))"
| "parse_members 0 s = None"
| "parse_members (Suc n) s =
     (case skip_ws s of
        [] \<Rightarrow> None
      | c # t \<Rightarrow>
          if c \<noteq> dquote then None
          else (case parse_string t of
                  None \<Rightarrow> None
                | Some (k, t1) \<Rightarrow>
                    (case skip_ws t1 of
                       [] \<Rightarrow> None
                     | d # t2 \<Rightarrow>
                         if d \<noteq> CHR '':'' then None
                         else (case parse_value n t2 of
                                 None \<Rightarrow> None
                               | Some (v, t3) \<Rightarrow>
                                   (case skip_ws t3 of
                                      [] \<Rightarrow> None
                                    | e # t4 \<Rightarrow>
                                        if e = CHR '','' then map_option (apfst ((#) (k, v))) (parse_members n t4)
                                        else if e = CHR 0x7D then Some ([(k, v)], t4)
                                        else None)))))"
| "parse_elements 0 s = None"
| "parse_elements (Suc n) s =
     (case parse_value n s of
        None \<Rightarrow> None
      | Some (v, t) \<Rightarrow>
          (case skip_ws t of
             [] \<Rightarrow> None
           | e # u \<Rightarrow>
               if e = CHR '','' then map_option (apfst ((#) v)) (parse_elements n u)
               else if e = CHR 0x5D then Some ([v], u)
               else None))"

definition json_parse :: "string \<Rightarrow> json option" where
  "json_parse s =
     (case parse_value (2 * length s + 1) s of
        None \<Rightarrow> None
      | Some (v, r) \<Rightarrow> if skip_ws r = [] then Some v else None)"

section \<open>Decoding into a struct\<close>

text \<open>
  A field is its name and what its value does to the struct: the new struct and whether the value
  had the field's type.
\<close>

type_synonym 'r field = "string \<times> (json \<Rightarrow> 'r \<Rightarrow> 'r \<times> bool)"

definition set_string :: "(string \<Rightarrow> 'r \<Rightarrow> 'r) \<Rightarrow> json \<Rightarrow> 'r \<Rightarrow> 'r \<times> bool" where
  "set_string upd j r =
     (case j of JStr s \<Rightarrow> (upd s r, True) | JNull \<Rightarrow> (r, True) | _ \<Rightarrow> (r, False))"

definition set_bool :: "(bool \<Rightarrow> 'r \<Rightarrow> 'r) \<Rightarrow> json \<Rightarrow> 'r \<Rightarrow> 'r \<times> bool" where
  "set_bool upd j r =
     (case j of JBool b \<Rightarrow> (upd b r, True) | JNull \<Rightarrow> (r, True) | _ \<Rightarrow> (r, False))"

text \<open>An integer field takes an integer literal in the range of \<open>int64\<close> only.\<close>

definition set_int64 :: "(int \<Rightarrow> 'r \<Rightarrow> 'r) \<Rightarrow> json \<Rightarrow> 'r \<Rightarrow> 'r \<times> bool" where
  "set_int64 upd j r =
     (case j of
        JNum l \<Rightarrow> (case atoi l of Some i \<Rightarrow> (upd i r, True) | None \<Rightarrow> (r, False))
      | JNull \<Rightarrow> (r, True)
      | _ \<Rightarrow> (r, False))"

text \<open>Case folding of member names: ASCII letters, the Kelvin sign and the long s.\<close>

fun fold_name :: "string \<Rightarrow> string" where
  "fold_name (a # b # c # s) =
     (if byte a = 0xE2 \<and> byte b = 0x84 \<and> byte c = 0xAA then CHR ''k'' # fold_name s
      else if byte a = 0xC5 \<and> byte b = 0xBF then CHR ''s'' # fold_name (c # s)
      else lower_char a # fold_name (b # c # s))"
| "fold_name [a, b] =
     (if byte a = 0xC5 \<and> byte b = 0xBF then [CHR ''s''] else [lower_char a, lower_char b])"
| "fold_name [a] = [lower_char a]"
| "fold_name [] = []"

definition find_field :: "'r field list \<Rightarrow> string \<Rightarrow> (json \<Rightarrow> 'r \<Rightarrow> 'r \<times> bool) option" where
  "find_field fs k =
     (case map_of fs k of
        Some st \<Rightarrow> Some st
      | None \<Rightarrow> map_option snd (find (\<lambda>(n, _). fold_name n = fold_name k) fs))"

fun decode_members :: "'r field list \<Rightarrow> (string \<times> json) list \<Rightarrow> 'r \<times> bool \<Rightarrow> 'r \<times> bool" where
  "decode_members fs [] acc = acc"
| "decode_members fs ((k, v) # ms) (r, ok) =
     (case find_field fs k of
        None \<Rightarrow> decode_members fs ms (r, ok)
      | Some st \<Rightarrow> (case st v r of (r', ok') \<Rightarrow> decode_members fs ms (r', ok \<and> ok')))"

definition set_struct ::
  "'s field list \<Rightarrow> ('r \<Rightarrow> 's) \<Rightarrow> ('s \<Rightarrow> 'r \<Rightarrow> 'r) \<Rightarrow> json \<Rightarrow> 'r \<Rightarrow> 'r \<times> bool" where
  "set_struct fs sel upd j r =
     (case j of
        JObj ms \<Rightarrow> (case decode_members fs ms (sel r, True) of (s, ok) \<Rightarrow> (upd s r, ok))
      | JNull \<Rightarrow> (r, True)
      | _ \<Rightarrow> (r, False))"

definition unmarshal :: "'r field list \<Rightarrow> string \<Rightarrow> 'r \<Rightarrow> 'r result" where
  "unmarshal fs s r =
     (case json_parse s of
        None \<Rightarrow> Inl ''json: syntax error''
      | Some j \<Rightarrow>
          (case set_struct fs id (\<lambda>s _. s) j r of
             (r', ok) \<Rightarrow> if ok then Inr r' else Inl ''json: cannot unmarshal''))"

section \<open>Laws of marshalling\<close>

lemma lower_hex_byte: "n < 16 \<Longrightarrow> 48 \<le> byte (lower_hex n) \<and> byte (lower_hex n) \<le> 102"
  by (auto simp: lower_hex_def)

lemma unhex_lower: "n < 16 \<Longrightarrow> is_hex (lower_hex n) \<and> unhex (lower_hex n) = n"
  by (auto simp: lower_hex_def is_hex_def unhex_def is_digit_def)

lemma nibbles: "byte c div 16 < 16" "byte c mod 16 < 16" "byte c div 16 * 16 + byte c mod 16 = byte c"
  using byte_less [of c] by (linarith, simp_all)

lemma set_take_byte: "\<forall>c \<in> set s. P c \<Longrightarrow> \<forall>c \<in> set (take n s). P c"
  by (auto dest: in_set_takeD)

lemma utf8_tail_bytes:
  assumes "utf8_size (c # s) \<noteq> 0" "0x80 \<le> byte c"
  shows "\<forall>d \<in> set (take (utf8_size (c # s)) (c # s)). 0x80 \<le> byte d"
proof -
  have snd: "utf8_second a b \<Longrightarrow> 0x80 \<le> b" for a b
    by (auto simp: utf8_second_def cont_byte_def split: if_splits)
  show ?thesis
    using assms snd
    by (cases s; cases "tl s"; cases "tl (tl s)")
      (auto simp: utf8_size_def Let_def cont_byte_def split: if_splits)
qed

text \<open>The text of a marshalled string has no control byte, so no line break.\<close>

lemma json_escape_ascii_set:
  "d \<in> set (json_escape_ascii c) \<Longrightarrow>
     d \<in> set (backslash # dquote # ''bfnrtu0'') \<or> d = lower_hex (byte c div 16)
       \<or> d = lower_hex (byte c mod 16) \<or> (d = c \<and> 32 \<le> byte c)"
  unfolding json_escape_ascii_def by (force split: if_splits)

lemma json_fixed_chars: "d \<in> set (backslash # dquote # ''bfnrtu0'') \<Longrightarrow> 32 \<le> byte d"
  by (auto simp: byte_def)

lemma json_escape_ascii_ctrl:
  assumes "d \<in> set (json_escape_ascii c)"
  shows "32 \<le> byte d"
  using json_escape_ascii_set [OF assms]
proof (elim disjE)
  assume "d \<in> set (backslash # dquote # ''bfnrtu0'')"
  then show ?thesis by (rule json_fixed_chars)
qed (use lower_hex_byte [OF nibbles(1) [of c]] lower_hex_byte [OF nibbles(2) [of c]] in simp_all)

lemma json_escape_rune_ctrl:
  assumes "\<forall>d \<in> set u. 0x80 \<le> byte d" "d \<in> set (json_escape_rune u)"
  shows "32 \<le> byte d"
proof (cases "is_line_sep u")
  case True
  with assms(2) have "d \<in> set (backslash # dquote # ''bfnrtu0'') \<or> d = CHR ''2''
      \<or> d = lower_hex (byte (u ! 2) mod 16)"
    by (auto simp: json_escape_rune_def)
  then show ?thesis
  proof (elim disjE)
    assume "d \<in> set (backslash # dquote # ''bfnrtu0'')"
    then show ?thesis by (rule json_fixed_chars)
  next
    assume "d = CHR ''2''"
    then show ?thesis by (simp add: byte_def)
  next
    assume "d = lower_hex (byte (u ! 2) mod 16)"
    then show ?thesis using lower_hex_byte [OF nibbles(2) [of "u ! 2"]] by simp
  qed
next
  case False
  with assms(2) have "d \<in> set u" by (simp add: json_escape_rune_def)
  with assms(1) show ?thesis by force
qed

lemma json_body_ctrl: "d \<in> set (json_body s) \<Longrightarrow> 32 \<le> byte d"
proof (induction s rule: json_body.induct)
  case 1
  then show ?case by simp
next
  case (2 c s)
  consider "byte c < 0x80" | "\<not> byte c < 0x80" "utf8_size (c # s) = 0"
    | "\<not> byte c < 0x80" "utf8_size (c # s) \<noteq> 0" by blast
  then show ?case
  proof cases
    case 1
    with 2 show ?thesis by (auto dest: json_escape_ascii_ctrl)
  next
    case 2
    with "2.prems" have "d \<in> set (backslash # ''ufffd'') \<or> d \<in> set (json_body s)" by auto
    with 2 "2.IH"(2) show ?thesis by (auto simp: byte_def)
  next
    case 3
    with "2.prems" have "d \<in> set (json_escape_rune (take (utf8_size (c # s)) (c # s)))
        \<or> d \<in> set (json_body (drop (utf8_size (c # s)) (c # s)))" by simp
    with 3 "2.IH"(3) utf8_tail_bytes [of c s] show ?thesis
      by (auto dest!: json_escape_rune_ctrl [rotated])
  qed
qed

lemma json_string_ctrl: "d \<in> set (json_string s) \<Longrightarrow> 32 \<le> byte d"
  by (auto simp: json_string_def byte_def dest: json_body_ctrl)

subsection \<open>A marshalled string parses back\<close>

lemma utf8_size_take:
  assumes "utf8_size (c # s) = n" "n \<noteq> 0"
  shows "utf8_size (take n (c # s) @ t) = n"
  using assms
  by (cases s; cases "tl s"; cases "tl (tl s)")
    (auto simp: utf8_size_def Let_def split: if_splits)

lemma append_single: "(@) [c] = (#) c"
  by (rule ext) simp

lemma parse_escape_ascii:
  assumes "byte c < 0x80"
  shows "parse_string (json_escape_ascii c @ X) = map_option (apfst ((#) c)) (parse_string X)"
proof -
  let ?u = "backslash # ''u00'' @ [lower_hex (byte c div 16), lower_hex (byte c mod 16)]"
  have hex0: "is_hex CHR ''0''" "unhex CHR ''0'' = 0"
    by (simp_all add: is_hex_def unhex_def is_digit_def byte_def)
  have u: "parse_string (?u @ X) = map_option (apfst ((#) c)) (parse_string X)"
    using assms hex0 unhex_lower [OF nibbles(1) [of c]] unhex_lower [OF nibbles(2) [of c]]
      nibbles(3) [of c]
    by (simp add: unicode_escape_def get_hex4_def encode_rune_def byte_def append_single)
  show ?thesis
  proof (cases "json_escape_ascii c = [c]")
    case True
    then have "c \<noteq> dquote" "c \<noteq> backslash" "\<not> byte c < 32"
      by (auto simp: json_escape_ascii_def split: if_splits)
    with True assms show ?thesis by simp
  next
    case False
    consider "json_escape_ascii c = ?u"
      | e where "json_escape_ascii c = [backslash, e]" "e \<noteq> CHR ''u''" "simple_escape e = Some c"
      using False by (auto simp: json_escape_ascii_def simple_escape_def split: if_splits)
    then show ?thesis
    proof cases
      case 1
      with u show ?thesis by simp
    next
      case 2
      then show ?thesis by (simp add: byte_def)
    qed
  qed
qed

lemma parse_escape_rune:
  assumes n: "utf8_size (c # s) = n" "n \<noteq> 0" and c: "\<not> byte c < 0x80"
  shows "parse_string (json_escape_rune (take n (c # s)) @ X)
           = map_option (apfst ((@) (take n (c # s)))) (parse_string X)"
proof (cases "is_line_sep (take n (c # s))")
  case True
  let ?u = "take n (c # s)"
  have hex: "is_hex CHR ''0''" "unhex CHR ''0'' = 0" "is_hex CHR ''2''" "unhex CHR ''2'' = 2"
      "is_hex CHR ''8''" "unhex CHR ''8'' = 8" "is_hex CHR ''9''" "unhex CHR ''9'' = 9"
    by (simp_all add: is_hex_def unhex_def is_digit_def byte_def)
  have lh: "lower_hex 8 = CHR ''8''" "lower_hex 9 = CHR ''9''"
    by (simp_all add: lower_hex_def char_of_eq_iff)
  have rune: "encode_rune 8232 = [CHR 0xE2, CHR 0x80, CHR 0xA8]"
      "encode_rune 8233 = [CHR 0xE2, CHR 0x80, CHR 0xA9]"
    by (simp_all add: encode_rune_def char_of_eq_iff)
  from True consider "?u = [CHR 0xE2, CHR 0x80, CHR 0xA8]" | "?u = [CHR 0xE2, CHR 0x80, CHR 0xA9]"
    by (auto simp: is_line_sep_def)
  then show ?thesis
  proof cases
    case 1
    then show ?thesis using hex lh rune
      by (simp add: json_escape_rune_def is_line_sep_def unicode_escape_def get_hex4_def byte_def)
  next
    case 2
    then show ?thesis using hex lh rune
      by (simp add: json_escape_rune_def is_line_sep_def unicode_escape_def get_hex4_def byte_def)
  qed
next
  case False
  obtain m where m: "n = Suc m" using n(2) by (cases n) auto
  have len: "length (take n (c # s)) = n"
    using utf8_size_le [of "c # s"] n(1) by simp
  have sz: "utf8_size (c # (take m s @ X)) = n"
    using utf8_size_take [OF n, of X] m by simp
  have "c \<noteq> dquote" "c \<noteq> backslash" "\<not> byte c < 32"
    using c by (auto simp: byte_def)
  then have "parse_string (c # (take m s @ X))
      = map_option (apfst ((@) (take n (c # (take m s @ X))))) (parse_string (drop n (c # (take m s @ X))))"
    using c sz n(2) by simp
  with m len False show ?thesis by (simp add: json_escape_rune_def)
qed

lemma parse_json_body: "parse_string (json_body s @ dquote # r) = Some (utf8_fix s, r)"
proof (induction s rule: json_body.induct)
  case 1
  then show ?case by simp
next
  case (2 c s)
  consider "byte c < 0x80" | "\<not> byte c < 0x80" "utf8_size (c # s) = 0"
    | "\<not> byte c < 0x80" "utf8_size (c # s) \<noteq> 0" by blast
  then show ?case
  proof cases
    case 1
    with "2.IH"(1) show ?thesis
      by (simp add: utf8_size_ascii parse_escape_ascii)
  next
    case 2
    have "encode_rune 65533 = replacement_char"
      by (simp add: encode_rune_def replacement_char_def char_of_eq_iff)
    then have "parse_string (backslash # ''ufffd'' @ X) = map_option (apfst ((@) replacement_char)) (parse_string X)" for X
      by (simp add: unicode_escape_def get_hex4_def is_hex_def unhex_def is_digit_def byte_def)
    with 2 "2.IH"(2) show ?thesis by simp
  next
    case 3
    with "2.IH"(3) show ?thesis
      by (simp add: parse_escape_rune [OF refl] del: take_Suc_Cons)
  qed
qed

lemma parse_json_string: "parse_scalar (json_string s @ r) = Some (JStr (utf8_fix s), r)"
  by (simp add: parse_scalar_def json_string_def parse_json_body)

subsection \<open>Marshalled objects parse back\<close>

text \<open>A text that parses to a value when the end of the input, a comma or a closing bracket follows.\<close>

definition stops :: "string \<Rightarrow> bool" where
  "stops r \<longleftrightarrow> r = [] \<or> hd r = CHR '','' \<or> hd r = CHR 0x7D \<or> hd r = CHR 0x5D"

definition parses :: "string \<Rightarrow> json \<Rightarrow> bool" where
  "parses v j \<longleftrightarrow>
     (\<forall>n r. 2 * length v + 1 \<le> n \<longrightarrow> stops r \<longrightarrow> parse_value n (v @ r) = Some (j, r))"

lemma parsesD:
  "parses v j \<Longrightarrow> 2 * length v + 1 \<le> n \<Longrightarrow> stops r \<Longrightarrow> parse_value n (v @ r) = Some (j, r)"
  by (simp add: parses_def)

lemma stops_simps [simp]: "stops []" "stops (CHR '','' # t)" "stops (CHR 0x7D # t)" "stops (CHR 0x5D # t)"
  by (simp_all add: stops_def)

lemma skip_ws_other: "\<not> json_ws c \<Longrightarrow> skip_ws (c # s) = c # s"
  by (simp add: skip_ws_def)

lemma json_ws_simps [simp]:
  "\<not> json_ws dquote" "\<not> json_ws CHR 0x7B" "\<not> json_ws CHR 0x7D" "\<not> json_ws CHR 0x5B"
  "\<not> json_ws CHR 0x5D" "\<not> json_ws CHR '':''" "\<not> json_ws CHR '',''"
  by (simp_all add: json_ws_def)

lemma parses_string: "parses (json_string s) (JStr (utf8_fix s))"
proof (unfold parses_def, intro allI impI)
  fix n r
  assume "2 * length (json_string s) + 1 \<le> n" "stops r"
  then obtain m where "n = Suc m" by (cases n) auto
  then show "parse_value n (json_string s @ r) = Some (JStr (utf8_fix s), r)"
    using parse_json_string [of s r] by (simp add: json_string_def skip_ws_other)
qed

definition member_text :: "string \<times> string \<Rightarrow> string" where
  "member_text m = json_string (fst m) @ '':'' @ snd m"

lemma json_object_eq: "json_object ms = CHR 0x7B # join '','' (map member_text ms) @ [CHR 0x7D]"
  by (simp add: json_object_def member_text_def split_beta' cong: map_cong)

lemma member_text_length: "2 * length (snd m) + 6 \<le> 2 * length (member_text m)"
  by (simp add: member_text_def json_string_def)

text \<open>One member, up to the byte after its value.\<close>

lemma parse_one_member:
  assumes "parses v j" "2 * length (member_text (k, v)) \<le> n" "e = CHR '','' \<or> e = CHR 0x7D"
  shows "parse_members (Suc n) (member_text (k, v) @ e # t) =
     (if e = CHR '','' then map_option (apfst ((#) (utf8_fix k, j))) (parse_members n t)
      else if e = CHR 0x7D then Some ([(utf8_fix k, j)], t) else None)"
proof -
  have "2 * length v + 1 \<le> n"
    using assms(2) member_text_length [of "(k, v)"] by simp
  moreover have "stops (e # t)" using assms(3) by (auto simp: stops_def)
  ultimately have "parse_value n (v @ e # t) = Some (j, e # t)"
    using parsesD [OF assms(1)] by blast
  with assms(3) show ?thesis
    by (auto simp: member_text_def json_string_def skip_ws_other parse_json_body)
qed

lemma parse_members_text:
  assumes "list_all2 (\<lambda>(k, v) (k', j). k' = utf8_fix k \<and> parses v j) ms js" "ms \<noteq> []"
    "2 * length (join '','' (map member_text ms)) + 2 \<le> n"
  shows "parse_members n (join '','' (map member_text ms) @ CHR 0x7D # r) = Some (js, r)"
  using assms
proof (induction ms js arbitrary: n rule: list_all2_induct)
  case Nil
  then show ?case by simp
next
  case (Cons m ms j js)
  obtain k v where m: "m = (k, v)" by (cases m)
  obtain k' w where j: "j = (k', w)" by (cases j)
  from Cons.hyps(1) m j have kv: "k' = utf8_fix k" "parses v w" by auto
  obtain n' where n: "n = Suc n'" using Cons.prems(2) by (cases n) auto
  show ?case
  proof (cases ms)
    case Nil
    with Cons.hyps(2) have "js = []" by simp
    with Nil m j kv n Cons.prems(2) parse_one_member [OF kv(2), of k n' "CHR 0x7D" r]
    show ?thesis by simp
  next
    case (Cons m2 ms2)
    let ?rest = "join '','' (map member_text ms) @ CHR 0x7D # r"
    have join: "join '','' (map member_text (m # ms))
        = member_text (k, v) @ CHR '','' # join '','' (map member_text ms)"
      using Cons m by simp
    with Cons.prems(2) n have "2 * length (member_text (k, v)) \<le> n'"
      and n': "2 * length (join '','' (map member_text ms)) + 2 \<le> n'"
      by simp_all
    from Cons Cons.IH [OF _ n'] have "parse_members n' ?rest = Some (js, r)" by simp
    with parse_one_member [OF kv(2) \<open>2 * length (member_text (k, v)) \<le> n'\<close>, of "CHR '',''" ?rest]
      join n j kv show ?thesis by simp
  qed
qed

lemma member_text_first: "\<exists>t. join '','' (map member_text (m # ms)) = dquote # t"
  by (cases ms) (simp_all add: member_text_def json_string_def)

lemma parses_object:
  assumes "list_all2 (\<lambda>(k, v) (k', j). k' = utf8_fix k \<and> parses v j) ms js"
  shows "parses (json_object ms) (JObj js)"
proof (unfold parses_def, intro allI impI)
  fix n r
  assume n: "2 * length (json_object ms) + 1 \<le> n" and "stops r"
  then obtain n' where n': "n = Suc n'" by (cases n) auto
  show "parse_value n (json_object ms @ r) = Some (JObj js, r)"
  proof (cases ms)
    case Nil
    with assms n' show ?thesis by (simp add: json_object_eq skip_ws_other)
  next
    case (Cons m ms')
    obtain t where t: "join '','' (map member_text ms) = dquote # t"
      using member_text_first Cons by blast
    have "2 * length (join '','' (map member_text ms)) + 2 \<le> n'"
      using n n' by (simp add: json_object_eq)
    from parse_members_text [OF assms _ this, of r] Cons
    have "parse_members n' (join '','' (map member_text ms) @ CHR 0x7D # r) = Some (js, r)" by simp
    then have "parse_members n' (dquote # t @ CHR 0x7D # r) = Some (js, r)"
      by (simp only: t append_Cons)
    with n' t show ?thesis by (simp add: json_object_eq skip_ws_other)
  qed
qed

lemma json_parse_parses: "parses v j \<Longrightarrow> json_parse v = Some j"
  using parsesD [of v j "2 * length v + 1" "[]"]
  by (simp add: json_parse_def skip_ws_def)

text \<open>Decimal numbers.\<close>

lemma is_digit_not_stop: "is_digit c \<Longrightarrow> c \<noteq> CHR '','' \<and> c \<noteq> CHR 0x7D \<and> c \<noteq> CHR 0x5D \<and> c \<noteq> dquote
    \<and> c \<noteq> CHR 0x7B \<and> c \<noteq> CHR 0x5B \<and> c \<noteq> CHR ''t'' \<and> c \<noteq> CHR ''f'' \<and> c \<noteq> CHR ''n'' \<and> \<not> json_ws c"
  by (auto simp: is_digit_def byte_def json_ws_def)

lemma dec_digits_head: "\<exists>c cs. dec_digits n = c # cs \<and> is_digit c \<and> (c = CHR ''0'' \<longrightarrow> n = 0 \<and> cs = [])"
proof (induction n rule: dec_digits.induct)
  case (1 n)
  show ?case
  proof (cases "n < 10")
    case True
    then have "byte (char_of (48 + n)) = 48 + n" by simp
    moreover have "byte CHR ''0'' = 48" by (simp add: byte_def)
    ultimately have "char_of (48 + n) = CHR ''0'' \<longrightarrow> n = 0" by (metis add_cancel_right_right)
    with True show ?thesis
      by (simp add: dec_digits.simps [of n] is_digit_digit)
  next
    case False
    with 1 obtain c cs where "dec_digits (n div 10) = c # cs" "is_digit c"
        "c = CHR ''0'' \<longrightarrow> n div 10 = 0" by auto
    with False show ?thesis by (auto simp: dec_digits.simps [of n])
  qed
qed

lemma digits1_append:
  assumes "ds \<noteq> []" "\<forall>c \<in> set ds. is_digit c" "stops r"
  shows "digits1 (ds @ r) = Some (ds, r)"
proof -
  have "takeWhile is_digit r = [] \<and> dropWhile is_digit r = r"
    using assms(3) is_digit_not_stop by (cases r) (auto simp: stops_def)
  with assms(1,2) show ?thesis by (simp add: digits1_def takeWhile_append2 dropWhile_append2)
qed

lemma number_end: "stops r \<Longrightarrow> number_frac r = Some ([], r) \<and> number_exp r = Some ([], r)"
  by (cases r) (auto simp: stops_def number_frac_def number_exp_def)

lemma parse_number_nat:
  assumes "stops r"
  shows "parse_number (dec_digits n @ r) = Some (JNum (dec_digits n), r)"
proof -
  obtain c cs where c: "dec_digits n = c # cs" "is_digit c" "c = CHR ''0'' \<longrightarrow> n = 0 \<and> cs = []"
    using dec_digits_head by blast
  then have "c \<noteq> CHR ''-''" using digits_not_sign by blast
  moreover have "number_int ((c # cs) @ r) = Some (c # cs, r)"
    using c digits1_append [of "c # cs" r] dec_digits_digits [of _ n] assms
    by (auto simp: number_int_def)
  ultimately show ?thesis using c number_end [OF assms] by (simp add: parse_number_def)
qed

lemma parses_nat: "parses (dec_digits n) (JNum (dec_digits n))"
proof (unfold parses_def, intro allI impI)
  fix m r
  assume "2 * length (dec_digits n) + 1 \<le> m" and r: "stops r"
  then obtain k where m: "m = Suc k" by (cases m) auto
  obtain c cs where c: "dec_digits n = c # cs" "is_digit c" using dec_digits_head by blast
  with is_digit_not_stop [OF c(2)] parse_number_nat [OF r, of n] m
  show "parse_value m (dec_digits n @ r) = Some (JNum (dec_digits n), r)"
    by (simp add: skip_ws_other parse_scalar_def)
qed

subsection \<open>The parser's fuel is enough\<close>

lemma skip_ws_length: "length (skip_ws s) \<le> length s"
  by (simp add: skip_ws_def length_dropWhile_le)

lemma skip_ws_Cons_length: "skip_ws s = c # t \<Longrightarrow> length t < length s"
  using skip_ws_length [of s] by simp

lemma parse_string_length: "parse_string s = Some (v, r) \<Longrightarrow> length r < length s"
proof (induction s arbitrary: v r rule: parse_string.induct)
  case 1
  then show ?case by simp
next
  case (2 c s)
  show ?case
  proof (cases "c = dquote \<or> byte c < 32 \<or> c \<noteq> backslash")
    case True
    with "2.prems" "2.IH"(3-) show ?thesis
      by (fastforce split: if_splits)
  next
    case False
    then have c: "c = backslash" "\<not> byte backslash < 32" by auto
    with "2.prems" obtain e s' where s: "s = e # s'" by (cases s) auto
    show ?thesis
    proof (cases "e = CHR ''u''")
      case True
      with "2.prems" c s obtain p t v' where "unicode_escape s' = Some (p, t)"
          "parse_string t = Some (v', r)"
        by (auto split: option.splits)
      with "2.IH"(1) [of e s' "(p, t)" p t v' r] unicode_escape_length [of s' p t] c s True
      show ?thesis by fastforce
    next
      case False
      with "2.prems" c s obtain d v' where "simple_escape e = Some d" "parse_string s' = Some (v', r)"
        by (auto split: option.splits)
      with "2.IH"(2) [of e s' d v' r] c s False show ?thesis by auto
    qed
  qed
qed

lemma digits1_length: "digits1 s = Some (d, r) \<Longrightarrow> length r < length s"
  by (cases s) (auto simp: digits1_def length_dropWhile_le le_imp_less_Suc split: if_splits)

lemma number_int_length: "number_int s = Some (d, r) \<Longrightarrow> length r < length s"
  by (auto simp: number_int_def dest: digits1_length split: list.splits if_splits)

lemma number_frac_length: "number_frac s = Some (d, r) \<Longrightarrow> length r \<le> length s"
  by (fastforce simp: number_frac_def dest: digits1_length split: list.splits if_splits)

lemma number_exp_length: "number_exp s = Some (d, r) \<Longrightarrow> length r \<le> length s"
  by (fastforce simp: number_exp_def dest: digits1_length split: list.splits if_splits)

lemma parse_number_length: "parse_number s = Some (v, r) \<Longrightarrow> length r < length s"
proof -
  assume eq: "parse_number s = Some (v, r)"
  obtain sg t where st: "(case s of c # u \<Rightarrow> if c = CHR ''-'' then ([c], u) else ([], s) | [] \<Rightarrow> ([], [])) = (sg, t)"
    by fastforce
  then have le: "length t \<le> length s"
    by (auto split: list.splits if_splits)
  from eq st obtain i t1 f t2 e where "number_int t = Some (i, t1)" "number_frac t1 = Some (f, t2)"
      "number_exp t2 = Some (e, r)"
    by (auto simp: parse_number_def split: option.splits)
  with le number_int_length number_frac_length number_exp_length show ?thesis
    by (meson le_less_trans less_le_trans)
qed

lemma parse_word_length: "parse_word w x s = Some (v, r) \<Longrightarrow> w \<noteq> [] \<Longrightarrow> length r < length s"
  by (auto simp: parse_word_def is_prefix_of_iff split: if_splits)

lemma parse_scalar_length: "parse_scalar s = Some (v, r) \<Longrightarrow> length r < length s"
  by (fastforce simp: parse_scalar_def dest: parse_string_length parse_word_length parse_number_length
      split: list.splits if_splits)

lemma parse_value_length:
  "parse_value n s = Some (v, r) \<Longrightarrow> length r < length s"
  "parse_members n s = Some (ms, r') \<Longrightarrow> length r' < length s"
  "parse_elements n s = Some (vs, r'') \<Longrightarrow> length r'' < length s"
proof (induction n s and n s and n s arbitrary: v r and ms r' and vs r''
    rule: parse_value_parse_members_parse_elements.induct)
  case (2 n s)
  then obtain c t where ct: "skip_ws s = c # t"
    by (cases "skip_ws s") auto
  have len: "length t < length s" using skip_ws_Cons_length [OF ct] .
  consider "c = CHR 0x7B" | "c = CHR 0x5B" | "c \<noteq> CHR 0x7B" "c \<noteq> CHR 0x5B" by blast
  then show ?case
  proof cases
    case 1
    with "2.prems" ct obtain d u where u: "skip_ws t = d # u" by (cases "skip_ws t") auto
    with "2.prems" ct 1 "2.IH"(1) [OF ct 1 u] skip_ws_Cons_length [OF u] len show ?thesis
      by (fastforce split: if_splits)
  next
    case 2
    with "2.prems" ct obtain d u where u: "skip_ws t = d # u" by (cases "skip_ws t") auto
    with "2.prems" ct 2 "2.IH"(2) [OF ct _ 2 u] skip_ws_Cons_length [OF u] len show ?thesis
      by (fastforce split: if_splits)
  next
    case 3
    with "2.prems" ct parse_scalar_length [of "c # t" v r] skip_ws_length [of s] show ?thesis by auto
  qed
next
  case (4 n s)
  from "4.prems" obtain c t where ct: "skip_ws s = c # t" by (cases "skip_ws s") auto
  with "4.prems" obtain k t1 where c: "c = dquote" and k: "parse_string t = Some (k, t1)"
    by (auto split: if_splits option.splits)
  with "4.prems" ct obtain d t2 where d: "skip_ws t1 = d # t2" by (cases "skip_ws t1") auto
  with "4.prems" ct c k obtain v t3 where dc: "d = CHR '':''" and v: "parse_value n t2 = Some (v, t3)"
    by (auto split: if_splits option.splits)
  with "4.prems" ct c k d obtain e t4 where e: "skip_ws t3 = e # t4" by (cases "skip_ws t3") auto
  have l: "length t < length s" "length t1 < length t" "length t2 < length t1" "length t4 < length t3"
    using skip_ws_Cons_length [OF ct] parse_string_length [OF k] skip_ws_Cons_length [OF d]
      skip_ws_Cons_length [OF e] by auto
  have "length t3 < length t2"
    using "4.IH"(1) ct c k d dc v by auto
  moreover have "e = CHR '','' \<Longrightarrow> parse_members n t4 = Some (x, y) \<Longrightarrow> length y < length t4" for x y
    using "4.IH"(2) ct c k d dc v e "4.prems" by (auto split: if_splits)
  ultimately show ?case
    using "4.prems" ct c k d dc v e l by (fastforce split: if_splits)
next
  case (6 n s)
  from "6.prems" obtain v t where v: "parse_value n s = Some (v, t)" by (auto split: option.splits)
  with "6.prems" obtain e u where e: "skip_ws t = e # u" by (cases "skip_ws t") auto
  have "length t < length s" using "6.IH"(1) v by blast
  moreover have "e = CHR '','' \<Longrightarrow> parse_elements n u = Some (x, y) \<Longrightarrow> length y < length u" for x y
    using "6.IH"(2) v e "6.prems" by (auto split: if_splits)
  ultimately show ?case
    using "6.prems" v e skip_ws_Cons_length [OF e] by (fastforce split: if_splits)
qed simp_all

text \<open>Any two amounts of fuel above the bound give the same answer.\<close>

lemma parse_fuel:
  "2 * length s + 1 \<le> n \<Longrightarrow> 2 * length s + 1 \<le> m \<Longrightarrow> parse_value n s = parse_value m s"
  "2 * length s + 2 \<le> n \<Longrightarrow> 2 * length s + 2 \<le> m \<Longrightarrow> parse_members n s = parse_members m s"
  "2 * length s + 2 \<le> n \<Longrightarrow> 2 * length s + 2 \<le> m \<Longrightarrow> parse_elements n s = parse_elements m s"
proof (induction n arbitrary: m s)
  case (Suc n)
  {
    case 1
    then obtain k where m: "m = Suc k" by (cases m) auto
    have IHm: "length t \<le> length s - 1 \<Longrightarrow> s \<noteq> [] \<Longrightarrow> parse_members n t = parse_members k t" for t
      using Suc.IH(2) [of t k] 1 m by (cases s) auto
    have IHe: "length t \<le> length s - 1 \<Longrightarrow> s \<noteq> [] \<Longrightarrow> parse_elements n t = parse_elements k t" for t
      using Suc.IH(3) [of t k] 1 m by (cases s) auto
    show ?case
    proof (cases "skip_ws s")
      case Nil
      with m show ?thesis by simp
    next
      case (Cons c t)
      with skip_ws_Cons_length [OF Cons] have t: "length t \<le> length s - 1" "s \<noteq> []" by auto
      show ?thesis
      proof (cases "skip_ws t")
        case Nil
        with m Cons show ?thesis by simp
      next
        case (Cons d u)
        with skip_ws_length [of t] t have "length (d # u) \<le> length s - 1" by simp
        with IHm IHe t m Cons \<open>skip_ws s = c # t\<close> show ?thesis by (simp del: length_Cons)
      qed
    qed
  next
    case 2
    then obtain k where m: "m = Suc k" by (cases m) auto
    have IHv: "length t < length s \<Longrightarrow> parse_value n t = parse_value k t" for t
      using Suc.IH(1) [of t k] 2 m by simp
    have IHm: "length t < length s \<Longrightarrow> parse_members n t = parse_members k t" for t
      using Suc.IH(2) [of t k] 2 m by simp
    show ?case
    proof (cases "\<exists>c t kx t1 d t2. skip_ws s = c # t \<and> c = dquote \<and> parse_string t = Some (kx, t1)
        \<and> skip_ws t1 = d # t2 \<and> d = CHR '':''")
      case False
      with m show ?thesis by (auto split: list.splits option.splits)
    next
      case True
      then obtain t kx t1 t2 where s: "skip_ws s = dquote # t" "parse_string t = Some (kx, t1)"
          "skip_ws t1 = CHR '':'' # t2" by blast
      then have t2: "length t2 < length s"
        using skip_ws_Cons_length parse_string_length by (meson less_trans)
      have "parse_members n t4 = parse_members k t4"
        if "parse_value k t2 = Some (v, t3)" "skip_ws t3 = e # t4" for v t3 e t4
        using that t2 parse_value_length(1) [of k t2 v t3] skip_ws_Cons_length [of t3 e t4] IHm by simp
      with s m IHv [OF t2] show ?thesis by (auto split: list.splits option.splits)
    qed
  next
    case 3
    then obtain k where m: "m = Suc k" by (cases m) auto
    have v: "parse_value n s = parse_value k s" using Suc.IH(1) [of s k] 3 m by simp
    have "parse_elements n t4 = parse_elements k t4"
      if "parse_value k s = Some (v, t3)" "skip_ws t3 = e # t4" for v t3 e t4
      using that 3 m parse_value_length(1) [of k s v t3] skip_ws_Cons_length [of t3 e t4]
        Suc.IH(3) [of t4 k] by simp
    with v m show ?case by (auto split: list.splits option.splits)
  }
qed simp_all

text \<open>From here on the byte-level recursions are used through the laws above.\<close>

declare utf8_fix.simps(2) [simp del] json_body.simps(2) [simp del] parse_string.simps(2) [simp del]

subsection \<open>Marshalled arrays and constants parse back\<close>

definition value_start :: "string \<Rightarrow> bool" where
  "value_start v \<longleftrightarrow> (\<exists>c t. v = c # t \<and> \<not> json_ws c \<and> c \<noteq> CHR 0x5D)"

lemma parse_elements_text:
  assumes "list_all2 parses vs js" "vs \<noteq> []" "2 * length (join '','' vs) + 2 \<le> n"
  shows "parse_elements n (join '','' vs @ CHR 0x5D # r) = Some (js, r)"
  using assms
proof (induction vs arbitrary: js n)
  case Nil
  then show ?case by simp
next
  case (Cons v vs)
  then obtain j js' where js: "js = j # js'" "parses v j" "list_all2 parses vs js'"
    by (auto simp: list_all2_Cons1)
  obtain m where n: "n = Suc m" using Cons.prems(3) by (cases n) auto
  show ?case
  proof (cases "vs = []")
    case True
    with Cons.prems n js have "parse_value m (v @ CHR 0x5D # r) = Some (j, CHR 0x5D # r)"
      by (intro parsesD) simp_all
    with True n js show ?thesis by (simp add: skip_ws_other)
  next
    case False
    then obtain w ws where w: "vs = w # ws" by (cases vs) auto
    let ?rest = "join '','' vs @ CHR 0x5D # r"
    have "parse_value m (v @ CHR '','' # ?rest) = Some (j, CHR '','' # ?rest)"
      using Cons.prems n js w by (intro parsesD) simp_all
    moreover have "parse_elements m ?rest = Some (js', r)"
      using Cons.prems n False js w by (intro Cons.IH) simp_all
    ultimately show ?thesis using n js w by (simp add: skip_ws_other)
  qed
qed

lemma parses_array:
  assumes "list_all2 parses vs js" "\<forall>v \<in> set vs. value_start v"
  shows "parses (json_array vs) (JArr js)"
proof (unfold parses_def, intro allI impI)
  fix n r
  assume n: "2 * length (json_array vs) + 1 \<le> n" and "stops r"
  then obtain n' where n': "n = Suc n'" by (cases n) auto
  show "parse_value n (json_array vs @ r) = Some (JArr js, r)"
  proof (cases vs)
    case Nil
    with assms n' show ?thesis by (simp add: json_array_def skip_ws_other)
  next
    case (Cons v vs')
    with assms(2) obtain c t where c: "v = c # t" "\<not> json_ws c" "c \<noteq> CHR 0x5D"
      by (auto simp: value_start_def)
    then obtain u where u: "join '','' vs = c # u" using Cons by (cases vs') auto
    have "2 * length (join '','' vs) + 2 \<le> n'" using n n' by (simp add: json_array_def)
    with assms(1) Cons have "parse_elements n' (join '','' vs @ CHR 0x5D # r) = Some (js, r)"
      by (intro parse_elements_text) simp_all
    then have "parse_elements n' (c # u @ CHR 0x5D # r) = Some (js, r)" by (simp only: u append_Cons)
    with n' u c show ?thesis by (simp add: json_array_def skip_ws_other)
  qed
qed

lemma parses_word:
  assumes "(w, j) \<in> {(''true'', JBool True), (''false'', JBool False), (''null'', JNull)}"
  shows "parses w j"
proof (unfold parses_def, intro allI impI)
  fix n r
  assume "2 * length w + 1 \<le> n" "stops (r :: string)"
  then obtain n' where "n = Suc n'" by (cases n) auto
  with assms show "parse_value n (w @ r) = Some (j, r)"
    by (auto simp: skip_ws_other parse_scalar_def parse_word_def json_ws_def)
qed

lemma value_start_object [simp]: "value_start (json_object ms)"
  by (simp add: value_start_def json_object_def)

lemma value_start_string [simp]: "value_start (json_string s)"
  by (simp add: value_start_def json_string_def)

lemma utf8_fix_ascii: "\<forall>c \<in> set s. byte c < 0x80 \<Longrightarrow> utf8_fix s = s"
  by (induction s) (simp_all add: utf8_size_ascii utf8_fix.simps(2))

lemma parses_utf8: "valid_utf8 s \<Longrightarrow> parses (json_string s) (JStr s)"
  using parses_string [of s] by (simp add: valid_utf8_def)

end
