(* ===== verification/Go_Env.thy ===== *)
theory Go_Env
  imports Go_Prelude Go_Strings
begin

text \<open>
  The process environment and the values read from it: \<open>getEnv\<close> with its fallback, and
  \<open>time.ParseDuration\<close> with the defaults of the callers. The environment is a function from names to
  values; \<open>os.Getenv\<close> does not distinguish an unset variable from an empty one, so neither does it.
\<close>

type_synonym environ = "string \<Rightarrow> string"

definition get_env :: "environ \<Rightarrow> string \<Rightarrow> string \<Rightarrow> string" where
  "get_env g key fallback = (if g key \<noteq> [] then g key else fallback)"

lemma get_env_simps [simp]:
  "g key = [] \<Longrightarrow> get_env g key fallback = fallback"
  "g key \<noteq> [] \<Longrightarrow> get_env g key fallback = g key"
  by (simp_all add: get_env_def)

section \<open>Durations\<close>

text \<open>
  \<open>time.ParseDuration\<close>: an optional sign, then \<open>0\<close> alone or a sequence of decimal numbers, each with
  an optional fraction and a unit. Go computes with unsigned 64-bit values that may reach 2^63, which
  only a negative duration may use. The fraction is truncated to whole nanoseconds; Go
  multiplies it in floating point, which can differ from this in the last nanosecond of a long
  fraction.
\<close>

definition unit_nanos :: "string \<Rightarrow> nat option" where
  "unit_nanos u = map_of
     [(''ns'', 1), (''us'', 1000), ([CHR 0xC2, CHR 0xB5, CHR ''s''], 1000),
      ([CHR 0xCE, CHR 0xBC, CHR ''s''], 1000), (''ms'', 1000000), (''s'', 1000000000),
      (''m'', 60000000000), (''h'', 3600000000000)] u"

definition decimal :: "string \<Rightarrow> nat" where
  "decimal ds = foldl (\<lambda>n c. 10 * n + (byte c - 48)) 0 ds"

definition unit_char :: "char \<Rightarrow> bool" where
  "unit_char c \<longleftrightarrow> c \<noteq> CHR ''.'' \<and> \<not> is_digit c"

text \<open>One number with its unit: its length in nanoseconds and the rest of the string.\<close>

definition duration_piece :: "string \<Rightarrow> (nat \<times> string) option" where
  "duration_piece s =
     (let ip = takeWhile is_digit s; s1 = dropWhile is_digit s;
          (fp, s2) = (case s1 of c # t \<Rightarrow> if c = CHR ''.'' then (takeWhile is_digit t, dropWhile is_digit t)
                                          else ([], s1) | [] \<Rightarrow> ([], []));
          u = takeWhile unit_char s2; s3 = dropWhile unit_char s2
      in if (ip = [] \<and> fp = []) \<or> u = [] then None
         else (case unit_nanos u of
                 None \<Rightarrow> None
               | Some n \<Rightarrow>
                   if decimal ip > 2 ^ 63 \<or> decimal ip * n > 2 ^ 63 then None
                   else let v = decimal ip * n + decimal fp * n div 10 ^ length fp
                        in if v > 2 ^ 63 then None else Some (v, s3)))"

lemma duration_piece_shorter: "duration_piece s = Some (v, t) \<Longrightarrow> length t < length s"
proof -
  assume d: "duration_piece s = Some (v, t)"
  let ?s1 = "dropWhile is_digit s"
  define s2 where "s2 = snd (case ?s1 of c # t \<Rightarrow> if c = CHR ''.'' then (takeWhile is_digit t, dropWhile is_digit t)
                                          else ([], ?s1) | [] \<Rightarrow> ([], []))"
  have "length s2 \<le> length ?s1"
    by (auto simp: s2_def length_dropWhile_le le_Suc_eq split: list.split)
  moreover have "length ?s1 \<le> length s" by (rule length_dropWhile_le)
  moreover have "takeWhile unit_char s2 \<noteq> [] \<and> t = dropWhile unit_char s2"
    using d by (auto simp: duration_piece_def Let_def s2_def split: prod.splits option.splits if_splits)
  then have "length t < length s2"
    by (cases s2) (auto simp: length_dropWhile_le less_Suc_eq_le split: if_splits)
  ultimately show "length t < length s" by linarith
qed

function duration_pieces :: "nat \<Rightarrow> string \<Rightarrow> nat option" where
  "duration_pieces acc s =
     (if s = [] then Some acc
      else (case duration_piece s of
              None \<Rightarrow> None
            | Some (v, t) \<Rightarrow> if acc + v > 2 ^ 63 then None else duration_pieces (acc + v) t))"
  by pat_completeness auto
termination
  by (relation "measure (length \<circ> snd)") (auto dest: duration_piece_shorter)

declare duration_pieces.simps [simp del]

definition parse_duration :: "string \<Rightarrow> duration option" where
  "parse_duration s =
     (let (neg, t) = (case s of c # u \<Rightarrow> if c = CHR ''-'' then (True, u)
                                         else if c = CHR ''+'' then (False, u) else (False, s)
                      | [] \<Rightarrow> (False, []))
      in if t = ''0'' then Some 0
         else if t = [] then None
         else (case duration_pieces 0 t of
                 None \<Rightarrow> None
               | Some n \<Rightarrow> if neg then Some (- int n)
                           else if n > 2 ^ 63 - 1 then None else Some (int n)))"

lemma parse_duration_range: "parse_duration s = Some d \<Longrightarrow> int64_range d"
proof -
  have le: "duration_pieces acc t = Some n \<Longrightarrow> acc \<le> 2 ^ 63 \<Longrightarrow> n \<le> 2 ^ 63" for acc t n
  proof (induction acc t rule: duration_pieces.induct)
    case (1 acc s)
    then show ?case
      by (subst (asm) duration_pieces.simps [of acc s]) (auto split: if_splits option.splits)
  qed
  have "duration_pieces 0 t = Some n \<Longrightarrow> n \<le> 2 ^ 63" for t n
    using le [of 0 t n] by simp
  then show "parse_duration s = Some d \<Longrightarrow> int64_range d"
    by (fastforce simp: parse_duration_def Let_def int64_range_def split: list.splits if_splits option.splits)
qed

text \<open>\<open>getEnvDuration\<close> of \<open>auth.go\<close>.\<close>

definition get_env_duration :: "environ \<Rightarrow> string \<Rightarrow> duration \<Rightarrow> duration" where
  "get_env_duration g key fallback =
     (let v = trim_space (get_env g key [])
      in if v \<noteq> [] then (case parse_duration v of Some d \<Rightarrow> d | None \<Rightarrow> fallback) else fallback)"

end
