(* ===== verification/Kube.thy ===== *)
theory Kube
  imports Http Go_Json Go_Env
begin

text \<open>
  The Kubernetes client of \<open>rbac.go\<close>: its configuration from the in-cluster environment, one
  request, the SubjectAccessReview and the paginated namespace list. The API server is the
  environment; whether the mounted CA file holds a certificate is a parameter.
\<close>

section \<open>The client\<close>

record kube_client =
  kc_base_url :: string
  kc_token_file :: string

definition sa_token_path :: string where
  "sa_token_path = ''/var/run/secrets/kubernetes.io/serviceaccount/token''"

definition sa_ca_path :: string where
  "sa_ca_path = ''/var/run/secrets/kubernetes.io/serviceaccount/ca.crt''"

definition new_in_cluster_kube_client ::
  "'w env \<Rightarrow> environ \<Rightarrow> (string \<Rightarrow> bool) \<Rightarrow> 'w \<Rightarrow> kube_client result \<times> 'w" where
  "new_in_cluster_kube_client env g pem_ok w =
     (let override = g ''KUBERNETES_API_URL''
      in if override \<noteq> []
         then (Inr \<lparr>kc_base_url = trim_right_char CHR ''/'' override, kc_token_file = []\<rparr>, w)
         else
           let host = g ''KUBERNETES_SERVICE_HOST''; port = g ''KUBERNETES_SERVICE_PORT''
           in if host = [] \<or> port = []
              then (Inl (''not running in-cluster (KUBERNETES_SERVICE_HOST/PORT unset) and ''
                         @ ''KUBERNETES_API_URL not provided''), w)
              else (case env_read_file env sa_ca_path w of
                      (Inl e, w') \<Rightarrow> (Inl (''read serviceaccount CA: '' @ e), w')
                    | (Inr pem, w') \<Rightarrow>
                        if \<not> pem_ok pem
                        then (Inl (''no certificates parsed from '' @ sa_ca_path), w')
                        else (Inr \<lparr>kc_base_url = ''https://'' @ host @ '':'' @ port,
                                   kc_token_file = sa_token_path\<rparr>, w')))"

text \<open>\<open>truncate\<close>: the cut text ends in an ellipsis.\<close>

definition ellipsis :: string where "ellipsis = [CHR 0xE2, CHR 0x80, CHR 0xA6]"

definition truncate_text :: "string \<Rightarrow> nat \<Rightarrow> string" where
  "truncate_text s n = (if length s \<le> n then s else take n s @ ellipsis)"

section \<open>One request\<close>

definition kube_request ::
  "kube_client \<Rightarrow> string \<Rightarrow> string \<Rightarrow> string option \<Rightarrow> (string \<times> string) list \<Rightarrow> out_request" where
  "kube_request k meth path body auth =
     \<lparr>or_method = meth, or_url = kc_base_url k @ path,
      or_headers = [(''Accept'', ''application/json'')]
        @ (case body of None \<Rightarrow> [] | Some _ \<Rightarrow> [(''Content-Type'', ''application/json'')]) @ auth,
      or_basic_auth = None,
      or_body = (case body of None \<Rightarrow> [] | Some b \<Rightarrow> b)\<rparr>"

definition kube_exchange ::
  "'w env \<Rightarrow> string \<Rightarrow> string \<Rightarrow> out_request \<Rightarrow> 'w \<Rightarrow> string result \<times> 'w" where
  "kube_exchange env meth path rq w =
     (case env_http env rq w of
        (Inl e, w') \<Rightarrow> (Inl (''kube api request: '' @ e), w')
      | (Inr reply, w') \<Rightarrow>
          (case rp_body reply of
             Inl e \<Rightarrow> (Inl (''read kube api response: '' @ e), w')
           | Inr out \<Rightarrow>
               if rp_status reply < 200 \<or> rp_status reply \<ge> 300
               then (Inl (''kube api '' @ meth @ '' '' @ path @ '' returned ''
                          @ itoa (int (rp_status reply)) @ '': '' @ truncate_text out 256), w')
               else (Inr out, w')))"

text \<open>The token file is read for every request, so that a rotated token is picked up.\<close>

definition kube_do ::
  "'w env \<Rightarrow> kube_client \<Rightarrow> string \<Rightarrow> string \<Rightarrow> string option \<Rightarrow> 'w \<Rightarrow> string result \<times> 'w" where
  "kube_do env k meth path body w =
     (case parse_url (kc_base_url k @ path) of
        Inl e \<Rightarrow> (Inl e, w)
      | Inr _ \<Rightarrow>
          if kc_token_file k \<noteq> []
          then (case env_read_file env (kc_token_file k) w of
                  (Inl e, w') \<Rightarrow> (Inl (''read serviceaccount token: '' @ e), w')
                | (Inr tok, w') \<Rightarrow>
                    kube_exchange env meth path
                      (kube_request k meth path body [(''Authorization'', ''Bearer '' @ trim_space tok)]) w')
          else kube_exchange env meth path (kube_request k meth path body []) w)"

section \<open>SubjectAccessReview\<close>

definition groups_json :: "string list option \<Rightarrow> string" where
  "groups_json gs = (case gs of None \<Rightarrow> ''null'' | Some xs \<Rightarrow> json_array (map json_string xs))"

text \<open>\<open>json.Marshal\<close> writes the members of a map in the order of their keys.\<close>

definition sar_body ::
  "user_info \<Rightarrow> string \<Rightarrow> string \<Rightarrow> string \<Rightarrow> string \<Rightarrow> string" where
  "sar_body u verb api_group resource ns =
     json_object
       [(''apiVersion'', json_string ''authorization.k8s.io/v1''),
        (''kind'', json_string ''SubjectAccessReview''),
        (''spec'', json_object
           [(''groups'', groups_json (ui_groups u)),
            (''resourceAttributes'', json_object
               [(''group'', json_string api_group), (''namespace'', json_string ns),
                (''resource'', json_string resource), (''verb'', json_string verb)]),
            (''user'', json_string (ui_username u))])]"

record sar_status =
  ss_allowed :: bool

record sar_response =
  sr_status :: sar_status

definition sar_fields :: "sar_response field list" where
  "sar_fields =
     [(''status'', set_struct [(''allowed'', set_bool (\<lambda>b s. s\<lparr>ss_allowed := b\<rparr>))]
                     sr_status (\<lambda>s r. r\<lparr>sr_status := s\<rparr>))]"

definition decode_sar :: "string \<Rightarrow> bool result" where
  "decode_sar out =
     (case unmarshal sar_fields out \<lparr>sr_status = \<lparr>ss_allowed = False\<rparr>\<rparr> of
        Inl e \<Rightarrow> Inl (''decode SubjectAccessReview response: '' @ e)
      | Inr r \<Rightarrow> Inr (ss_allowed (sr_status r)))"

definition sar_path :: string where
  "sar_path = ''/apis/authorization.k8s.io/v1/subjectaccessreviews''"

definition subject_access_review ::
  "'w env \<Rightarrow> kube_client \<Rightarrow> user_info \<Rightarrow> string \<Rightarrow> string \<Rightarrow> string \<Rightarrow> string \<Rightarrow> 'w
     \<Rightarrow> bool result \<times> 'w" where
  "subject_access_review env k u verb api_group resource ns w =
     (case kube_do env k ''POST'' sar_path (Some (sar_body u verb api_group resource ns)) w of
        (Inl e, w') \<Rightarrow> (Inl e, w')
      | (Inr out, w') \<Rightarrow> (decode_sar out, w'))"

section \<open>The namespace list\<close>

record ns_page =
  pg_continue :: string
  pg_items :: "string list"

text \<open>
  A slice of structs: every element is decoded into a zero value. A wrong element keeps its place
  and makes the whole decode fail.
\<close>

fun set_items :: "json list \<Rightarrow> string list \<times> bool" where
  "set_items [] = ([], True)"
| "set_items (j # js) =
     (case set_struct [(''metadata'', set_struct [(''name'', set_string (\<lambda>s _. s))] id (\<lambda>s _. s))]
             id (\<lambda>s _. s) j [] of
        (name, ok) \<Rightarrow> (case set_items js of (names, oks) \<Rightarrow> (name # names, ok \<and> oks)))"

definition page_fields :: "ns_page field list" where
  "page_fields =
     [(''metadata'', set_struct [(''continue'', set_string (\<lambda>s _. s))]
                       pg_continue (\<lambda>s p. p\<lparr>pg_continue := s\<rparr>)),
      (''items'', \<lambda>j p. case j of
           JArr js \<Rightarrow> (case set_items js of (names, ok) \<Rightarrow> (p\<lparr>pg_items := names\<rparr>, ok))
         | JNull \<Rightarrow> (p\<lparr>pg_items := []\<rparr>, True)
         | _ \<Rightarrow> (p, False))]"

definition decode_page :: "string \<Rightarrow> ns_page result" where
  "decode_page out =
     (case unmarshal page_fields out \<lparr>pg_continue = [], pg_items = []\<rparr> of
        Inl e \<Rightarrow> Inl (''decode namespace list: '' @ e)
      | Inr p \<Rightarrow> Inr p)"

definition page_path :: "string \<Rightarrow> string" where
  "page_path cont =
     ''/api/v1/namespaces?limit=500'' @ (if cont \<noteq> [] then ''&continue='' @ query_escape cont else [])"

definition fetch_page :: "'w env \<Rightarrow> kube_client \<Rightarrow> string \<Rightarrow> 'w \<Rightarrow> ns_page result \<times> 'w" where
  "fetch_page env k cont w =
     (case kube_do env k ''GET'' (page_path cont) None w of
        (Inl e, w') \<Rightarrow> (Inl e, w')
      | (Inr out, w') \<Rightarrow> (decode_page out, w'))"

text \<open>
  The loop ends when a page has no continue token. A server that always sends one keeps it running:
  that is the value \<open>None\<close>.
\<close>

partial_function (option) list_pages ::
  "'w env \<Rightarrow> kube_client \<Rightarrow> string \<Rightarrow> string list \<Rightarrow> 'w \<Rightarrow> (string list result \<times> 'w) option" where
  "list_pages env k cont names w =
     (case fetch_page env k cont w of
        (Inl e, w') \<Rightarrow> Some (Inl e, w')
      | (Inr p, w') \<Rightarrow>
          if pg_continue p = [] then Some (Inr (names @ pg_items p), w')
          else list_pages env k (pg_continue p) (names @ pg_items p) w')"

definition list_namespaces :: "'w env \<Rightarrow> kube_client \<Rightarrow> 'w \<Rightarrow> (string list result \<times> 'w) option" where
  "list_namespaces env k w = list_pages env k [] [] w"

section \<open>What the API server reads and writes\<close>

definition groups_value :: "string list option \<Rightarrow> json" where
  "groups_value gs = (case gs of None \<Rightarrow> JNull | Some xs \<Rightarrow> JArr (map JStr xs))"

definition sar_value :: "user_info \<Rightarrow> string \<Rightarrow> string \<Rightarrow> string \<Rightarrow> string \<Rightarrow> json" where
  "sar_value u verb api_group resource ns =
     JObj
       [(''apiVersion'', JStr ''authorization.k8s.io/v1''),
        (''kind'', JStr ''SubjectAccessReview''),
        (''spec'', JObj
           [(''groups'', groups_value (ui_groups u)),
            (''resourceAttributes'', JObj
               [(''group'', JStr api_group), (''namespace'', JStr ns),
                (''resource'', JStr resource), (''verb'', JStr verb)]),
            (''user'', JStr (ui_username u))])]"

lemma kube_names:
  "utf8_fix ''apiVersion'' = ''apiVersion''" "utf8_fix ''kind'' = ''kind''" "utf8_fix ''spec'' = ''spec''"
  "utf8_fix ''groups'' = ''groups''" "utf8_fix ''resourceAttributes'' = ''resourceAttributes''"
  "utf8_fix ''user'' = ''user''" "utf8_fix ''group'' = ''group''" "utf8_fix ''namespace'' = ''namespace''"
  "utf8_fix ''resource'' = ''resource''" "utf8_fix ''verb'' = ''verb''"
  "utf8_fix ''status'' = ''status''" "utf8_fix ''allowed'' = ''allowed''" "utf8_fix ''metadata'' = ''metadata''"
  "utf8_fix ''items'' = ''items''" "utf8_fix ''name'' = ''name''" "utf8_fix ''continue'' = ''continue''"
  "utf8_fix ''authorization.k8s.io/v1'' = ''authorization.k8s.io/v1''"
  "utf8_fix ''SubjectAccessReview'' = ''SubjectAccessReview''"
  by (rule utf8_fix_ascii, simp add: byte_def)+

lemma parses_groups: "\<forall>gs. ui_groups u = Some gs \<longrightarrow> list_all valid_utf8 gs \<Longrightarrow>
    parses (groups_json (ui_groups u)) (groups_value (ui_groups u))"
proof (cases "ui_groups u")
  case None
  then show ?thesis by (simp add: groups_json_def groups_value_def parses_word)
next
  case (Some gs)
  assume "\<forall>gs. ui_groups u = Some gs \<longrightarrow> list_all valid_utf8 gs"
  with Some have "parses (json_array (map json_string gs)) (JArr (map JStr gs))"
    by (intro parses_array) (auto simp: list_all2_conv_all_nth list_all_length parses_utf8)
  with Some show ?thesis by (simp add: groups_json_def groups_value_def)
qed

definition utf8_identity :: "user_info \<Rightarrow> bool" where
  "utf8_identity u \<longleftrightarrow> valid_utf8 (ui_username u) \<and> (\<forall>gs. ui_groups u = Some gs \<longrightarrow> list_all valid_utf8 gs)"

lemma parses_sar:
  assumes "utf8_identity u" "valid_utf8 verb" "valid_utf8 api_group" "valid_utf8 resource" "valid_utf8 ns"
  shows "parses (sar_body u verb api_group resource ns) (sar_value u verb api_group resource ns)"
  unfolding sar_body_def sar_value_def
  by (intro parses_object, simp only: list_all2_Cons list_all2_Nil prod.case kube_names simp_thms,
      intro conjI parses_object parses_utf8,
      (simp_all only: list_all2_Cons list_all2_Nil prod.case kube_names simp_thms valid_utf8_def),
      intro conjI parses_object parses_utf8 parses_groups,
      (insert assms, simp_all add: utf8_identity_def kube_names parses_utf8 valid_utf8_def))

text \<open>The reply of an API server to a review, and a page of the namespace list.\<close>

definition bool_json :: "bool \<Rightarrow> string" where
  "bool_json b = (if b then ''true'' else ''false'')"

definition sar_json :: "bool \<Rightarrow> string" where
  "sar_json b = json_object [(''status'', json_object [(''allowed'', bool_json b)])]"

lemma parses_bool: "parses (bool_json b) (JBool b)"
  by (auto simp: bool_json_def intro: parses_word)

lemma parses_sar_json: "parses (sar_json b) (JObj [(''status'', JObj [(''allowed'', JBool b)])])"
  unfolding sar_json_def
  by (intro parses_object, simp only: list_all2_Cons list_all2_Nil prod.case kube_names simp_thms,
      intro parses_object, simp only: list_all2_Cons list_all2_Nil prod.case kube_names simp_thms
      parses_bool)

lemma decode_sar_json: "decode_sar (sar_json b) = Inr b"
  using json_parse_parses [OF parses_sar_json [of b]]
  by (simp add: decode_sar_def unmarshal_def set_struct_def sar_fields_def find_field_def set_bool_def)

definition page_json :: "ns_page \<Rightarrow> string" where
  "page_json p =
     json_object
       [(''metadata'', json_object [(''continue'', json_string (pg_continue p))]),
        (''items'', json_array (map (\<lambda>n. json_object
            [(''metadata'', json_object [(''name'', json_string n)])]) (pg_items p)))]"

lemma parses_page:
  assumes "valid_utf8 (pg_continue p)" "list_all valid_utf8 (pg_items p)"
  shows "parses (page_json p)
     (JObj [(''metadata'', JObj [(''continue'', JStr (pg_continue p))]),
            (''items'', JArr (map (\<lambda>n. JObj [(''metadata'', JObj [(''name'', JStr n)])]) (pg_items p)))])"
proof -
  have item: "parses (json_object [(''metadata'', json_object [(''name'', json_string n)])])
      (JObj [(''metadata'', JObj [(''name'', JStr n)])])" if "valid_utf8 n" for n
    by (intro parses_object, simp only: list_all2_Cons list_all2_Nil prod.case kube_names simp_thms,
        intro parses_object, simp only: list_all2_Cons list_all2_Nil prod.case kube_names simp_thms
        parses_utf8 [OF that])
  have meta: "parses (json_object [(''continue'', json_string (pg_continue p))])
      (JObj [(''continue'', JStr (pg_continue p))])"
    by (intro parses_object, simp only: list_all2_Cons list_all2_Nil prod.case kube_names simp_thms
        parses_utf8 [OF assms(1)])
  have items: "parses (json_array (map (\<lambda>n. json_object [(''metadata'', json_object [(''name'', json_string n)])]) (pg_items p)))
      (JArr (map (\<lambda>n. JObj [(''metadata'', JObj [(''name'', JStr n)])]) (pg_items p)))"
    using assms(2) item
    by (intro parses_array) (auto simp: list_all2_conv_all_nth list_all_length)
  show ?thesis
    unfolding page_json_def
    by (intro parses_object) (simp only: list_all2_Cons list_all2_Nil prod.case kube_names simp_thms meta items)
qed

lemma set_items_names: "set_items (map (\<lambda>n. JObj [(''metadata'', JObj [(''name'', JStr n)])]) ns) = (ns, True)"
  by (induction ns) (simp_all add: set_struct_def find_field_def set_string_def)

lemma decode_page_json:
  assumes "valid_utf8 (pg_continue p)" "list_all valid_utf8 (pg_items p)"
  shows "decode_page (page_json p) = Inr p"
  using json_parse_parses [OF parses_page [OF assms]]
  by (simp add: decode_page_def unmarshal_def set_struct_def page_fields_def find_field_def
      set_string_def set_items_names)

section \<open>Paging\<close>

text \<open>The server hands out the pages one after another, each under the token of the one before.\<close>

inductive pages_from :: "'w env \<Rightarrow> kube_client \<Rightarrow> string \<Rightarrow> 'w \<Rightarrow> ns_page list \<Rightarrow> 'w \<Rightarrow> bool"
  for env :: "'w env" and k :: kube_client where
  last_page: "fetch_page env k cont w = (Inr p, w') \<Longrightarrow> pg_continue p = [] \<Longrightarrow>
     pages_from env k cont w [p] w'"
| next_page: "fetch_page env k cont w = (Inr p, w') \<Longrightarrow> pg_continue p \<noteq> [] \<Longrightarrow>
     pages_from env k (pg_continue p) w' ps w'' \<Longrightarrow> pages_from env k cont w (p # ps) w''"

lemma list_pages_collects:
  "pages_from env k cont w ps w' \<Longrightarrow>
     list_pages env k cont names w = Some (Inr (names @ concat (map pg_items ps)), w')"
proof (induction arbitrary: names rule: pages_from.induct)
  case (last_page cont w p w')
  then show ?case by (subst list_pages.simps) simp
next
  case (next_page cont w p w' ps w'')
  then show ?case by (subst list_pages.simps) simp
qed

lemma list_pages_sound:
  "list_pages env k cont names w = Some r \<Longrightarrow>
     \<forall>ns w'. r = (Inr ns, w') \<longrightarrow> (\<exists>ps. pages_from env k cont w ps w' \<and> ns = names @ concat (map pg_items ps))"
proof (induction env k cont names w r rule: list_pages.raw_induct [rotated, consumes 1])
  case (1 list_pages env k cont names w r)
  obtain f w1 where f: "fetch_page env k cont w = (f, w1)" by (cases "fetch_page env k cont w")
  show ?case
  proof (cases f)
    case (Inl e)
    with 1 f show ?thesis by auto
  next
    case (Inr p)
    show ?thesis
    proof (cases "pg_continue p = []")
      case True
      with 1(2) f Inr have "r = (Inr (names @ pg_items p), w1)" by simp
      with last_page [OF f [unfolded Inr] True] show ?thesis by (intro allI impI exI [of _ "[p]"]) auto
    next
      case False
      with 1(2) f Inr have "list_pages env k (pg_continue p) (names @ pg_items p) w1 = Some r" by simp
      from 1(1) [OF this] next_page [OF f [unfolded Inr] False] show ?thesis by fastforce
    qed
  qed
qed

section \<open>A sample API server\<close>

text \<open>
  A server that allows the reviews whose body \<open>f\<close> accepts and lists its namespaces on one page; its
  world is the clock. It shows that the hypotheses about the API server can hold.
\<close>

definition api_server :: "(string \<Rightarrow> bool) \<Rightarrow> string list \<Rightarrow> time env" where
  "api_server f nss =
     \<lparr>env_http = (\<lambda>rq w. (Inr \<lparr>rp_status = 200, rp_body = Inr
         (if or_method rq = ''POST'' then sar_json (f (or_body rq))
          else page_json \<lparr>pg_continue = [], pg_items = nss\<rparr>)\<rparr>, w)),
      env_now = (\<lambda>w. (w, w)), env_read_file = (\<lambda>p w. (Inl ''no such file'', w))\<rparr>"

definition sample_kube :: kube_client where
  "sample_kube = \<lparr>kc_base_url = ''http://k8s'', kc_token_file = []\<rparr>"

lemma parse_url_ok: "\<not> list_ex (\<lambda>c. byte c < 32 \<or> byte c = 127) u \<Longrightarrow> \<exists>x. parse_url u = Inr x"
  by (simp add: parse_url_def split: prod.split)

lemma sample_kube_urls:
  "\<exists>x. parse_url (kc_base_url sample_kube @ sar_path) = Inr x"
  "\<exists>x. parse_url (kc_base_url sample_kube @ page_path []) = Inr x"
  by (rule parse_url_ok, simp add: sample_kube_def sar_path_def page_path_def byte_def)+

lemma api_review:
  "subject_access_review (api_server f nss) sample_kube u verb g res ns w
     = (Inr (f (sar_body u verb g res ns)), w)"
proof -
  obtain x where "parse_url (kc_base_url sample_kube @ sar_path) = Inr x" using sample_kube_urls by blast
  then show ?thesis
    by (simp add: subject_access_review_def kube_do_def kube_exchange_def kube_request_def
        api_server_def decode_sar_json) (simp add: sample_kube_def)
qed

lemma api_list:
  assumes "list_all valid_utf8 nss"
  shows "list_namespaces (api_server f nss) sample_kube w = Some (Inr nss, w)"
proof -
  obtain x where "parse_url (kc_base_url sample_kube @ page_path []) = Inr x" using sample_kube_urls by blast
  then have "fetch_page (api_server f nss) sample_kube [] w = (Inr \<lparr>pg_continue = [], pg_items = nss\<rparr>, w)"
    using decode_page_json [of "\<lparr>pg_continue = [], pg_items = nss\<rparr>"] assms
    by (simp add: fetch_page_def kube_do_def kube_exchange_def kube_request_def api_server_def
        valid_utf8_def) (simp add: sample_kube_def)
  then show ?thesis by (simp add: list_namespaces_def list_pages.simps)
qed

section \<open>Properties of the client\<close>


text \<open>
  The body of a SubjectAccessReview says what is asked: for an identity and a check in valid
  UTF-8, parsing the body gives the caller's username and groups, nil groups as null, and the
  verb, group, resource and namespace of the check, whatever quotes or control bytes they hold.
\<close>

theorem review_asks:
  assumes "utf8_identity u" "valid_utf8 verb" "valid_utf8 api_group" "valid_utf8 resource" "valid_utf8 ns"
  shows "json_parse (sar_body u verb api_group resource ns) = Some (sar_value u verb api_group resource ns)"
  by (rule json_parse_parses, rule parses_sar) (use assms in simp_all)

theorem review_asks_witness:
  "json_parse (sar_body \<lparr>ui_username = ''o^brien'', ui_groups = Some [[CHR 0x22, CHR 0x0A], ''dev'']\<rparr>
       ''list'' [] ''events'' ''team-a'')
     = Some (sar_value \<lparr>ui_username = ''o^brien'', ui_groups = Some [[CHR 0x22, CHR 0x0A], ''dev'']\<rparr>
       ''list'' [] ''events'' ''team-a'')"
  by (rule review_asks)
    (simp_all add: utf8_identity_def valid_utf8_def, (rule conjI | rule utf8_fix_ascii | simp add: byte_def)+)



end
