(* ===== verification/Rbac_Scoper.thy ===== *)
theory Rbac_Scoper
  imports Kube Ns_Scope
begin

text \<open>
  The scoper of \<open>rbac.go\<close>: the two scopers and their configuration, the resolution of a caller's
  scope from SubjectAccessReviews, and its cache. A \<open>*rbacScoper\<close> is a reference into a list of
  scopers, because \<open>/audit\<close> may hold the very scoper \<open>/events\<close> holds or one with a cache of its own.
  The reviews of one resolution run in parallel, at most eight at a time: \<open>review_step\<close> is that
  program, and \<open>resolve\<close> takes the order in which they complete as a parameter.
\<close>

section \<open>State\<close>

record scope_entry =
  se_scope :: ns_scope
  se_expires :: time

record rbac_scoper =
  rs_kube :: kube_client
  rs_verb :: string
  rs_api_group :: string
  rs_resource :: string
  rs_ttl :: duration
  rs_cache :: "string \<Rightarrow> scope_entry option"

type_synonym scoper_ref = nat

type_synonym scoper_heap = "rbac_scoper list"

definition default_scoping_cache_ttl :: duration where
  "default_scoping_cache_ttl = 60 * second"

definition sar_concurrency :: nat where "sar_concurrency = 8"

section \<open>Configuration\<close>

definition scoping_ttl :: "environ \<Rightarrow> duration result" where
  "scoping_ttl g =
     (let raw = get_env g ''RBAC_SCOPING_CACHE_TTL'' []
      in if raw \<noteq> []
         then (case parse_duration raw of
                 None \<Rightarrow> Inl (''invalid RBAC_SCOPING_CACHE_TTL '' @ go_quote raw)
               | Some d \<Rightarrow> if d \<le> 0 then Inl (''invalid RBAC_SCOPING_CACHE_TTL '' @ go_quote raw) else Inr d)
         else Inr default_scoping_cache_ttl)"

definition load_rbac_scoper ::
  "'w env \<Rightarrow> environ \<Rightarrow> (string \<Rightarrow> bool) \<Rightarrow> scoper_heap \<Rightarrow> 'w
     \<Rightarrow> scoper_ref option result \<times> scoper_heap \<times> 'w" where
  "load_rbac_scoper env g pem_ok h w =
     (if \<not> equal_fold (get_env g ''RBAC_SCOPING_ENABLED'' ''false'') ''true''
      then (Inr None, h, w)
      else (case new_in_cluster_kube_client env g pem_ok w of
              (Inl e, w') \<Rightarrow> (Inl (''rbac scoping enabled but kubernetes api unavailable: '' @ e), h, w')
            | (Inr kube, w') \<Rightarrow>
                (case scoping_ttl g of
                   Inl e \<Rightarrow> (Inl e, h, w')
                 | Inr ttl \<Rightarrow>
                     (Inr (Some (length h)),
                      h @ [\<lparr>rs_kube = kube,
                            rs_verb = get_env g ''RBAC_SCOPING_VERB'' ''list'',
                            rs_api_group = get_env g ''RBAC_SCOPING_APIGROUP'' [],
                            rs_resource = get_env g ''RBAC_SCOPING_RESOURCE'' ''events'',
                            rs_ttl = ttl, rs_cache = (\<lambda>_. None)\<rparr>], w'))))"

definition load_audit_scoper ::
  "environ \<Rightarrow> scoper_ref option \<Rightarrow> scoper_heap \<Rightarrow> scoper_ref option \<times> scoper_heap" where
  "load_audit_scoper g events h =
     (case events of
        None \<Rightarrow> (None, h)
      | Some r \<Rightarrow>
          let verb = get_env g ''AUDIT_SCOPING_VERB'' [];
              resource = get_env g ''AUDIT_SCOPING_RESOURCE'' [];
              api_group = get_env g ''AUDIT_SCOPING_APIGROUP'' []
          in if verb = [] \<and> resource = [] \<and> api_group = [] then (Some r, h)
             else
               let ev = h ! r
               in (Some (length h),
                   h @ [\<lparr>rs_kube = rs_kube ev,
                         rs_verb = (if verb = [] then rs_verb ev else verb),
                         rs_api_group = (if api_group = [] then rs_api_group ev else api_group),
                         rs_resource = (if resource = [] then rs_resource ev else resource),
                         rs_ttl = rs_ttl ev, rs_cache = (\<lambda>_. None)\<rparr>]))"

section \<open>Resolution\<close>

definition review ::
  "'w env \<Rightarrow> rbac_scoper \<Rightarrow> user_info \<Rightarrow> string \<Rightarrow> 'w \<Rightarrow> bool result \<times> 'w" where
  "review env s u ns w =
     subject_access_review env (rs_kube s) u (rs_verb s) (rs_api_group s) (rs_resource s) ns w"

text \<open>The critical section of one review: the first error is kept, an allowed namespace appended.\<close>

definition record_review ::
  "string \<Rightarrow> bool result \<Rightarrow> string list \<times> go_error option \<Rightarrow> string list \<times> go_error option" where
  "record_review ns r acc =
     (case acc of (allowed, first_err) \<Rightarrow>
        (case r of
           Inl e \<Rightarrow> (allowed, if first_err = None then Some e else first_err)
         | Inr ok \<Rightarrow> (if ok then allowed @ [ns] else allowed, first_err)))"

fun review_all ::
  "'w env \<Rightarrow> rbac_scoper \<Rightarrow> user_info \<Rightarrow> string list \<Rightarrow> string list \<times> go_error option \<Rightarrow> 'w
     \<Rightarrow> (string list \<times> go_error option) \<times> 'w" where
  "review_all env s u [] acc w = (acc, w)"
| "review_all env s u (ns # nss) acc w =
     (case review env s u ns w of
        (r, w') \<Rightarrow> review_all env s u nss (record_review ns r acc) w')"

definition finish_reviews :: "string list \<times> go_error option \<Rightarrow> ns_scope result" where
  "finish_reviews acc =
     (case acc of (allowed, first_err) \<Rightarrow>
        (case first_err of
           Some e \<Rightarrow> Inl e
         | None \<Rightarrow> Inr \<lparr>allow_all = False, namespaces = sort allowed\<rparr>))"

definition resolve ::
  "'w env \<Rightarrow> (string list \<Rightarrow> string list) \<Rightarrow> rbac_scoper \<Rightarrow> user_info \<Rightarrow> 'w
     \<Rightarrow> (ns_scope result \<times> 'w) option" where
  "resolve env sched s u w =
     (case review env s u [] w of
        (Inl e, w') \<Rightarrow> Some (Inl e, w')
      | (Inr True, w') \<Rightarrow> Some (Inr \<lparr>allow_all = True, namespaces = []\<rparr>, w')
      | (Inr False, w') \<Rightarrow>
          (case list_namespaces env (rs_kube s) w' of
             None \<Rightarrow> None
           | Some (Inl e, w'') \<Rightarrow> Some (Inl e, w'')
           | Some (Inr nss, w'') \<Rightarrow>
               (case review_all env s u (sched nss) ([], None) w'' of
                  (acc, w3) \<Rightarrow> Some (finish_reviews acc, w3))))"

section \<open>The cache\<close>

definition nul :: string where "nul = [CHR 0x00]"

definition user_groups :: "user_info \<Rightarrow> string list" where
  "user_groups u = (case ui_groups u of None \<Rightarrow> [] | Some gs \<Rightarrow> gs)"

definition cache_key :: "user_info \<Rightarrow> string" where
  "cache_key u = ui_username u @ nul @ join nul (user_groups u)"

definition cache_lookup :: "rbac_scoper \<Rightarrow> string \<Rightarrow> time \<Rightarrow> ns_scope option" where
  "cache_lookup s key now =
     (case rs_cache s key of
        None \<Rightarrow> None
      | Some e \<Rightarrow> if now < se_expires e then Some (se_scope e) else None)"

definition cache_store :: "scoper_ref \<Rightarrow> string \<Rightarrow> ns_scope \<Rightarrow> time \<Rightarrow> scoper_heap \<Rightarrow> scoper_heap" where
  "cache_store r key scope now h =
     (let s = h ! r
      in h[r := s\<lparr>rs_cache := (rs_cache s)(key \<mapsto>
            \<lparr>se_scope = scope, se_expires = now + rs_ttl s\<rparr>)\<rparr>])"

definition scope_for ::
  "'w env \<Rightarrow> (string list \<Rightarrow> string list) \<Rightarrow> scoper_ref \<Rightarrow> user_info \<Rightarrow> scoper_heap \<Rightarrow> 'w
     \<Rightarrow> (ns_scope result \<times> scoper_heap \<times> 'w) option" where
  "scope_for env sched r u h w =
     (let key = cache_key u
      in case env_now env w of
           (now, w') \<Rightarrow>
             (case cache_lookup (h ! r) key now of
                Some scope \<Rightarrow> Some (Inr scope, h, w')
              | None \<Rightarrow>
                  (case resolve env sched (h ! r) u w' of
                     None \<Rightarrow> None
                   | Some (Inl e, w'') \<Rightarrow> Some (Inl e, h, w'')
                   | Some (Inr scope, w'') \<Rightarrow>
                       Some (Inr scope, cache_store r key scope now h, w''))))"

section \<open>The parallel reviews\<close>

text \<open>
  Namespaces not yet started, reviews in flight, reviews answered whose goroutine has not yet taken
  the mutex, and the result so far. The semaphore is held from the start of a review to its end.
\<close>

record 'w review_state =
  rv_pending :: "string list"
  rv_asked :: "string list"
  rv_answered :: "(string \<times> bool result) list"
  rv_acc :: "string list \<times> go_error option"
  rv_world :: 'w

definition start_reviews :: "string list \<Rightarrow> 'w \<Rightarrow> 'w review_state" where
  "start_reviews nss w =
     \<lparr>rv_pending = nss, rv_asked = [], rv_answered = [], rv_acc = ([], None), rv_world = w\<rparr>"

definition reviews_done :: "'w review_state \<Rightarrow> bool" where
  "reviews_done st \<longleftrightarrow> rv_pending st = [] \<and> rv_asked st = [] \<and> rv_answered st = []"

inductive review_step ::
  "'w env \<Rightarrow> rbac_scoper \<Rightarrow> user_info \<Rightarrow> 'w review_state \<Rightarrow> 'w review_state \<Rightarrow> bool"
  for env :: "'w env" and s :: rbac_scoper and u :: user_info where
  spawn: "rv_pending st = ns # rest \<Longrightarrow> length (rv_asked st) + length (rv_answered st) < sar_concurrency \<Longrightarrow>
     review_step env s u st (st\<lparr>rv_pending := rest, rv_asked := rv_asked st @ [ns]\<rparr>)"
| answer: "rv_asked st = xs @ ns # ys \<Longrightarrow> review env s u ns (rv_world st) = (r, w') \<Longrightarrow>
     review_step env s u st
       (st\<lparr>rv_asked := xs @ ys, rv_answered := rv_answered st @ [(ns, r)], rv_world := w'\<rparr>)"
| finish: "rv_answered st = xs @ (ns, r) # ys \<Longrightarrow>
     review_step env s u st (st\<lparr>rv_answered := xs @ ys, rv_acc := record_review ns r (rv_acc st)\<rparr>)"

inductive_cases review_stepE: "review_step env s u st st'"

section \<open>What the reviews of a resolution compute\<close>

text \<open>An API server whose answers do not change during the resolution.\<close>

definition answers :: "'w env \<Rightarrow> rbac_scoper \<Rightarrow> user_info \<Rightarrow> (string \<Rightarrow> bool result) \<Rightarrow> bool" where
  "answers env s u f \<longleftrightarrow> (\<forall>ns w. fst (review env s u ns w) = f ns)"

definition permitted :: "(string \<Rightarrow> bool result) \<Rightarrow> string list \<Rightarrow> string list" where
  "permitted f nss = filter (\<lambda>ns. f ns = Inr True) nss"

definition acc_ok :: "(string \<Rightarrow> bool result) \<Rightarrow> string multiset \<Rightarrow> string list \<times> go_error option \<Rightarrow> bool" where
  "acc_ok f reviewed acc \<longleftrightarrow>
     mset (fst acc) = filter_mset (\<lambda>ns. f ns = Inr True) reviewed
     \<and> (case snd acc of None \<Rightarrow> \<forall>ns \<in># reviewed. is_ok (f ns) | Some e \<Rightarrow> \<exists>ns \<in># reviewed. f ns = Inl e)"

lemma acc_ok_start: "acc_ok f {#} ([], None)"
  by (simp add: acc_ok_def)

lemma acc_ok_record:
  "acc_ok f reviewed acc \<Longrightarrow> acc_ok f (add_mset ns reviewed) (record_review ns (f ns) acc)"
  by (cases acc; cases "f ns") (auto simp: acc_ok_def record_review_def split: option.splits if_splits)

lemma sort_mset_cong: "mset xs = mset ys \<Longrightarrow> sort xs = sort (ys :: 'a::linorder list)"
  by (metis mset_sort properties_for_sort sorted_sort)

lemma finish_ok:
  assumes "acc_ok f (mset nss) acc" "\<forall>ns \<in> set nss. is_ok (f ns)"
  shows "finish_reviews acc = Inr \<lparr>allow_all = False, namespaces = sort (permitted f nss)\<rparr>"
proof -
  have "snd acc = None" using assms by (auto simp: acc_ok_def split: option.splits)
  moreover have "sort (fst acc) = sort (permitted f nss)"
    using assms(1) by (intro sort_mset_cong) (simp add: acc_ok_def permitted_def)
  ultimately show ?thesis by (cases acc) (simp add: finish_reviews_def)
qed

lemma finish_error:
  assumes "acc_ok f (mset nss) acc" "\<exists>ns \<in> set nss. \<not> is_ok (f ns)"
  shows "\<exists>ns \<in> set nss. \<exists>e. f ns = Inl e \<and> finish_reviews acc = Inl e"
proof -
  have "snd acc \<noteq> None" using assms by (auto simp: acc_ok_def split: option.splits)
  with assms(1) show ?thesis by (cases acc) (auto simp: acc_ok_def finish_reviews_def)
qed

lemma review_all_acc:
  assumes "answers env s u f" "acc_ok f reviewed acc"
  shows "acc_ok f (mset nss + reviewed) (fst (review_all env s u nss acc w))"
  using assms(2)
proof (induction nss arbitrary: acc reviewed w)
  case (Cons ns nss)
  have "fst (review env s u ns w) = f ns" using assms(1) by (simp add: answers_def)
  then obtain w' where r: "review env s u ns w = (f ns, w')" by (cases "review env s u ns w") auto
  from Cons.IH [OF acc_ok_record [OF Cons.prems], of ns w'] r show ?case by simp
qed simp

definition lists_namespaces :: "'w env \<Rightarrow> kube_client \<Rightarrow> string list \<Rightarrow> bool" where
  "lists_namespaces env k nss \<longleftrightarrow> (\<forall>w. \<exists>w'. list_namespaces env k w = Some (Inr nss, w'))"

lemma resolve_reviews:
  assumes "answers env s u f" "f [] = Inr False"
    and "lists_namespaces env (rs_kube s) nss" "mset (sched nss) = mset nss"
  shows "\<exists>acc w'. resolve env sched s u w = Some (finish_reviews acc, w') \<and> acc_ok f (mset nss) acc"
proof -
  have "fst (review env s u [] w) = Inr False" using assms(1,2) by (simp add: answers_def)
  then obtain w1 where r: "review env s u [] w = (Inr False, w1)" by (cases "review env s u [] w") auto
  obtain w2 where l: "list_namespaces env (rs_kube s) w1 = Some (Inr nss, w2)"
    using assms(3) unfolding lists_namespaces_def by blast
  obtain acc w3 where a: "review_all env s u (sched nss) ([], None) w2 = (acc, w3)"
    by (cases "review_all env s u (sched nss) ([], None) w2")
  have "acc_ok f (mset nss) acc"
    using review_all_acc [OF assms(1) acc_ok_start, of "sched nss" w2] a assms(4) by simp
  moreover have "resolve env sched s u w = Some (finish_reviews acc, w3)"
    using r l a by (simp add: resolve_def)
  ultimately show ?thesis by blast
qed

section \<open>Any interleaving of the parallel reviews\<close>

definition review_inv :: "string list \<Rightarrow> (string \<Rightarrow> bool result) \<Rightarrow> 'w review_state \<Rightarrow> bool" where
  "review_inv nss f st \<longleftrightarrow>
     (\<exists>reviewed. mset nss = reviewed + mset (rv_pending st) + mset (rv_asked st) + mset (map fst (rv_answered st))
        \<and> acc_ok f reviewed (rv_acc st))
     \<and> (\<forall>(ns, r) \<in> set (rv_answered st). r = f ns)
     \<and> length (rv_asked st) + length (rv_answered st) \<le> sar_concurrency"

lemma review_inv_start: "review_inv nss f (start_reviews nss w)"
  using acc_ok_start by (simp add: review_inv_def start_reviews_def)

lemma review_inv_step:
  assumes "answers env s u f" "review_step env s u st st'" "review_inv nss f st"
  shows "review_inv nss f st'"
  using assms(2)
proof cases
  case (spawn ns rest)
  with assms(3) show ?thesis by (auto simp: review_inv_def sar_concurrency_def)
next
  case (answer xs ns ys r w')
  then have "r = f ns" using assms(1) by (metis answers_def fst_conv)
  with answer assms(3) show ?thesis by (auto simp: review_inv_def)
next
  case (finish xs ns r ys)
  with assms(3) obtain reviewed where
    m: "mset nss = reviewed + mset (rv_pending st) + mset (rv_asked st) + mset (map fst (rv_answered st))"
       "acc_ok f reviewed (rv_acc st)" and r: "r = f ns"
    by (auto simp: review_inv_def)
  have "acc_ok f (add_mset ns reviewed) (record_review ns r (rv_acc st))"
    using acc_ok_record [OF m(2)] r by simp
  moreover have "mset nss = add_mset ns reviewed + mset (rv_pending st) + mset (rv_asked st)
      + mset (map fst (xs @ ys))" using m(1) finish by simp
  ultimately have "\<exists>reviewed. mset nss = reviewed + mset (rv_pending st') + mset (rv_asked st')
      + mset (map fst (rv_answered st')) \<and> acc_ok f reviewed (rv_acc st')"
    using finish by (intro exI [of _ "add_mset ns reviewed"]) simp
  moreover have "(\<forall>(ns, r) \<in> set (rv_answered st'). r = f ns)
      \<and> length (rv_asked st') + length (rv_answered st') \<le> sar_concurrency"
    using finish assms(3) by (auto simp: review_inv_def)
  ultimately show ?thesis unfolding review_inv_def by blast
qed

lemma review_inv_reachable:
  assumes "answers env s u f" "(review_step env s u)\<^sup>*\<^sup>* (start_reviews nss w) st"
  shows "review_inv nss f st"
  using assms(2)
proof (induction rule: rtranclp_induct)
  case base
  show ?case by (rule review_inv_start)
next
  case (step st st')
  from review_inv_step [OF assms(1) step(2,3)] show ?case .
qed

text \<open>Every step brings the resolution closer to its end, and until the end there is a step.\<close>

definition review_work :: "'w review_state \<Rightarrow> nat" where
  "review_work st = 3 * length (rv_pending st) + 2 * length (rv_asked st) + length (rv_answered st)"

lemma review_step_work: "review_step env s u st st' \<Longrightarrow> review_work st' < review_work st"
  by (erule review_step.cases) (simp_all add: review_work_def)

lemma review_progress:
  assumes "\<not> reviews_done st"
  shows "\<exists>st'. review_step env s u st st'"
proof (cases "rv_answered st")
  case (Cons a as)
  then obtain ns r where "rv_answered st = [] @ (ns, r) # as" by (cases a) auto
  then show ?thesis using finish by blast
next
  case Nil
  show ?thesis
  proof (cases "rv_asked st")
    case (Cons ns nss)
    obtain r w' where "review env s u ns (rv_world st) = (r, w')" by (cases "review env s u ns (rv_world st)")
    from answer [OF _ this, of "[]" nss] Cons show ?thesis by (intro exI) simp
  next
    case Nil': Nil
    with Nil assms obtain ns rest where "rv_pending st = ns # rest"
      by (cases "rv_pending st") (auto simp: reviews_done_def)
    from spawn [OF this] Nil Nil' show ?thesis by (intro exI) (simp add: sar_concurrency_def)
  qed
qed

section \<open>Sound answers\<close>

definition review_allowed :: "'w env \<Rightarrow> rbac_scoper \<Rightarrow> user_info \<Rightarrow> string \<Rightarrow> bool" where
  "review_allowed env s u ns \<longleftrightarrow> (\<exists>w. fst (review env s u ns w) = Inr True)"

lemma review_all_sound:
  "review_all env s u nss acc w = (acc', w') \<Longrightarrow> ns \<in> set (fst acc') \<Longrightarrow>
     ns \<in> set (fst acc) \<or> review_allowed env s u ns"
proof (induction nss arbitrary: acc w)
  case (Cons n nss)
  obtain r w1 where r: "review env s u n w = (r, w1)" by (cases "review env s u n w")
  with Cons.prems have "review_all env s u nss (record_review n r acc) w1 = (acc', w')" by simp
  from Cons.IH [OF this Cons.prems(2)] show ?case
  proof
    assume "ns \<in> set (fst (record_review n r acc))"
    moreover have "r = Inr True \<Longrightarrow> review_allowed env s u n"
      using r unfolding review_allowed_def by (metis fst_conv)
    ultimately show ?thesis
      by (cases acc; cases r) (auto simp: record_review_def split: if_splits)
  qed simp
qed simp

lemma resolve_allowed:
  assumes "resolve env sched s u w = Some (Inr scope, w')"
  shows "(allow_all scope \<longrightarrow> review_allowed env s u [])
      \<and> (\<forall>ns \<in> set (namespaces scope). review_allowed env s u ns)"
proof -
  obtain r w1 where r: "review env s u [] w = (r, w1)" by (cases "review env s u [] w")
  show ?thesis
  proof (cases "r = Inr True")
    case True
    with r assms have "scope = \<lparr>allow_all = True, namespaces = []\<rparr>" "review_allowed env s u []"
      by (auto simp: resolve_def review_allowed_def intro!: exI [of _ w])
    then show ?thesis by simp
  next
    case False
    with r assms have "r = Inr False"
      by (cases r) (auto simp: resolve_def)
    with r assms obtain nss w2 where
      l: "list_namespaces env (rs_kube s) w1 = Some (Inr nss, w2)"
      by (auto simp: resolve_def split: option.splits prod.splits sum.splits)
    obtain acc w3 where a: "review_all env s u (sched nss) ([], None) w2 = (acc, w3)"
      by (cases "review_all env s u (sched nss) ([], None) w2")
    from r l a assms \<open>r = Inr False\<close> have "finish_reviews acc = Inr scope"
      by (simp add: resolve_def)
    then have "scope = \<lparr>allow_all = False, namespaces = sort (fst acc)\<rparr>"
      by (cases acc) (auto simp: finish_reviews_def split: option.splits)
    with review_all_sound [OF a] show ?thesis by simp
  qed
qed

section \<open>Laws of the cache\<close>

lemma cache_store_other: "r' \<noteq> r \<Longrightarrow> cache_store r key scope now h ! r' = h ! r'"
  by (simp add: cache_store_def Let_def)

lemma cache_store_length [simp]: "length (cache_store r key scope now h) = length h"
  by (simp add: cache_store_def Let_def)

lemma cache_store_lookup:
  assumes "r < length h"
  shows "cache_lookup (cache_store r key scope now h ! r) key' t =
     (if key' = key then (if t < now + rs_ttl (h ! r) then Some scope else None)
      else cache_lookup (h ! r) key' t)"
  using assms by (simp add: cache_store_def cache_lookup_def Let_def)

text \<open>The check a scoper performs: everything but its cache.\<close>

definition same_check :: "rbac_scoper \<Rightarrow> rbac_scoper \<Rightarrow> bool" where
  "same_check a b \<longleftrightarrow> rs_kube a = rs_kube b \<and> rs_verb a = rs_verb b \<and> rs_api_group a = rs_api_group b
     \<and> rs_resource a = rs_resource b \<and> rs_ttl a = rs_ttl b"

lemma cache_store_check: "r < length h \<Longrightarrow> same_check (cache_store r key scope now h ! r) (h ! r)"
  by (simp add: cache_store_def same_check_def Let_def)

lemma scope_for_frame:
  assumes "scope_for env sched r u h w = Some (res, h', w')"
  shows "length h' = length h \<and> (\<forall>r'. r' \<noteq> r \<longrightarrow> h' ! r' = h ! r')"
  using assms
  by (auto simp: scope_for_def Let_def cache_store_other split: prod.splits option.splits sum.splits)

lemma join_inject:
  assumes "\<forall>x \<in> set xs. c \<notin> set x" "\<forall>y \<in> set ys. c \<notin> set y" "xs \<noteq> []" "ys \<noteq> []"
    "join [c] xs = join [c] ys"
  shows "xs = ys"
  using assms by (metis split_on_join)

lemma cache_key_split:
  assumes "CHR 0x00 \<notin> set (ui_username u)"
  shows "cut CHR 0x00 (cache_key u) = (ui_username u, join nul (user_groups u), True)"
  using assms cut_append by (simp add: cache_key_def nul_def)

section \<open>A sample scoper\<close>

definition sample_scoper :: rbac_scoper where
  "sample_scoper = \<lparr>rs_kube = sample_kube, rs_verb = ''list'', rs_api_group = [], rs_resource = ''events'',
     rs_ttl = 60 * second, rs_cache = (\<lambda>_. None)\<rparr>"

definition sample_user :: user_info where
  "sample_user = \<lparr>ui_username = ''alice'', ui_groups = Some [''dev'']\<rparr>"

definition sample_answer :: "string \<Rightarrow> bool" where
  "sample_answer b \<longleftrightarrow> b = sar_body sample_user ''list'' [] ''events'' ''team-a''"

definition sample_api :: "time env" where
  "sample_api = api_server sample_answer [''team-b'', ''team-a'']"

definition sample_review :: "string \<Rightarrow> bool result" where
  "sample_review ns = Inr (sample_answer (sar_body sample_user ''list'' [] ''events'' ns))"

lemma sample_utf8:
  "utf8_identity sample_user" "valid_utf8 ''list''" "valid_utf8 []" "valid_utf8 ''events''"
  "valid_utf8 ''team-a''" "valid_utf8 ''team-b''"
  by (simp_all add: sample_user_def utf8_identity_def valid_utf8_def,
      (rule conjI | rule utf8_fix_ascii | simp add: byte_def)+)

lemma sar_body_namespace:
  assumes "utf8_identity u" "valid_utf8 v" "valid_utf8 g" "valid_utf8 r" "valid_utf8 ns" "valid_utf8 ns'"
  shows "sar_body u v g r ns = sar_body u v g r ns' \<longleftrightarrow> ns = ns'"
proof
  assume "sar_body u v g r ns = sar_body u v g r ns'"
  then have "Some (sar_value u v g r ns) = Some (sar_value u v g r ns')"
    unfolding json_parse_parses [OF parses_sar [OF assms(1-4) assms(5)], symmetric]
      json_parse_parses [OF parses_sar [OF assms(1-4) assms(6)], symmetric] by simp
  then show "ns = ns'" by (simp add: sar_value_def)
qed simp

lemma sample_review_values:
  "sample_review [] = Inr False" "sample_review ''team-a'' = Inr True" "sample_review ''team-b'' = Inr False"
  by (simp_all add: sample_review_def sample_answer_def sar_body_namespace sample_utf8)

lemma sample_answers: "answers sample_api sample_scoper sample_user sample_review"
  by (simp add: answers_def review_def sample_scoper_def sample_api_def api_review sample_review_def)

lemma sample_lists: "lists_namespaces sample_api (rs_kube sample_scoper) [''team-b'', ''team-a'']"
  unfolding lists_namespaces_def sample_api_def sample_scoper_def
  using api_list [of "[''team-b'', ''team-a'']"] sample_utf8 by simp

lemma sample_review_step: "review sample_api sample_scoper sample_user ns w = (sample_review ns, w)"
  by (simp add: review_def sample_scoper_def sample_api_def api_review sample_review_def)

lemma sample_resolve:
  "resolve sample_api id sample_scoper sample_user w
     = Some (Inr \<lparr>allow_all = False, namespaces = [''team-a'']\<rparr>, w)"
proof -
  have "list_namespaces sample_api (rs_kube sample_scoper) w = Some (Inr [''team-b'', ''team-a''], w)"
    unfolding sample_api_def sample_scoper_def
    using api_list [of "[''team-b'', ''team-a'']"] sample_utf8 by simp
  then show ?thesis
    by (simp add: resolve_def sample_review_step sample_review_values record_review_def finish_reviews_def)
qed

section \<open>Properties of the scoper\<close>





text \<open>
  C12: a resolution cannot hang in its reviews: as long as one is not recorded some goroutine can
  move, and every move brings the end closer, so every schedule ends after at most three moves per
  namespace.
\<close>

theorem reviews_terminate:
  "(reviews_done st \<or> (\<exists>st'. review_step env s u st st'))
     \<and> (\<forall>st'. review_step env s u st st' \<longrightarrow> review_work st' < review_work st)
     \<and> review_work (start_reviews nss w) = 3 * length nss"
  using review_progress review_step_work
  by (auto simp: review_work_def start_reviews_def)

theorem reviews_terminate_witness:
  "\<exists>st'. review_step sample_api sample_scoper sample_user (start_reviews [''team-a''] 0) st'
     \<and> review_work st' < 3"
proof -
  have "\<not> reviews_done (start_reviews [''team-a''] (0::time))" by (simp add: reviews_done_def start_reviews_def)
  then obtain st' where "review_step sample_api sample_scoper sample_user (start_reviews [''team-a''] 0) st'"
    using review_progress by blast
  moreover from this have "review_work st' < review_work (start_reviews [''team-a''] (0::time))"
      "review_work (start_reviews [''team-a''] (0::time)) = 3"
    using reviews_terminate [of "start_reviews [''team-a''] 0" sample_api sample_scoper sample_user "[''team-a'']" "0::time"]
    by (blast, simp)
  ultimately show ?thesis by (intro exI [of _ st']) simp
qed

text \<open>
  C7: a scope never exceeds what the API server allowed: an unrestricted scope is returned only
  after the cluster-wide review was answered allowed, and every namespace of a restricted one was
  answered allowed by a review of that namespace, whatever errors, refusals and replies came in
  between and in whatever order the reviews completed.
\<close>

theorem scope_never_exceeds:
  assumes "resolve env sched s u w = Some (Inr scope, w')"
  shows "(allow_all scope \<longrightarrow> review_allowed env s u [])
      \<and> (\<forall>ns \<in> set (namespaces scope). review_allowed env s u ns)"
  using assms by (rule resolve_allowed)

theorem scope_never_exceeds_witness: "review_allowed sample_api sample_scoper sample_user ''team-a''"
proof -
  show ?thesis
    using scope_never_exceeds [OF sample_resolve [of 0]] by simp
qed

text \<open>
  C34: the cache serves a caller the last resolved scope for the configured time and no longer: right
  after a resolution and until its lifetime is over the same scope comes back without a request to
  the API server; from then on the scope is resolved again; a failed resolution is not remembered.
\<close>

theorem cache_lifetime:
  assumes "r < length h" "env_now env w = (now, w1)" "cache_lookup (h ! r) (cache_key u) now = None"
    and "resolve env sched (h ! r) u w1 = Some (res, w2)" "env_now env w' = (later, w'')"
  shows "\<exists>h'. scope_for env sched r u h w = Some (res, h', w2)
      \<and> (case res of
           Inl e \<Rightarrow> h' = h
         | Inr scope \<Rightarrow>
             (later < now + rs_ttl (h ! r) \<longrightarrow> scope_for env sched r u h' w' = Some (Inr scope, h', w''))
             \<and> (now + rs_ttl (h ! r) \<le> later \<longrightarrow> cache_lookup (h' ! r) (cache_key u) later = None))"
proof (cases res)
  case (Inl e)
  with assms show ?thesis by (simp add: scope_for_def Let_def)
next
  case (Inr scope)
  let ?h = "cache_store r (cache_key u) scope now h"
  have l: "cache_lookup (?h ! r) (cache_key u) t = (if t < now + rs_ttl (h ! r) then Some scope else None)" for t
    using cache_store_lookup [OF assms(1)] by simp
  have "scope_for env sched r u h w = Some (res, ?h, w2)"
    using assms Inr by (simp add: scope_for_def Let_def)
  moreover have "later < now + rs_ttl (h ! r) \<longrightarrow> scope_for env sched r u ?h w' = Some (Inr scope, ?h, w'')"
    using assms(5) by (simp add: scope_for_def Let_def l)
  ultimately show ?thesis using Inr by (auto simp: l)
qed

theorem cache_lifetime_witness:
  "\<exists>scope h'. scope_for sample_api id 0 sample_user [sample_scoper] 0 = Some (Inr scope, h', 0)
     \<and> scope_for sample_api id 0 sample_user h' (59 * second) = Some (Inr scope, h', 59 * second)"
proof -
  have n: "env_now sample_api w = (w, w)" for w by (simp add: sample_api_def api_server_def)
  have c: "cache_lookup ([sample_scoper] ! 0) (cache_key sample_user) 0 = None"
    by (simp add: cache_lookup_def sample_scoper_def)
  have "resolve sample_api id ([sample_scoper] ! 0) sample_user 0
      = Some (Inr \<lparr>allow_all = False, namespaces = [''team-a'']\<rparr>, 0)"
    using sample_resolve by simp
  from cache_lifetime [OF _ n c this n, of "59 * second"] show ?thesis
    by (auto simp: sample_scoper_def second_def)
qed

text \<open>
  Two callers share a cache entry only if they are the same caller: for names without NUL bytes
  the key determines the username and the list of groups (no groups at all and one empty group
  apart, which the API server does not distinguish either).
\<close>

theorem cache_key_identifies:
  assumes "CHR 0x00 \<notin> set (ui_username u)" "CHR 0x00 \<notin> set (ui_username v)"
    and "\<forall>x \<in> set (user_groups u) \<union> set (user_groups v). CHR 0x00 \<notin> set x"
    and "user_groups u \<noteq> [[]]" "user_groups v \<noteq> [[]]"
  shows "cache_key u = cache_key v \<longleftrightarrow> ui_username u = ui_username v \<and> user_groups u = user_groups v"
proof
  assume "cache_key u = cache_key v"
  then have e: "ui_username u = ui_username v" "join nul (user_groups u) = join nul (user_groups v)"
    using cache_key_split [OF assms(1)] cache_key_split [OF assms(2)] by simp_all
  have nil: "join nul gs = [] \<longleftrightarrow> gs = []" if "gs \<noteq> [[]]" for gs
    using that join_eq_Nil [of nul gs] by (auto simp: nul_def)
  have "user_groups u = user_groups v"
  proof (cases "user_groups u = [] \<or> user_groups v = []")
    case True
    with nil [OF assms(4)] nil [OF assms(5)] e(2) show ?thesis by auto
  next
    case False
    with e(2) assms(3) show ?thesis
      by (intro join_inject [of _ "CHR 0x00"]) (auto simp: nul_def)
  qed
  with e show "ui_username u = ui_username v \<and> user_groups u = user_groups v" by simp
qed (simp add: cache_key_def)

theorem cache_key_identifies_witness:
  "cache_key sample_user \<noteq> cache_key \<lparr>ui_username = ''alice'', ui_groups = Some [''dev'', ''ops'']\<rparr>"
  using cache_key_identifies [of sample_user "\<lparr>ui_username = ''alice'', ui_groups = Some [''dev'', ''ops'']\<rparr>"]
  by (simp add: sample_user_def user_groups_def)

text \<open>
  A name that holds a NUL byte can take another caller's cache entry: the key of a user whose
  name ends in NUL and a group's name equals the key of the user who has that group.
\<close>

theorem cache_key_collides:
  "cache_key \<lparr>ui_username = a, ui_groups = Some [b, c]\<rparr>
     = cache_key \<lparr>ui_username = a @ nul @ b, ui_groups = Some [c]\<rparr>"
  by (simp add: cache_key_def user_groups_def)

text \<open>
  The audit scoper is the events scoper itself when no audit variable is set, and otherwise a
  new one that asks the events scoper's API server its own question, every unset part of which it
  takes over from events, with an empty cache; from then on neither scoper's resolutions touch the
  other's cache.
\<close>

theorem audit_scoper_separate:
  assumes "load_audit_scoper g (Some r) h = (Some a, h0)" "r < length h"
    and "scope_for env sched r' u h1 w = Some (res, h2, w')"
  shows "(if g ''AUDIT_SCOPING_VERB'' = [] \<and> g ''AUDIT_SCOPING_RESOURCE'' = [] \<and> g ''AUDIT_SCOPING_APIGROUP'' = []
          then a = r \<and> h0 = h
          else a \<noteq> r \<and> h0 ! r = h ! r \<and> rs_cache (h0 ! a) = (\<lambda>_. None)
             \<and> rs_kube (h0 ! a) = rs_kube (h ! r) \<and> rs_ttl (h0 ! a) = rs_ttl (h ! r)
             \<and> rs_verb (h0 ! a) = get_env g ''AUDIT_SCOPING_VERB'' (rs_verb (h ! r))
             \<and> rs_resource (h0 ! a) = get_env g ''AUDIT_SCOPING_RESOURCE'' (rs_resource (h ! r))
             \<and> rs_api_group (h0 ! a) = get_env g ''AUDIT_SCOPING_APIGROUP'' (rs_api_group (h ! r)))
      \<and> (a \<noteq> r \<longrightarrow> (r' = r \<longrightarrow> h2 ! a = h1 ! a) \<and> (r' = a \<longrightarrow> h2 ! r = h1 ! r))"
  using assms(1,2) scope_for_frame [OF assms(3)]
  by (auto simp: load_audit_scoper_def Let_def get_env_def nth_append split: if_splits)

theorem audit_scoper_separate_witness:
  "\<exists>h0. load_audit_scoper (\<lambda>v. if v = ''AUDIT_SCOPING_VERB'' then ''get'' else []) (Some 0) [sample_scoper]
       = (Some 1, h0) \<and> rs_verb (h0 ! 1) = ''get'' \<and> rs_resource (h0 ! 1) = ''events''"
proof -
  let ?g = "\<lambda>v. if v = ''AUDIT_SCOPING_VERB'' then ''get'' else []"
  obtain h0 where l: "load_audit_scoper ?g (Some 0) [sample_scoper] = (Some 1, h0)"
    by (simp add: load_audit_scoper_def Let_def get_env_def)
  obtain res h2 w' where "scope_for sample_api id 0 sample_user [sample_scoper] 0 = Some (res, h2, w')"
  proof -
    show ?thesis
      using that sample_resolve
      by (auto simp: scope_for_def Let_def sample_api_def api_server_def cache_lookup_def sample_scoper_def)
  qed
  from audit_scoper_separate [OF l _ this] l show ?thesis
    by (simp add: get_env_def sample_scoper_def)
qed

end
