(* ===== verification/Events.thy ===== *)
theory Events
  imports Go_Json
begin

text \<open>
  The data of \<open>main.go\<close>: the row a ClickHouse query returns (\<open>chRow\<close>), the event the frontend
  expects (\<open>SSEK8sEvent\<close>), the conversion between them, and the JSON text of an event.
\<close>

section \<open>SSEK8sEvent\<close>

record event_metadata =
  md_name :: string
  md_namespace :: string
  md_uid :: string
  md_creation_timestamp :: string

record involved_object =
  io_api_version :: string
  io_kind :: string
  io_name :: string
  io_namespace :: string
  io_uid :: string

record sse_k8s_event =
  ev_metadata :: event_metadata
  ev_involved_object :: involved_object
  ev_reason :: string
  ev_message :: string
  ev_type :: string
  ev_first_timestamp :: string
  ev_last_timestamp :: string
  ev_event_time :: string
  ev_source_component :: string
  ev_composition_id :: string

section \<open>chRow\<close>

record ch_row =
  ts_unix :: int
  composition_id :: string
  obj_apiversion :: string
  obj_name :: string
  obj_namespace :: string
  obj_uid :: string
  obj_kind :: string
  row_reason :: string
  row_message :: string
  row_type :: string
  row_event_time :: string
  source_component :: string

definition zero_row :: ch_row where
  "zero_row = \<lparr>ts_unix = 0, composition_id = [], obj_apiversion = [], obj_name = [],
     obj_namespace = [], obj_uid = [], obj_kind = [], row_reason = [], row_message = [],
     row_type = [], row_event_time = [], source_component = []\<rparr>"

definition row_fields :: "ch_row field list" where
  "row_fields =
     [(''ts_unix'', set_int64 (\<lambda>i r. r\<lparr>ts_unix := i\<rparr>)),
      (''composition_id'', set_string (\<lambda>s r. r\<lparr>composition_id := s\<rparr>)),
      (''obj_apiversion'', set_string (\<lambda>s r. r\<lparr>obj_apiversion := s\<rparr>)),
      (''obj_name'', set_string (\<lambda>s r. r\<lparr>obj_name := s\<rparr>)),
      (''obj_namespace'', set_string (\<lambda>s r. r\<lparr>obj_namespace := s\<rparr>)),
      (''obj_uid'', set_string (\<lambda>s r. r\<lparr>obj_uid := s\<rparr>)),
      (''obj_kind'', set_string (\<lambda>s r. r\<lparr>obj_kind := s\<rparr>)),
      (''reason'', set_string (\<lambda>s r. r\<lparr>row_reason := s\<rparr>)),
      (''message'', set_string (\<lambda>s r. r\<lparr>row_message := s\<rparr>)),
      (''type'', set_string (\<lambda>s r. r\<lparr>row_type := s\<rparr>)),
      (''event_time'', set_string (\<lambda>s r. r\<lparr>row_event_time := s\<rparr>)),
      (''source_component'', set_string (\<lambda>s r. r\<lparr>source_component := s\<rparr>))]"

definition to_sse_event :: "ch_row \<Rightarrow> sse_k8s_event" where
  "to_sse_event row =
     \<lparr>ev_metadata =
        \<lparr>md_name = obj_name row, md_namespace = obj_namespace row, md_uid = obj_uid row,
         md_creation_timestamp = row_event_time row\<rparr>,
      ev_involved_object =
        \<lparr>io_api_version = obj_apiversion row, io_kind = obj_kind row, io_name = obj_name row,
         io_namespace = obj_namespace row, io_uid = obj_uid row\<rparr>,
      ev_reason = row_reason row,
      ev_message = row_message row,
      ev_type = row_type row,
      ev_first_timestamp = row_event_time row,
      ev_last_timestamp = row_event_time row,
      ev_event_time = row_event_time row,
      ev_source_component = source_component row,
      ev_composition_id = composition_id row\<rparr>"

section \<open>The JSON text of an event\<close>

definition string_members :: "(string \<times> string) list \<Rightarrow> (string \<times> string) list" where
  "string_members ms = map (\<lambda>(k, v). (k, json_string v)) ms"

definition metadata_members :: "event_metadata \<Rightarrow> (string \<times> string) list" where
  "metadata_members m =
     [(''name'', md_name m), (''namespace'', md_namespace m), (''uid'', md_uid m),
      (''creationTimestamp'', md_creation_timestamp m)]"

definition involved_members :: "involved_object \<Rightarrow> (string \<times> string) list" where
  "involved_members o1 =
     [(''apiVersion'', io_api_version o1), (''kind'', io_kind o1), (''name'', io_name o1),
      (''namespace'', io_namespace o1), (''uid'', io_uid o1)]"

definition event_json :: "sse_k8s_event \<Rightarrow> string" where
  "event_json e =
     json_object
       [(''metadata'', json_object (string_members (metadata_members (ev_metadata e)))),
        (''involvedObject'', json_object (string_members (involved_members (ev_involved_object e)))),
        (''reason'', json_string (ev_reason e)),
        (''message'', json_string (ev_message e)),
        (''type'', json_string (ev_type e)),
        (''firstTimestamp'', json_string (ev_first_timestamp e)),
        (''lastTimestamp'', json_string (ev_last_timestamp e)),
        (''eventTime'', json_string (ev_event_time e)),
        (''source'', json_object (string_members [(''component'', ev_source_component e)])),
        (''compositionId'', json_string (ev_composition_id e))]"

text \<open>\<open>json.Marshal\<close> never fails on this type; the call keeps its error branch in \<open>poll\<close>.\<close>

definition marshal_event :: "sse_k8s_event \<Rightarrow> string result" where
  "marshal_event e = Inr (event_json e)"

section \<open>What a reader of the text gets\<close>

definition read_strings :: "(string \<times> string) list \<Rightarrow> json" where
  "read_strings ms = JObj (map (\<lambda>(k, v). (k, JStr (utf8_fix v))) ms)"

definition event_value :: "sse_k8s_event \<Rightarrow> json" where
  "event_value e =
     JObj
       [(''metadata'', read_strings (metadata_members (ev_metadata e))),
        (''involvedObject'', read_strings (involved_members (ev_involved_object e))),
        (''reason'', JStr (utf8_fix (ev_reason e))),
        (''message'', JStr (utf8_fix (ev_message e))),
        (''type'', JStr (utf8_fix (ev_type e))),
        (''firstTimestamp'', JStr (utf8_fix (ev_first_timestamp e))),
        (''lastTimestamp'', JStr (utf8_fix (ev_last_timestamp e))),
        (''eventTime'', JStr (utf8_fix (ev_event_time e))),
        (''source'', read_strings [(''component'', ev_source_component e)]),
        (''compositionId'', JStr (utf8_fix (ev_composition_id e)))]"

lemma parses_strings:
  assumes "\<forall>(k, v) \<in> set ms. utf8_fix k = k"
  shows "parses (json_object (string_members ms)) (read_strings ms)"
proof -
  have "list_all2 (\<lambda>(k, v) (k', j). k' = utf8_fix k \<and> parses v j) (string_members ms)
      (map (\<lambda>(k, v). (k, JStr (utf8_fix v))) ms)"
    using assms by (induction ms) (auto simp: string_members_def parses_string)
  then show ?thesis by (simp add: read_strings_def parses_object)
qed

lemma field_names_ascii:
  "utf8_fix ''name'' = ''name''" "utf8_fix ''namespace'' = ''namespace''" "utf8_fix ''uid'' = ''uid''"
  "utf8_fix ''creationTimestamp'' = ''creationTimestamp''" "utf8_fix ''apiVersion'' = ''apiVersion''"
  "utf8_fix ''kind'' = ''kind''" "utf8_fix ''metadata'' = ''metadata''"
  "utf8_fix ''involvedObject'' = ''involvedObject''" "utf8_fix ''reason'' = ''reason''"
  "utf8_fix ''message'' = ''message''" "utf8_fix ''type'' = ''type''"
  "utf8_fix ''firstTimestamp'' = ''firstTimestamp''" "utf8_fix ''lastTimestamp'' = ''lastTimestamp''"
  "utf8_fix ''eventTime'' = ''eventTime''" "utf8_fix ''source'' = ''source''"
  "utf8_fix ''component'' = ''component''" "utf8_fix ''compositionId'' = ''compositionId''"
  by (rule utf8_fix_ascii, simp add: byte_def)+

lemma metadata_names: "\<forall>(k, v) \<in> set (metadata_members m). utf8_fix k = k"
  by (simp add: metadata_members_def field_names_ascii)

lemma involved_names: "\<forall>(k, v) \<in> set (involved_members o1). utf8_fix k = k"
  by (simp add: involved_members_def field_names_ascii)

lemma component_names: "\<forall>(k, v) \<in> set [(''component'', c)]. utf8_fix k = k"
  by (simp add: field_names_ascii)

lemma parses_event: "parses (event_json e) (event_value e)"
  unfolding event_json_def event_value_def
  by (rule parses_object)
    (simp only: list_all2_Cons list_all2_Nil prod.case field_names_ascii simp_thms,
      intro conjI parses_string parses_strings metadata_names involved_names component_names)

lemma join_chars: "c \<in> set (join sep ps) \<Longrightarrow> c \<in> set sep \<or> (\<exists>p \<in> set ps. c \<in> set p)"
  by (induction sep ps rule: join.induct) auto

lemma json_object_ctrl:
  assumes "\<forall>(k, v) \<in> set ms. \<forall>c \<in> set v. 32 \<le> byte c" "c \<in> set (json_object ms)"
  shows "32 \<le> byte c"
proof -
  from assms(2) have "c = CHR 0x7B \<or> c = CHR 0x7D \<or> c = CHR '','' \<or> c = CHR '':''
      \<or> (\<exists>(k, v) \<in> set ms. c \<in> set (json_string k) \<or> c \<in> set v)"
    by (fastforce simp: json_object_def dest!: join_chars)
  with assms(1) json_string_ctrl show ?thesis by (fastforce simp: byte_def)
qed

lemma string_members_ctrl: "(k, v) \<in> set (string_members ms) \<Longrightarrow> c \<in> set v \<Longrightarrow> 32 \<le> byte c"
  by (auto simp: string_members_def dest: json_string_ctrl)

lemma event_json_ctrl:
  assumes "c \<in> set (event_json e)"
  shows "32 \<le> byte c"
proof -
  have o1: "\<forall>d \<in> set (json_object (string_members ms)). 32 \<le> byte d" for ms
    using json_object_ctrl [of "string_members ms"] string_members_ctrl by fast
  have s1: "\<forall>d \<in> set (json_string s). 32 \<le> byte d" for s
    using json_string_ctrl by blast
  show ?thesis
    using assms unfolding event_json_def
    by (rule json_object_ctrl [rotated])
      (simp only: list.set ball_simps prod.case simp_thms, intro conjI o1 s1)
qed

end
