(* ===== verification/Clickhouse.thy ===== *)
theory Clickhouse
  imports Http Events
begin

text \<open>
  The ClickHouse client of \<open>main.go\<close>: the connection part of \<open>config\<close>, the HTTP exchange of
  \<open>queryClickHouse\<close> with its bound parameters, and the decoding of a \<open>JSONEachRow\<close> body. What the
  server answers is the environment's business.
\<close>

record config =
  clickhouse_url :: string
  clickhouse_user :: string
  clickhouse_password :: string
  listen_addr :: string

type_synonym ch_params = "(string \<times> string) list"

text \<open>The request URL: every parameter is set as \<open>param_<name>\<close> in the query of the base URL.\<close>

definition bind_params :: "ch_params \<Rightarrow> url_values \<Rightarrow> url_values" where
  "bind_params params q = foldl (\<lambda>acc (k, v). values_set (''param_'' @ k) v acc) q params"

definition clickhouse_endpoint :: "config \<Rightarrow> ch_params \<Rightarrow> string result" where
  "clickhouse_endpoint cfg params =
     (if params = [] then Inr (clickhouse_url cfg)
      else (case parse_url (clickhouse_url cfg) of
              Inl e \<Rightarrow> Inl (''parse clickhouse url: '' @ e)
            | Inr (base, raw) \<Rightarrow> Inr (url_string base (url_encode (bind_params params (parse_query raw))))))"

definition clickhouse_request :: "config \<Rightarrow> string \<Rightarrow> string \<Rightarrow> out_request" where
  "clickhouse_request cfg endpoint query =
     \<lparr>or_method = ''POST'', or_url = endpoint, or_headers = [(''Content-Type'', ''text/plain'')],
      or_basic_auth = (if clickhouse_user cfg \<noteq> [] then Some (clickhouse_user cfg, clickhouse_password cfg)
                       else None),
      or_body = query\<rparr>"

definition clickhouse_exchange ::
  "'w env \<Rightarrow> config \<Rightarrow> string \<Rightarrow> ch_params \<Rightarrow> 'w \<Rightarrow> string result \<times> 'w" where
  "clickhouse_exchange env cfg query params w =
     (case clickhouse_endpoint cfg params of
        Inl e \<Rightarrow> (Inl e, w)
      | Inr endpoint \<Rightarrow>
          (case parse_url endpoint of
             Inl e \<Rightarrow> (Inl e, w)
           | Inr _ \<Rightarrow>
               (case env_http env (clickhouse_request cfg endpoint query) w of
                  (Inl e, w') \<Rightarrow> (Inl (''http request: '' @ e), w')
                | (Inr reply, w') \<Rightarrow>
                    (case rp_body reply of
                       Inl e \<Rightarrow> (Inl (''read body: '' @ e), w')
                     | Inr body \<Rightarrow>
                         if rp_status reply \<noteq> 200
                         then (Inl (''clickhouse returned '' @ itoa (int (rp_status reply)) @ '': '' @ body), w')
                         else (Inr body, w')))))"

text \<open>The lines of the body: an empty line is skipped, a line that does not decode is logged and skipped.\<close>

definition body_lines :: "string \<Rightarrow> string list" where
  "body_lines body = split_on nl (trim_space body)"

fun decode_lines :: "(string \<Rightarrow> 'r result) \<Rightarrow> string list \<Rightarrow> 'r list" where
  "decode_lines dec [] = []"
| "decode_lines dec (line # ls) =
     (if line = [] then decode_lines dec ls
      else (case dec line of
              Inl _ \<Rightarrow> decode_lines dec ls
            | Inr row \<Rightarrow> row # decode_lines dec ls))"

definition decode_row :: "string \<Rightarrow> ch_row result" where
  "decode_row line = unmarshal row_fields line zero_row"

definition query_clickhouse ::
  "'w env \<Rightarrow> config \<Rightarrow> string \<Rightarrow> ch_params \<Rightarrow> 'w \<Rightarrow> ch_row list result \<times> 'w" where
  "query_clickhouse env cfg query params w =
     (case clickhouse_exchange env cfg query params w of
        (Inl e, w') \<Rightarrow> (Inl e, w')
      | (Inr body, w') \<Rightarrow> (Inr (decode_lines decode_row (body_lines body)), w'))"

section \<open>Laws\<close>

lemma decode_lines_append: "decode_lines dec (xs @ ys) = decode_lines dec xs @ decode_lines dec ys"
  by (induction dec xs rule: decode_lines.induct) (auto split: sum.splits)

lemma decode_lines_set:
  "row \<in> set (decode_lines dec ls) \<longleftrightarrow> (\<exists>line \<in> set ls. line \<noteq> [] \<and> dec line = Inr row)"
  by (induction dec ls rule: decode_lines.induct) (auto split: sum.splits)

lemma decode_lines_length: "length (decode_lines dec ls) \<le> length ls"
  by (induction dec ls rule: decode_lines.induct) (auto split: sum.splits intro: le_SucI)

lemma set_values_set:
  "set (values_set k v q) = {(k', v') \<in> set q. k' \<noteq> k} \<union> {(k, v)}"
  by (auto simp: values_set_def)

lemma bind_params_other:
  "\<forall>(k, v) \<in> set params. ''param_'' @ k \<noteq> x \<Longrightarrow>
     (x, y) \<in> set (bind_params params q) \<longleftrightarrow> (x, y) \<in> set q"
  unfolding bind_params_def
  by (induction params arbitrary: q) (auto simp: set_values_set)

lemma bind_params_snoc:
  "bind_params (ps @ [(k, v)]) q = values_set (''param_'' @ k) v (bind_params ps q)"
  by (simp add: bind_params_def)

lemma bind_params_key:
  assumes "distinct (map fst params)" "(k, v) \<in> set params"
  shows "(''param_'' @ k, y) \<in> set (bind_params params q) \<longleftrightarrow> y = v"
  using assms
proof (induction params rule: rev_induct)
  case Nil
  then show ?case by simp
next
  case (snoc p ps)
  obtain k' v' where p: "p = (k', v')" by (cases p)
  show ?case
  proof (cases "k = k'")
    case True
    with snoc.prems p have "v = v'" by (auto simp: image_iff)
    with True p show ?thesis by (auto simp: bind_params_snoc set_values_set)
  next
    case False
    with snoc p show ?thesis by (auto simp: bind_params_snoc set_values_set)
  qed
qed

lemma bind_params_keys_nonempty:
  "\<forall>(k, v) \<in> set q. k \<noteq> [] \<Longrightarrow> \<forall>(k, v) \<in> set (bind_params params q). k \<noteq> []"
proof (induction params rule: rev_induct)
  case Nil
  then show ?case by (simp add: bind_params_def)
next
  case (snoc p ps)
  then show ?case by (cases p) (auto simp: bind_params_snoc set_values_set)
qed

text \<open>The value ClickHouse finds under \<open>param_<name>\<close> in the URL is the one that was bound.\<close>

lemma bound_param_arrives:
  assumes "distinct (map fst params)" "(k, v) \<in> set params" "\<forall>(k, v) \<in> set q. k \<noteq> []"
  shows "values_get (''param_'' @ k) (parse_query (url_encode (bind_params params q))) = v"
proof -
  let ?b = "bind_params params q"
  have "parse_query (url_encode ?b) = sort_key fst ?b"
    using bind_params_keys_nonempty [OF assms(3)] by (rule parse_url_encode)
  moreover have "map_of (sort_key fst ?b) (''param_'' @ k) = Some v"
  proof -
    have "map_of (sort_key fst ?b) (''param_'' @ k) \<noteq> None"
      using bind_params_key [OF assms(1,2), of v] by (auto simp: map_of_eq_None_iff image_iff) force
    then obtain y where y: "map_of (sort_key fst ?b) (''param_'' @ k) = Some y" by auto
    then have "(''param_'' @ k, y) \<in> set ?b" using map_of_SomeD by force
    with y bind_params_key [OF assms(1,2)] show ?thesis by simp
  qed
  ultimately show ?thesis by (simp add: values_get_def)
qed

section \<open>Rows round-trip through the wire format\<close>

text \<open>
  A row as a \<open>JSONEachRow\<close> line: the columns of the two event queries, in order, strings escaped
  as \<open>json_string\<close> escapes them.
\<close>

definition row_members :: "ch_row \<Rightarrow> (string \<times> string) list" where
  "row_members row =
     [(''ts_unix'', itoa (ts_unix row)),
      (''composition_id'', json_string (composition_id row)),
      (''obj_apiversion'', json_string (obj_apiversion row)),
      (''obj_name'', json_string (obj_name row)),
      (''obj_namespace'', json_string (obj_namespace row)),
      (''obj_uid'', json_string (obj_uid row)),
      (''obj_kind'', json_string (obj_kind row)),
      (''reason'', json_string (row_reason row)),
      (''message'', json_string (row_message row)),
      (''type'', json_string (row_type row)),
      (''event_time'', json_string (row_event_time row)),
      (''source_component'', json_string (source_component row))]"

definition row_values :: "ch_row \<Rightarrow> (string \<times> json) list" where
  "row_values row =
     [(''ts_unix'', JNum (itoa (ts_unix row))),
      (''composition_id'', JStr (composition_id row)),
      (''obj_apiversion'', JStr (obj_apiversion row)),
      (''obj_name'', JStr (obj_name row)),
      (''obj_namespace'', JStr (obj_namespace row)),
      (''obj_uid'', JStr (obj_uid row)),
      (''obj_kind'', JStr (obj_kind row)),
      (''reason'', JStr (row_reason row)),
      (''message'', JStr (row_message row)),
      (''type'', JStr (row_type row)),
      (''event_time'', JStr (row_event_time row)),
      (''source_component'', JStr (source_component row))]"

definition row_json :: "ch_row \<Rightarrow> string" where
  "row_json row = json_object (row_members row)"

definition wire_row :: "ch_row \<Rightarrow> bool" where
  "wire_row row \<longleftrightarrow> 0 \<le> ts_unix row \<and> int64_range (ts_unix row)
     \<and> valid_utf8 (composition_id row)
     \<and> valid_utf8 (obj_apiversion row)
     \<and> valid_utf8 (obj_name row)
     \<and> valid_utf8 (obj_namespace row)
     \<and> valid_utf8 (obj_uid row)
     \<and> valid_utf8 (obj_kind row)
     \<and> valid_utf8 (row_reason row)
     \<and> valid_utf8 (row_message row)
     \<and> valid_utf8 (row_type row)
     \<and> valid_utf8 (row_event_time row)
     \<and> valid_utf8 (source_component row)"

lemma row_names:
  "utf8_fix ''ts_unix'' = ''ts_unix''" "utf8_fix ''composition_id'' = ''composition_id''"
   "utf8_fix ''obj_apiversion'' = ''obj_apiversion''" "utf8_fix ''obj_name'' = ''obj_name''"
   "utf8_fix ''obj_namespace'' = ''obj_namespace''" "utf8_fix ''obj_uid'' = ''obj_uid''"
   "utf8_fix ''obj_kind'' = ''obj_kind''" "utf8_fix ''reason'' = ''reason''"
   "utf8_fix ''message'' = ''message''" "utf8_fix ''type'' = ''type''"
   "utf8_fix ''event_time'' = ''event_time''" "utf8_fix ''source_component'' = ''source_component''"
  
  by (rule utf8_fix_ascii, simp add: byte_def)+

lemma find_row_field:
  "find_field row_fields ''ts_unix'' = Some (set_int64 (\<lambda>i r. r\<lparr>ts_unix := i\<rparr>))"
  "find_field row_fields ''composition_id'' = Some (set_string (\<lambda>s r. r\<lparr>composition_id := s\<rparr>))"
  "find_field row_fields ''obj_apiversion'' = Some (set_string (\<lambda>s r. r\<lparr>obj_apiversion := s\<rparr>))"
  "find_field row_fields ''obj_name'' = Some (set_string (\<lambda>s r. r\<lparr>obj_name := s\<rparr>))"
  "find_field row_fields ''obj_namespace'' = Some (set_string (\<lambda>s r. r\<lparr>obj_namespace := s\<rparr>))"
  "find_field row_fields ''obj_uid'' = Some (set_string (\<lambda>s r. r\<lparr>obj_uid := s\<rparr>))"
  "find_field row_fields ''obj_kind'' = Some (set_string (\<lambda>s r. r\<lparr>obj_kind := s\<rparr>))"
  "find_field row_fields ''reason'' = Some (set_string (\<lambda>s r. r\<lparr>row_reason := s\<rparr>))"
  "find_field row_fields ''message'' = Some (set_string (\<lambda>s r. r\<lparr>row_message := s\<rparr>))"
  "find_field row_fields ''type'' = Some (set_string (\<lambda>s r. r\<lparr>row_type := s\<rparr>))"
  "find_field row_fields ''event_time'' = Some (set_string (\<lambda>s r. r\<lparr>row_event_time := s\<rparr>))"
  "find_field row_fields ''source_component'' = Some (set_string (\<lambda>s r. r\<lparr>source_component := s\<rparr>))"
  by (simp_all add: find_field_def row_fields_def)

lemma parses_itoa: "0 \<le> i \<Longrightarrow> parses (itoa i) (JNum (itoa i))"
  using parses_nat [of "nat i"] by (simp add: itoa_def)

lemma parses_row: "wire_row row \<Longrightarrow> parses (row_json row) (JObj (row_values row))"
  unfolding row_json_def wire_row_def row_members_def row_values_def
  by (rule parses_object)
    (simp only: list_all2_Cons list_all2_Nil prod.case row_names simp_thms,
      intro conjI parses_utf8 parses_itoa; simp)

lemma decode_row_json:
  assumes "wire_row row"
  shows "decode_row (row_json row) = Inr row"
proof -
  have "atoi (itoa (ts_unix row)) = Some (ts_unix row)"
    using assms by (simp add: atoi_itoa wire_row_def)
  then have "decode_members row_fields (row_values row) (zero_row, True) = (row, True)"
    by (simp add: row_values_def find_row_field set_string_def set_int64_def zero_row_def)
  then show ?thesis
    using json_parse_parses [OF parses_row [OF assms]]
    by (simp add: decode_row_def unmarshal_def set_struct_def)
qed

lemma row_json_ctrl: "wire_row row \<Longrightarrow> c \<in> set (row_json row) \<Longrightarrow> 32 \<le> byte c"
proof -
  assume w: "wire_row row" and c: "c \<in> set (row_json row)"
  have s1: "\<forall>d \<in> set (json_string s). 32 \<le> byte d" for s
    using json_string_ctrl by blast
  have i1: "\<forall>d \<in> set (itoa (ts_unix row)). 32 \<le> byte d"
    using itoa_chars by (fastforce simp: is_digit_def byte_def)
  show ?thesis
    using c unfolding row_json_def row_members_def
    by (rule json_object_ctrl [rotated])
      (simp only: list.set ball_simps prod.case simp_thms, intro conjI s1 i1)
qed

lemma row_json_edges: "\<exists>m. row_json row = CHR 0x7B # m @ [CHR 0x7D]"
  by (simp add: row_json_def json_object_def)

definition rows_body :: "ch_row list \<Rightarrow> string" where
  "rows_body rows = join [nl] (map row_json rows)"

lemma join_edges:
  assumes "\<forall>p \<in> set ps. \<exists>m. p = a # m @ [b]" "ps \<noteq> []" "sep \<noteq> []"
  shows "\<exists>m. join sep ps = a # m @ [b]"
  using assms
proof (induction sep ps rule: join.induct)
  case (3 sep x y ys)
  then obtain m where "join sep (y # ys) = a # m @ [b]" by auto
  moreover from 3 obtain k where "x = a # k @ [b]" by auto
  ultimately show ?case by simp
qed auto

lemma trim_left_brace: "trim_left (CHR 0x7B # s) = CHR 0x7B # s"
  by (auto simp: ascii_space_def space2_def space3_def byte_def split: list.split)

lemma trim_left_rev_brace: "trim_left_rev (CHR 0x7D # s) = CHR 0x7D # s"
  by (auto simp: ascii_space_def space2_def space3_def byte_def split: list.split)

lemma trim_space_braces: "trim_space (CHR 0x7B # m @ [CHR 0x7D]) = CHR 0x7B # m @ [CHR 0x7D]"
proof -
  have "rev (CHR 0x7B # m @ [CHR 0x7D]) = CHR 0x7D # (rev m @ [CHR 0x7B])" by simp
  then show ?thesis
    unfolding trim_space_def trim_left_brace by (simp only: trim_left_rev_brace) simp
qed

lemma body_lines_rows:
  assumes "\<forall>row \<in> set rows. wire_row row" "rows \<noteq> []"
  shows "body_lines (rows_body rows) = map row_json rows"
proof -
  have "\<exists>m. rows_body rows = CHR 0x7B # m @ [CHR 0x7D]"
    unfolding rows_body_def using assms(2) row_json_edges by (intro join_edges) auto
  then have "trim_space (rows_body rows) = rows_body rows"
    using trim_space_braces by auto
  moreover have "\<forall>p \<in> set (map row_json rows). nl \<notin> set p"
    using assms(1) row_json_ctrl by (fastforce simp: byte_def)
  ultimately show ?thesis
    using assms(2) by (simp add: body_lines_def rows_body_def split_on_join)
qed

lemma decode_rows_body:
  assumes "\<forall>row \<in> set rows. wire_row row"
  shows "decode_lines decode_row (body_lines (rows_body rows)) = rows"
proof (cases "rows = []")
  case True
  then show ?thesis by (simp add: body_lines_def rows_body_def trim_space_def)
next
  case False
  have "decode_lines decode_row (map row_json rs) = rs" if "\<forall>row \<in> set rs. wire_row row" for rs
    using that
  proof (induction rs)
    case (Cons row rs)
    have "row_json row \<noteq> []" using row_json_edges [of row] by auto
    with Cons show ?case by (simp add: decode_row_json)
  qed simp
  with assms False show ?thesis by (simp add: body_lines_rows)
qed

text \<open>An environment whose ClickHouse answers every request with the same rows.\<close>

definition rows_reply :: "ch_row list \<Rightarrow> out_reply" where
  "rows_reply rows = \<lparr>rp_status = 200, rp_body = Inr (rows_body rows)\<rparr>"

definition fixed_env :: "(out_request \<Rightarrow> ch_row list) \<Rightarrow> time \<Rightarrow> unit env" where
  "fixed_env f t =
     \<lparr>env_http = (\<lambda>rq w. (Inr (rows_reply (f rq)), w)), env_now = (\<lambda>w. (t, w)),
      env_read_file = (\<lambda>p w. (Inl ''no such file'', w))\<rparr>"

definition sample_config :: config where
  "sample_config = \<lparr>clickhouse_url = ''http://ch:8123'', clickhouse_user = ''default'',
     clickhouse_password = [], listen_addr = '':8080''\<rparr>"

lemma query_fixed_env:
  assumes "parse_url (clickhouse_url cfg) = Inr x"
    and "\<forall>row \<in> set (f (clickhouse_request cfg (clickhouse_url cfg) q)). wire_row row"
  shows "query_clickhouse (fixed_env f t) cfg q [] w
       = (Inr (f (clickhouse_request cfg (clickhouse_url cfg) q)), w)"
  using assms decode_rows_body
  by (simp add: query_clickhouse_def clickhouse_exchange_def clickhouse_endpoint_def fixed_env_def
      rows_reply_def)

lemma query_escape_visible:
  assumes "c \<in> set (query_escape s)"
  shows "32 \<le> byte c \<and> byte c \<noteq> 127 \<and> c \<noteq> CHR ''#''"
proof -
  have un: "url_unreserved d \<Longrightarrow> 32 \<le> byte d \<and> byte d \<noteq> 127" for d
    by (auto simp: url_unreserved_def is_lower_def is_upper_def is_digit_def byte_def)
  from assms obtain d where "c \<in> set (escape_char d)"
    by (auto simp: query_escape_def)
  then have "url_unreserved c \<or> c = CHR ''+'' \<or> c = CHR ''%''"
    using upper_hex_unreserved [OF byte_nibbles(1) [of d]] upper_hex_unreserved [OF byte_nibbles(2) [of d]]
    by (auto simp: escape_char_def split: if_splits)
  then have "32 \<le> byte c \<and> byte c \<noteq> 127" using un by (auto simp: byte_def)
  with query_escape_chars [OF assms] show ?thesis by simp
qed

lemma set_join: "set (join sep ps) \<subseteq> set sep \<union> (\<Union>p \<in> set ps. set p)"
  by (induction sep ps rule: join.induct) auto

lemma url_encode_visible:
  assumes "c \<in> set (url_encode q)"
  shows "32 \<le> byte c \<and> byte c \<noteq> 127 \<and> c \<noteq> CHR ''#''"
proof -
  have "c \<in> {CHR ''&'', CHR ''=''} \<or> (\<exists>s. c \<in> set (query_escape s))"
    using assms set_join [of "''&''" "map (\<lambda>(k, v). query_escape k @ ''='' @ query_escape v) (sort_key fst q)"]
    by (fastforce simp: url_encode_def)
  then show ?thesis using query_escape_visible by (auto simp: byte_def)
qed

text \<open>A base URL with no query, no fragment and no control byte, as deployments configure it.\<close>

definition plain_base :: "string \<Rightarrow> bool" where
  "plain_base u \<longleftrightarrow>
     list_all (\<lambda>c. 32 \<le> byte c \<and> byte c \<noteq> 127 \<and> c \<noteq> CHR ''#'' \<and> c \<noteq> CHR ''?'') u"

definition bound_url :: "config \<Rightarrow> ch_params \<Rightarrow> string" where
  "bound_url cfg params = url_string (clickhouse_url cfg) (url_encode (bind_params params []))"

lemma url_encode_Nil [simp]: "url_encode [] = []"
  by (simp add: url_encode_def)

lemma parse_query_Nil [simp]: "parse_query [] = []"
  by (simp add: parse_query_def List.map_filter_def parse_pair_def)

lemma visible_no_ctrl:
  assumes "\<And>c. c \<in> set s \<Longrightarrow> 32 \<le> byte c \<and> byte c \<noteq> 127 \<and> P c"
  shows "\<not> list_ex (\<lambda>c. byte c < 32 \<or> byte c = 127) s"
  unfolding list_ex_iff using assms leD by blast

lemma parse_bound_url:
  assumes "plain_base u"
  shows "parse_url (url_string u (url_encode q)) = Inr (u, url_encode q)"
proof -
  have v: "32 \<le> byte c \<and> byte c \<noteq> 127 \<and> c \<noteq> CHR ''#'' \<and> c \<noteq> CHR ''?''" if "c \<in> set u" for c
    using assms that unfolding plain_base_def list_all_iff by blast
  have u: "\<not> list_ex (\<lambda>c. byte c < 32 \<or> byte c = 127) u" "CHR ''#'' \<notin> set u" "CHR ''?'' \<notin> set u"
    using v by (intro visible_no_ctrl, assumption) (use v in blast)+
  have e: "\<not> list_ex (\<lambda>c. byte c < 32 \<or> byte c = 127) (url_encode q)"
    using url_encode_visible by (intro visible_no_ctrl) blast
  have h: "CHR ''#'' \<notin> set (url_encode q)" using url_encode_visible by blast
  have "\<not> list_ex (\<lambda>c. byte c < 32 \<or> byte c = 127) (url_string u (url_encode q))"
    using u(1) e by (simp add: url_string_def list_ex_append) (simp add: byte_def)
  moreover have "CHR ''#'' \<notin> set (url_string u (url_encode q))"
    using u(2) h by (simp add: url_string_def)
  ultimately show ?thesis
    using u by (simp add: parse_url_def cut_plain) (simp add: url_string_def cut_plain cut_append)
qed

lemma clickhouse_endpoint_plain:
  assumes "plain_base (clickhouse_url cfg)"
  shows "clickhouse_endpoint cfg params = Inr (bound_url cfg params)"
    and "parse_url (bound_url cfg params) = Inr (clickhouse_url cfg, url_encode (bind_params params []))"
  using parse_bound_url [OF assms] parse_bound_url [OF assms, of "[]"]
  by (auto simp: clickhouse_endpoint_def bound_url_def bind_params_def url_string_def)

lemma query_plain_env:
  assumes "plain_base (clickhouse_url cfg)"
    and "\<forall>row \<in> set (f (clickhouse_request cfg (bound_url cfg params) q)). wire_row row"
  shows "query_clickhouse (fixed_env f t) cfg q params w
       = (Inr (f (clickhouse_request cfg (bound_url cfg params) q)), w)"
  using assms clickhouse_endpoint_plain [OF assms(1), of params] decode_rows_body
  by (simp add: query_clickhouse_def clickhouse_exchange_def fixed_env_def rows_reply_def)

lemma parameter_absent:
  assumes "\<forall>(k, v) \<in> set params. k \<noteq> j"
  shows "values_get (''param_'' @ j) (parse_query (url_encode (bind_params params []))) = []"
proof -
  have "parse_query (url_encode (bind_params params [])) = sort_key fst (bind_params params [])"
    using bind_params_keys_nonempty [of "[]" params] by (intro parse_url_encode) simp
  moreover have "map_of (sort_key fst (bind_params params [])) (''param_'' @ j) = None"
  proof -
    have "(''param_'' @ j, y) \<notin> set (bind_params params [])" for y
      using assms by (subst bind_params_other) auto
    then show ?thesis by (auto simp: map_of_eq_None_iff)
  qed
  ultimately show ?thesis by (simp add: values_get_def)
qed

text \<open>
  A ClickHouse over a fixed table that honours the two parameters of the newest-first queries, used
  to show that hypotheses about its answers can hold.
\<close>

definition request_param :: "string \<Rightarrow> out_request \<Rightarrow> string" where
  "request_param k rq =
     (case parse_url (or_url rq) of
        Inl _ \<Rightarrow> []
      | Inr (_, raw) \<Rightarrow> values_get (''param_'' @ k) (parse_query raw))"

definition table_rows :: "ch_row list \<Rightarrow> out_request \<Rightarrow> ch_row list" where
  "table_rows tbl rq =
     take (case atoi (request_param ''limit'' rq) of None \<Rightarrow> length tbl | Some n \<Rightarrow> nat n)
       (case atoi (request_param ''since'' rq) of
          None \<Rightarrow> tbl
        | Some s \<Rightarrow> filter (\<lambda>r. s \<le> ts_unix r) tbl)"

lemma request_param_bound:
  assumes "plain_base (clickhouse_url cfg)" "distinct (map fst params)"
  shows "request_param k (clickhouse_request cfg (bound_url cfg params) q)
       = (case map_of params k of None \<Rightarrow> [] | Some v \<Rightarrow> v)"
proof (cases "map_of params k")
  case None
  then have "\<forall>(j, v) \<in> set params. j \<noteq> k" by (force simp: map_of_eq_None_iff)
  with None show ?thesis
    using clickhouse_endpoint_plain(2) [OF assms(1), of params] parameter_absent [of params k]
    by (simp add: request_param_def clickhouse_request_def)
next
  case (Some v)
  with assms have "(k, v) \<in> set params" by (auto dest: map_of_SomeD)
  with Some show ?thesis
    using clickhouse_endpoint_plain(2) [OF assms(1), of params]
      bound_param_arrives [OF assms(2), of k v "[]"]
    by (simp add: request_param_def clickhouse_request_def)
qed

lemma sample_plain: "plain_base (clickhouse_url sample_config)"
  by (simp add: plain_base_def sample_config_def byte_def)

text \<open>A concrete row for the instances of the properties.\<close>

definition sample_row :: ch_row where
  "sample_row = zero_row\<lparr>ts_unix := 100, composition_id := ''c-1'', obj_namespace := ''team-b'',
     row_reason := ''Created''\<rparr>"

lemma sample_row_wire: "wire_row sample_row"
proof -
  have "utf8_fix s = s" if "s \<in> {[], ''c-1'', ''team-b'', ''Created''}" for s
    using that by (auto intro!: utf8_fix_ascii simp: byte_def)
  then show ?thesis
    by (simp add: wire_row_def valid_utf8_def sample_row_def zero_row_def int64_range_def)
qed

lemma sample_url: "\<exists>x. parse_url (clickhouse_url sample_config) = Inr x"
  by (simp add: parse_url_def sample_config_def byte_def split: prod.split)



text \<open>
  Every bound parameter reaches ClickHouse under its own name: in the query string of the
  endpoint the value found under \<open>param_<name>\<close> is the value that was bound, byte for byte,
  whatever bytes it holds and whatever else the base URL and the other parameters put there.
\<close>

theorem parameter_arrives:
  assumes "distinct (map fst params)" "(k, v) \<in> set params" "\<forall>(k, v) \<in> set q. k \<noteq> []"
  shows "values_get (''param_'' @ k) (parse_query (url_encode (bind_params params q))) = v"
  using assms by (rule bound_param_arrives)

theorem parameter_arrives_witness:
  "values_get (''param_'' @ ''limit'')
     (parse_query (url_encode (bind_params [(''limit'', ''5&x=1''), (''since'', ''7'')] [(''a'', ''b'')]))) = ''5&x=1''"
  by (rule parameter_arrives) simp_all

end
