(* ===== verification/Sql_Text.thy ===== *)
theory Sql_Text
  imports Go_Strings
begin

text \<open>
  How the multi-line query constants of the proxy are written in HOL, and the \<open>fmt.Sprintf\<close> of
  integers into one. A constant is the list of its lines; the apostrophe, which a HOL string
  literal cannot contain, is written as \<open>^\<close>, a character none of the queries uses.
\<close>

definition sql_char :: "char \<Rightarrow> char" where
  "sql_char c = (if c = CHR ''^'' then apostrophe else c)"

definition sql_text :: "string list \<Rightarrow> string" where
  "sql_text ls = join [nl] (map (map sql_char) ls)"

text \<open>
  \<open>fmt.Sprintf(format, ints...)\<close> for formats whose verbs are \<open>%d\<close> and \<open>%%\<close>; any other byte
  after a percent sign is outside what the program uses and is copied as it stands. A missing
  operand prints as \<open>fmt\<close> prints it.
\<close>

fun sprintf :: "string \<Rightarrow> int list \<Rightarrow> string" where
  "sprintf [] args = []"
| "sprintf [c] args = [c]"
| "sprintf (c # v # s) args =
     (if c \<noteq> CHR ''%'' then c # sprintf (v # s) args
      else if v = CHR ''d''
        then (case args of [] \<Rightarrow> ''%!d(MISSING)'' @ sprintf s [] | a # as \<Rightarrow> itoa a @ sprintf s as)
      else if v = CHR ''%'' then CHR ''%'' # sprintf s args
      else c # v # sprintf s args)"

lemma sprintf_plain: "CHR ''%'' \<notin> set p \<Longrightarrow> s \<noteq> [] \<Longrightarrow> sprintf (p @ s) args = p @ sprintf s args"
proof (induction p)
  case (Cons a p)
  then show ?case by (cases "p @ s") auto
qed simp

lemma sprintf_d [simp]: "sprintf (CHR ''%'' # CHR ''d'' # s) (a # as) = itoa a @ sprintf s as"
  by simp

section \<open>Taking a text apart\<close>

lemma join_append:
  "xs \<noteq> [] \<Longrightarrow> ys \<noteq> [] \<Longrightarrow> join sep (xs @ ys) = join sep xs @ sep @ join sep ys"
proof (induction xs)
  case (Cons x xs)
  then show ?case by (cases xs; cases ys) auto
qed simp

lemma join_snoc_split: "join sep (xs @ (a @ b) # ys) = join sep (xs @ [a]) @ join sep (b # ys)"
proof (cases "xs = []")
  case True
  then show ?thesis by (cases ys) simp_all
next
  case False
  then show ?thesis by (cases ys) (simp_all add: join_append)
qed

lemma sql_text_split: "sql_text (xs @ (a @ b) # ys) = sql_text (xs @ [a]) @ sql_text (b # ys)"
  by (simp add: sql_text_def join_snoc_split)

lemma sql_text_prefix: "sql_text ((a @ b) # ys) = map sql_char a @ sql_text (b # ys)"
  using sql_text_split [of "[]" a b ys] by (simp add: sql_text_def)

lemma set_join_subset: "set (join sep ps) \<subseteq> set sep \<union> (\<Union>p \<in> set ps. set p)"
  by (induction sep ps rule: join.induct) auto

lemma sql_text_chars:
  assumes "\<forall>l \<in> set ls. c \<notin> set l" "c \<noteq> nl" "c \<noteq> apostrophe"
  shows "c \<notin> set (sql_text ls)"
proof
  assume "c \<in> set (sql_text ls)"
  then have "c \<in> set [nl] \<union> (\<Union>p \<in> set (map (map sql_char) ls). set p)"
    using set_join_subset [of "[nl]" "map (map sql_char) ls"] unfolding sql_text_def by blast
  with assms show False by (auto simp: sql_char_def split: if_splits)
qed

lemma last_sql_text: "a \<noteq> [] \<Longrightarrow> last (sql_text (xs @ [a])) = sql_char (last a)"
  by (cases "xs = []") (simp_all add: sql_text_def join_append last_map)

lemma sql_text_no_match:
  assumes "b \<notin> set pre" "pre \<noteq> [] \<Longrightarrow> last pre \<noteq> a"
  shows "no_match (a # b # p) pre rest"
  using assms
proof (induction pre)
  case (Cons c cs)
  then show ?case by (cases cs) auto
qed simp

end
