(* ===== verification/Events_Query.thy ===== *)
theory Events_Query
  imports Clickhouse Ns_Scope Sql_Text
begin

text \<open>
  The query side of \<open>GET /events\<close> in \<open>main.go\<close>: the limit, the UUID check, the SQL template with its
  three optional predicates, the bound parameters, and the widening windows. The interfaces both
  REST endpoints fulfil, a limit parser and a scoped query builder, are locales here.
\<close>

section \<open>Limit and identifier\<close>

definition default_events_limit :: int where "default_events_limit = 200"

definition parse_limit :: "string \<Rightarrow> int" where
  "parse_limit raw =
     (if raw = [] then default_events_limit
      else (case atoi raw of
              None \<Rightarrow> default_events_limit
            | Some n \<Rightarrow>
                if n \<le> 0 then default_events_limit
                else if n > default_events_limit then default_events_limit
                else n))"

text \<open>\<open>^[0-9a-fA-F]{8}-[0-9a-fA-F]{4}-[0-9a-fA-F]{4}-[0-9a-fA-F]{4}-[0-9a-fA-F]{12}$\<close>\<close>

definition uuid_pattern :: "(char \<Rightarrow> bool) list" where
  "uuid_pattern =
     replicate 8 is_hex @ [\<lambda>c. c = CHR ''-''] @ replicate 4 is_hex @ [\<lambda>c. c = CHR ''-'']
     @ replicate 4 is_hex @ [\<lambda>c. c = CHR ''-''] @ replicate 4 is_hex @ [\<lambda>c. c = CHR ''-'']
     @ replicate 12 is_hex"

definition uuid_match :: "string \<Rightarrow> bool" where
  "uuid_match s = list_all2 (\<lambda>p c. p c) uuid_pattern s"

lemma atoi_Nil: "atoi [] = None"
  by (simp add: atoi_def atoi_body_def)

section \<open>The interfaces of the two REST endpoints\<close>

text \<open>A limit parser: always in range, exact on a decimal number in range, the cap otherwise.\<close>

locale limit_contract =
  fixes parse :: "string \<Rightarrow> int" and cap :: int
  assumes cap_range: "1 \<le> cap" "int64_range cap"
    and parse_range: "1 \<le> parse s \<and> parse s \<le> cap"
    and parse_exact: "atoi s = Some n \<Longrightarrow> 1 \<le> n \<Longrightarrow> n \<le> cap \<Longrightarrow> parse s = n"
    and parse_invalid: "atoi s = None \<Longrightarrow> parse s = cap"
    and parse_outside: "atoi s = Some n \<Longrightarrow> n < 1 \<or> cap < n \<Longrightarrow> parse s = cap"
begin

lemma parse_int64: "int64_range (parse s)"
  using parse_range [of s] cap_range by (auto simp: int64_range_def)

lemma parse_itoa: "int64_range n \<Longrightarrow> parse (itoa n) = (if 1 \<le> n \<and> n \<le> cap then n else cap)"
  using parse_exact [of "itoa n" n] parse_outside [of "itoa n" n] by (auto simp: atoi_itoa)

lemma parse_printed: "atoi (itoa (parse s)) = Some (parse s)"
  using parse_int64 by (rule atoi_itoa)

lemma parse_idem: "parse (itoa (parse s)) = parse s"
  using parse_range [of s] parse_int64 [of s] by (simp add: parse_itoa)

end

text \<open>
  A query builder: its SQL text is a function of which parameters are bound, never of their values,
  and the limit, the caller's namespaces and the window travel as bound parameters.
\<close>

locale scoped_query = limit_contract parse cap for parse :: "string \<Rightarrow> int" and cap :: int +
  fixes build :: "url_values \<Rightarrow> ns_scope option \<Rightarrow> int \<Rightarrow> (string \<times> ch_params) result"
  assumes build_text: "build q s t = Inr (sql, ps) \<Longrightarrow> build q' s' t' = Inr (sql', ps') \<Longrightarrow>
        map fst ps = map fst ps' \<Longrightarrow> sql = sql'"
    and build_keys: "build q s t = Inr (sql, ps) \<Longrightarrow> distinct (map fst ps)"
    and build_limit: "build q s t = Inr (sql, ps) \<Longrightarrow>
        map_of ps ''limit'' = Some (itoa (parse (values_get ''limit'' q)))"
    and build_scope: "build q s t = Inr (sql, ps) \<Longrightarrow>
        map_of ps ''namespaces'' = (if restricted s
          then Some (''['' @ join '','' (map quoted_ns (scope_list s)) @ '']'') else None)"
    and build_labels: "build q s t = Inr (sql, ps) \<Longrightarrow> restricted s \<Longrightarrow> list_all dns_label (scope_list s)"
    and build_since: "build q s t = Inr (sql, ps) \<Longrightarrow>
        map_of ps ''since'' = (if t > 0 then Some (itoa t) else None)"
begin

text \<open>What the server reads from the request that carries the query.\<close>

lemma sent_limit:
  assumes "build q s t = Inr (sql, ps)" "plain_base (clickhouse_url cfg)"
  shows "atoi (request_param ''limit'' (clickhouse_request cfg (bound_url cfg ps) sql))
       = Some (parse (values_get ''limit'' q))"
  using request_param_bound [OF assms(2) build_keys [OF assms(1)]] build_limit [OF assms(1)]
  by (simp add: parse_printed)

lemma sent_scope:
  assumes "build q s t = Inr (sql, ps)" "plain_base (clickhouse_url cfg)" "restricted s"
  shows "read_array_literal (request_param ''namespaces'' (clickhouse_request cfg (bound_url cfg ps) sql))
       = scope_list s"
  using request_param_bound [OF assms(2) build_keys [OF assms(1)]] build_scope [OF assms(1)] assms(3)
    read_array_literal_join [OF build_labels [OF assms(1,3)]]
  by simp

lemma sent_unscoped:
  assumes "build q s t = Inr (sql, ps)" "plain_base (clickhouse_url cfg)" "\<not> restricted s"
  shows "request_param ''namespaces'' (clickhouse_request cfg (bound_url cfg ps) sql) = []"
  using request_param_bound [OF assms(2) build_keys [OF assms(1)]] build_scope [OF assms(1)] assms(3)
  by simp

lemma sent_since:
  assumes "build q s t = Inr (sql, ps)" "plain_base (clickhouse_url cfg)" "int64_range t"
  shows "atoi (request_param ''since'' (clickhouse_request cfg (bound_url cfg ps) sql))
       = (if t > 0 then Some t else None)"
  using request_param_bound [OF assms(2) build_keys [OF assms(1)]] build_since [OF assms(1)] assms(3)
  by (simp add: atoi_itoa atoi_Nil)

text \<open>A server that honours the bound namespaces returns only what the scope allows.\<close>

lemma served_allowed:
  assumes "build q s t = Inr (sql, ps)" "plain_base (clickhouse_url cfg)"
    and "restricted s \<longrightarrow> (\<forall>r \<in> set rows. ns_of r \<in> set (read_array_literal
           (request_param ''namespaces'' (clickhouse_request cfg (bound_url cfg ps) sql))))"
  shows "\<forall>r \<in> set rows. allows s (ns_of r)"
  using assms(3) sent_scope [OF assms(1,2)] scope.permits_iff by auto

end

section \<open>The SQL template\<close>

definition composition_placeholder :: string where
  "composition_placeholder = ''/*COMPOSITION_PREDICATE*/''"

definition namespace_placeholder :: string where
  "namespace_placeholder = ''/*NAMESPACE_PREDICATE*/''"

definition window_placeholder :: string where
  "window_placeholder = ''/*WINDOW_PREDICATE*/''"

definition events_sql_template :: string where
  "events_sql_template = sql_text
    [''SELECT'',
     ''    toUnixTimestamp(Timestamp)                                                      AS ts_unix,'',
     ''    ifNull(LogAttributes[^krateo.io/composition-id^], ^^)                           AS composition_id,'',
     ''    ifNull(JSONExtractString(Body, ^object^, ^involvedObject^, ^apiVersion^), ^^)   AS obj_apiversion,'',
     ''    ifNull(JSONExtractString(Body, ^object^, ^involvedObject^, ^name^), ^^)         AS obj_name,'',
     ''    ifNull(JSONExtractString(Body, ^object^, ^involvedObject^, ^namespace^), ^^)    AS obj_namespace,'',
     ''    ifNull(JSONExtractString(Body, ^object^, ^involvedObject^, ^uid^), ^^)          AS obj_uid,'',
     ''    ifNull(JSONExtractString(Body, ^object^, ^involvedObject^, ^kind^), ^^)         AS obj_kind,'',
     ''    ifNull(JSONExtractString(Body, ^object^, ^reason^), ^^)                         AS reason,'',
     ''    ifNull(JSONExtractString(Body, ^object^, ^message^), ^^)                        AS message,'',
     ''    ifNull(JSONExtractString(Body, ^object^, ^type^), ^Normal^)                     AS type,'',
     ''    coalesce('',
     ''        nullIf(JSONExtractString(Body, ^object^, ^eventTime^), ^^),'',
     ''        nullIf(JSONExtractString(Body, ^object^, ^lastTimestamp^), ^^),'',
     ''        formatDateTime(toDateTime(Timestamp), ^%Y-%m-%dT%H:%i:%SZ^, ^UTC^)'',
     ''    )                                                                                AS event_time,'',
     ''    ifNull(JSONExtractString(Body, ^object^, ^source^, ^component^), ^^)            AS source_component'',
     ''FROM otel_logs'',
     ''WHERE ResourceAttributes[^telemetry.source^] = ^k8s-events^'',
     ''  AND JSONExtractString(Body, ^object^, ^reason^) != ^^/*COMPOSITION_PREDICATE*//*NAMESPACE_PREDICATE*//*WINDOW_PREDICATE*/'',
     ''ORDER BY Timestamp DESC'',
     ''LIMIT {limit:UInt32}'',
     ''FORMAT JSONEachRow'']"

definition composition_id_filter :: string where
  "composition_id_filter = sql_text
    ['''', ''  AND LogAttributes[^krateo.io/composition-id^] = {composition_id:String}'']"

definition namespace_filter :: string where
  "namespace_filter = sql_text
    ['''', ''  AND JSONExtractString(Body, ^object^, ^involvedObject^, ^namespace^) IN {namespaces:Array(String)}'']"

definition window_filter :: string where
  "window_filter = sql_text ['''', ''  AND Timestamp >= toDateTime64({since:Int64}, 9)'']"

section \<open>Building a query\<close>

definition build_events_query_window ::
  "url_values \<Rightarrow> ns_scope option \<Rightarrow> int \<Rightarrow> (string \<times> ch_params) result" where
  "build_events_query_window q scope since =
     (let params = [(''limit'', itoa (parse_limit (values_get ''limit'' q)))];
          cid = values_get ''composition_id'' q
      in if cid \<noteq> [] \<and> \<not> uuid_match cid then Inl ''composition_id must be a UUID''
         else
           let predicate = (if cid \<noteq> [] then composition_id_filter else []);
               params = (if cid \<noteq> [] then params @ [(''composition_id'', cid)] else params)
           in case (if restricted scope then map_sum id Some (clickhouse_array_param (scope_list scope))
                    else Inr None) of
                Inl e \<Rightarrow> Inl e
              | Inr arr \<Rightarrow>
                  let ns_predicate = (case arr of None \<Rightarrow> [] | Some _ \<Rightarrow> namespace_filter);
                      params = (case arr of None \<Rightarrow> params | Some a \<Rightarrow> params @ [(''namespaces'', a)]);
                      query = replace1 composition_placeholder predicate events_sql_template;
                      query = replace1 namespace_placeholder ns_predicate query;
                      window_predicate = (if since > 0 then window_filter else []);
                      params = (if since > 0 then params @ [(''since'', itoa since)] else params);
                      query = replace1 window_placeholder window_predicate query
                  in Inr (query, params))"

definition build_events_query :: "url_values \<Rightarrow> ns_scope option \<Rightarrow> (string \<times> ch_params) result" where
  "build_events_query q scope = build_events_query_window q scope 0"

section \<open>The widening windows\<close>

definition hour :: duration where "hour = 3600 * second"

definition events_windows :: "duration list" where
  "events_windows = [hour, 24 * hour, 0]"

definition window_since :: "time \<Rightarrow> duration \<Rightarrow> int" where
  "window_since now win = (if win > 0 then unix (now - win) else 0)"

fun query_windows ::
  "'w env \<Rightarrow> config \<Rightarrow> url_values \<Rightarrow> ns_scope option \<Rightarrow> time \<Rightarrow> duration list \<Rightarrow> 'w
     \<Rightarrow> ch_row list result \<times> 'w" where
  "query_windows env cfg q scope now [] w =
     (Inl ''eventsWindows must end with the unbounded window (0)'', w)"
| "query_windows env cfg q scope now (win # wins) w =
     (case build_events_query_window q scope (window_since now win) of
        Inl e \<Rightarrow> (Inl e, w)
      | Inr (query, params) \<Rightarrow>
          (case query_clickhouse env cfg query params w of
             (Inl e, w') \<Rightarrow> (Inl e, w')
           | (Inr rows, w') \<Rightarrow>
               if win = 0 \<or> int (length rows) \<ge> parse_limit (values_get ''limit'' q)
               then (Inr rows, w')
               else query_windows env cfg q scope now wins w'))"

definition query_events_windowed ::
  "'w env \<Rightarrow> config \<Rightarrow> url_values \<Rightarrow> ns_scope option \<Rightarrow> time \<Rightarrow> 'w \<Rightarrow> ch_row list result \<times> 'w" where
  "query_events_windowed env cfg q scope now w = query_windows env cfg q scope now events_windows w"

section \<open>The shape of the built query\<close>

definition events_select :: "string list" where
  "events_select =
    [''SELECT'',
     ''    toUnixTimestamp(Timestamp)                                                      AS ts_unix,'',
     ''    ifNull(LogAttributes[^krateo.io/composition-id^], ^^)                           AS composition_id,'',
     ''    ifNull(JSONExtractString(Body, ^object^, ^involvedObject^, ^apiVersion^), ^^)   AS obj_apiversion,'',
     ''    ifNull(JSONExtractString(Body, ^object^, ^involvedObject^, ^name^), ^^)         AS obj_name,'',
     ''    ifNull(JSONExtractString(Body, ^object^, ^involvedObject^, ^namespace^), ^^)    AS obj_namespace,'',
     ''    ifNull(JSONExtractString(Body, ^object^, ^involvedObject^, ^uid^), ^^)          AS obj_uid,'',
     ''    ifNull(JSONExtractString(Body, ^object^, ^involvedObject^, ^kind^), ^^)         AS obj_kind,'',
     ''    ifNull(JSONExtractString(Body, ^object^, ^reason^), ^^)                         AS reason,'',
     ''    ifNull(JSONExtractString(Body, ^object^, ^message^), ^^)                        AS message,'',
     ''    ifNull(JSONExtractString(Body, ^object^, ^type^), ^Normal^)                     AS type,'',
     ''    coalesce('',
     ''        nullIf(JSONExtractString(Body, ^object^, ^eventTime^), ^^),'',
     ''        nullIf(JSONExtractString(Body, ^object^, ^lastTimestamp^), ^^),'',
     ''        formatDateTime(toDateTime(Timestamp), ^%Y-%m-%dT%H:%i:%SZ^, ^UTC^)'',
     ''    )                                                                                AS event_time,'',
     ''    ifNull(JSONExtractString(Body, ^object^, ^source^, ^component^), ^^)            AS source_component'',
     ''FROM otel_logs'',
     ''WHERE ResourceAttributes[^telemetry.source^] = ^k8s-events^'']"

definition events_head :: string where
  "events_head = sql_text (events_select @ [''  AND JSONExtractString(Body, ^object^, ^reason^) != ^^''])"

definition events_tail :: string where
  "events_tail = sql_text
    ['''',
     ''ORDER BY Timestamp DESC'',
     ''LIMIT {limit:UInt32}'',
     ''FORMAT JSONEachRow'']"

lemma events_template_lines:
  "events_sql_template = sql_text (events_select @
     (''  AND JSONExtractString(Body, ^object^, ^reason^) != ^^'' @ composition_placeholder @ namespace_placeholder @ window_placeholder @ [])
     # [''ORDER BY Timestamp DESC'',
     ''LIMIT {limit:UInt32}'',
     ''FORMAT JSONEachRow''])"
  unfolding events_sql_template_def events_select_def composition_placeholder_def
    namespace_placeholder_def window_placeholder_def append_Cons append_Nil ..

lemma placeholder_chars:
  "map sql_char composition_placeholder = composition_placeholder"
  "map sql_char namespace_placeholder = namespace_placeholder"
  "map sql_char window_placeholder = window_placeholder"
  by (simp_all add: composition_placeholder_def namespace_placeholder_def window_placeholder_def
      sql_char_def)

lemma events_template_split:
  "events_sql_template = events_head @ composition_placeholder @ namespace_placeholder
     @ window_placeholder @ events_tail"
  unfolding events_template_lines append_assoc [symmetric] sql_text_split sql_text_prefix
  unfolding append_assoc sql_text_split sql_text_prefix map_append placeholder_chars
    events_head_def events_tail_def by (simp add: sql_text_def placeholder_chars)

lemma events_head_star: "CHR ''*'' \<notin> set events_head"
  unfolding events_head_def events_select_def
  by (intro sql_text_chars) simp_all

lemma events_head_last: "last events_head = apostrophe"
  unfolding events_head_def by (subst last_sql_text) (simp_all add: sql_char_def)

lemma events_head_clean:
  "no_match composition_placeholder events_head rest"
  "no_match namespace_placeholder events_head rest"
  "no_match window_placeholder events_head rest"
  unfolding composition_placeholder_def namespace_placeholder_def window_placeholder_def
  by (intro sql_text_no_match events_head_star; simp add: events_head_last)+

text \<open>The query text for each choice of the predicates.\<close>

definition events_sql :: "bool \<Rightarrow> bool \<Rightarrow> bool \<Rightarrow> string" where
  "events_sql by_composition scoped bounded =
     events_head @ (if by_composition then composition_id_filter else [])
     @ (if scoped then namespace_filter else []) @ (if bounded then window_filter else []) @ events_tail"

definition events_params :: "url_values \<Rightarrow> ns_scope option \<Rightarrow> int \<Rightarrow> ch_params" where
  "events_params q scope since =
     [(''limit'', itoa (parse_limit (values_get ''limit'' q)))]
     @ (if values_get ''composition_id'' q \<noteq> [] then [(''composition_id'', values_get ''composition_id'' q)] else [])
     @ (if restricted scope
        then [(''namespaces'', ''['' @ join '','' (map quoted_ns (scope_list scope)) @ '']'')] else [])
     @ (if since > 0 then [(''since'', itoa since)] else [])"

definition events_request_ok :: "url_values \<Rightarrow> ns_scope option \<Rightarrow> bool" where
  "events_request_ok q scope \<longleftrightarrow>
     (values_get ''composition_id'' q \<noteq> [] \<longrightarrow> uuid_match (values_get ''composition_id'' q))
     \<and> (restricted scope \<longrightarrow> list_all dns_label (scope_list scope))"

lemma filter_star:
  "CHR ''*'' \<notin> set composition_id_filter" "CHR ''*'' \<notin> set namespace_filter"
  "CHR ''*'' \<notin> set window_filter"
  unfolding composition_id_filter_def namespace_filter_def window_filter_def
  by (intro sql_text_chars; simp)+

lemma filter_last:
  "last composition_id_filter \<noteq> CHR ''/''" "last namespace_filter \<noteq> CHR ''/''"
  "composition_id_filter \<noteq> []" "namespace_filter \<noteq> []"
  unfolding composition_id_filter_def namespace_filter_def
  by (simp_all add: sql_text_def sql_char_def)

lemma head_filters_clean:
  fixes cp np :: bool
  defines "pre \<equiv> events_head @ (if cp then composition_id_filter else [])
      @ (if np then namespace_filter else [])"
  shows "no_match namespace_placeholder pre rest" "no_match window_placeholder pre rest"
proof -
  have "CHR ''*'' \<notin> set pre" using events_head_star filter_star by (simp add: pre_def)
  moreover have "last pre \<noteq> CHR ''/''"
    using events_head_last filter_last by (simp add: pre_def)
  ultimately show "no_match namespace_placeholder pre rest" "no_match window_placeholder pre rest"
    unfolding namespace_placeholder_def window_placeholder_def by (simp_all add: sql_text_no_match)
qed

lemma placeholders_nonempty [simp]:
  "composition_placeholder \<noteq> []" "namespace_placeholder \<noteq> []" "window_placeholder \<noteq> []"
  by (simp_all add: composition_placeholder_def namespace_placeholder_def window_placeholder_def)

lemma replace_all_predicates:
  "replace1 window_placeholder (if bounded then window_filter else [])
     (replace1 namespace_placeholder (if scoped then namespace_filter else [])
       (replace1 composition_placeholder (if by_composition then composition_id_filter else [])
         events_sql_template))
   = events_sql by_composition scoped bounded"
proof -
  let ?c = "if by_composition then composition_id_filter else []"
  let ?n = "if scoped then namespace_filter else []"
  let ?w = "if bounded then window_filter else []"
  have "replace1 composition_placeholder ?c events_sql_template
      = events_head @ ?c @ namespace_placeholder @ window_placeholder @ events_tail"
    unfolding events_template_split
    by (rule replace1_append) (simp_all only: events_head_clean placeholders_nonempty not_False_eq_True)
  moreover have "replace1 namespace_placeholder ?n
      ((events_head @ ?c) @ namespace_placeholder @ window_placeholder @ events_tail)
      = (events_head @ ?c) @ ?n @ window_placeholder @ events_tail"
    using head_filters_clean(1) [of by_composition False]
    by (intro replace1_append) simp_all
  moreover have "replace1 window_placeholder ?w
      ((events_head @ ?c @ ?n) @ window_placeholder @ events_tail)
      = (events_head @ ?c @ ?n) @ ?w @ events_tail"
    using head_filters_clean(2) [of by_composition scoped]
    by (intro replace1_append) simp_all
  ultimately show ?thesis by (simp only: events_sql_def append_assoc)
qed

lemma build_events_result:
  "events_request_ok q scope \<Longrightarrow>
     build_events_query_window q scope since
       = Inr (events_sql (values_get ''composition_id'' q \<noteq> []) (restricted scope) (since > 0),
              events_params q scope since)"
  using replace_all_predicates [of "since > 0" "restricted scope" "values_get ''composition_id'' q \<noteq> []"]
  by (auto simp: build_events_query_window_def events_request_ok_def events_params_def Let_def
      clickhouse_array_param_ok)

lemma build_events_error:
  assumes "\<not> events_request_ok q scope"
  shows "\<exists>e. build_events_query_window q scope since = Inl e"
proof (cases "values_get ''composition_id'' q \<noteq> [] \<and> \<not> uuid_match (values_get ''composition_id'' q)")
  case True
  then show ?thesis by (simp add: build_events_query_window_def Let_def)
next
  case False
  with assms have r: "restricted scope" "\<not> list_all dns_label (scope_list scope)"
    by (auto simp: events_request_ok_def)
  then obtain e where "clickhouse_array_param (scope_list scope) = Inl e"
    using clickhouse_array_param_iff [of "scope_list scope"] by (cases "clickhouse_array_param (scope_list scope)") auto
  with False r show ?thesis by (simp add: build_events_query_window_def Let_def)
qed

lemma build_events_iff: "is_ok (build_events_query_window q scope since) \<longleftrightarrow> events_request_ok q scope"
  using build_events_result [of q scope since] build_events_error [of q scope since]
  by (cases "events_request_ok q scope") auto

lemma events_params_distinct: "distinct (map fst (events_params q scope since))"
  by (simp add: events_params_def)

lemma parse_limit_contract:
  "1 \<le> parse_limit s \<and> parse_limit s \<le> default_events_limit"
  "atoi s = Some n \<Longrightarrow> 1 \<le> n \<Longrightarrow> n \<le> default_events_limit \<Longrightarrow> parse_limit s = n"
  "atoi s = None \<Longrightarrow> parse_limit s = default_events_limit"
  "atoi s = Some n \<Longrightarrow> n < 1 \<or> default_events_limit < n \<Longrightarrow> parse_limit s = default_events_limit"
  by (auto simp: parse_limit_def default_events_limit_def atoi_def atoi_body_def split: option.split)

lemma build_events_cases:
  assumes "build_events_query_window q s t = Inr (sql, ps)"
  shows "events_request_ok q s" "ps = events_params q s t"
    "sql = events_sql (values_get ''composition_id'' q \<noteq> []) (restricted s) (t > 0)"
proof -
  show ok: "events_request_ok q s"
    using build_events_iff [of q s t] assms by simp
  show "ps = events_params q s t"
    "sql = events_sql (values_get ''composition_id'' q \<noteq> []) (restricted s) (t > 0)"
    using build_events_result [OF ok, of t] assms by simp_all
qed

lemma events_params_keys:
  "map fst (events_params q s t) = ''limit'' # (if values_get ''composition_id'' q \<noteq> [] then [''composition_id''] else [])
     @ (if restricted s then [''namespaces''] else []) @ (if t > 0 then [''since''] else [])"
  by (simp add: events_params_def)

interpretation events_query: scoped_query parse_limit default_events_limit build_events_query_window
proof unfold_locales
  fix q s t sql ps q' s' t' sql' ps'
  assume b: "build_events_query_window q s t = Inr (sql, ps)"
    and b': "build_events_query_window q' s' t' = Inr (sql', ps')" and k: "map fst ps = map fst ps'"
  then show "sql = sql'"
    unfolding build_events_cases [OF b] build_events_cases [OF b'] events_params_keys
    by (auto split: if_splits)
next
  fix q s t sql ps
  assume b: "build_events_query_window q s t = Inr (sql, ps)"
  note c = build_events_cases [OF b]
  show "distinct (map fst ps)" by (simp add: c events_params_distinct)
  show "map_of ps ''limit'' = Some (itoa (parse_limit (values_get ''limit'' q)))"
    "map_of ps ''namespaces'' = (if restricted s
       then Some (''['' @ join '','' (map quoted_ns (scope_list s)) @ '']'') else None)"
    "map_of ps ''since'' = (if t > 0 then Some (itoa t) else None)"
    by (simp_all add: c events_params_def)
  show "restricted s \<Longrightarrow> list_all dns_label (scope_list s)"
    using c(1) by (simp add: events_request_ok_def)
next
  show "1 \<le> default_events_limit" "int64_range default_events_limit"
    by (simp_all add: default_events_limit_def int64_range_def)
qed (simp_all add: parse_limit_contract)

section \<open>Newest-first answers\<close>

definition newest_first :: "ch_row list \<Rightarrow> bool" where
  "newest_first tbl \<longleftrightarrow> sorted_wrt (\<lambda>a b. ts_unix b \<le> ts_unix a) tbl"

definition top_rows :: "ch_row list \<Rightarrow> nat \<Rightarrow> int \<Rightarrow> ch_row list" where
  "top_rows tbl n since = take n (filter (\<lambda>r. since > 0 \<longrightarrow> since \<le> ts_unix r) tbl)"

lemma top_rows_unbounded: "since \<le> 0 \<Longrightarrow> top_rows tbl n since = take n tbl"
  by (simp add: top_rows_def)

lemma newest_first_prefix:
  "newest_first tbl \<Longrightarrow> \<exists>rest. tbl = filter (\<lambda>r. since > 0 \<longrightarrow> since \<le> ts_unix r) tbl @ rest"
proof (induction tbl)
  case (Cons r tbl)
  show ?case
  proof (cases "since > 0 \<longrightarrow> since \<le> ts_unix r")
    case True
    from Cons obtain rest where "tbl = filter (\<lambda>r. since > 0 \<longrightarrow> since \<le> ts_unix r) tbl @ rest"
      by (auto simp: newest_first_def)
    with True show ?thesis by (intro exI [of _ rest]) simp
  next
    case False
    with Cons.prems have "\<forall>x \<in> set tbl. \<not> (since > 0 \<longrightarrow> since \<le> ts_unix x)"
      by (fastforce simp: newest_first_def)
    then have "filter (\<lambda>r. since > 0 \<longrightarrow> since \<le> ts_unix r) (r # tbl) = []"
      using False by (auto simp: filter_empty_conv)
    then show ?thesis by simp
  qed
qed simp

text \<open>A window that fills the limit already holds the newest rows of the whole table.\<close>

lemma full_window:
  assumes "newest_first tbl" "n \<le> length (top_rows tbl n since)"
  shows "top_rows tbl n since = take n tbl"
proof -
  obtain rest where "tbl = filter (\<lambda>r. since > 0 \<longrightarrow> since \<le> ts_unix r) tbl @ rest"
    using newest_first_prefix [OF assms(1)] by blast
  then have "take n tbl = take n (filter (\<lambda>r. since > 0 \<longrightarrow> since \<le> ts_unix r) tbl @ rest)" by simp
  with assms(2) show ?thesis by (simp add: top_rows_def)
qed

lemma window_since_range: "int64_range (window_since now win)"
  by (simp add: window_since_def unix_def i64_range) (simp add: int64_range_def)

text \<open>The answers of a server that evaluates the query over a fixed table.\<close>

definition serves_table ::
  "'w env \<Rightarrow> config \<Rightarrow> url_values \<Rightarrow> ns_scope option \<Rightarrow> ch_row list \<Rightarrow> bool" where
  "serves_table env cfg q scope tbl \<longleftrightarrow>
     (\<forall>since sql ps w. int64_range since \<longrightarrow> build_events_query_window q scope since = Inr (sql, ps) \<longrightarrow>
        (\<exists>w'. query_clickhouse env cfg sql ps w
           = (Inr (top_rows tbl (nat (parse_limit (values_get ''limit'' q))) since), w')))"

lemma table_env_serves:
  assumes "plain_base (clickhouse_url cfg)" "\<forall>r \<in> set tbl. wire_row r"
  shows "serves_table (fixed_env (table_rows tbl) t) cfg q scope tbl"
  unfolding serves_table_def
proof (intro allI impI)
  fix since sql ps w
  assume r: "int64_range since" and b: "build_events_query_window q scope since = Inr (sql, ps)"
  let ?rq = "clickhouse_request cfg (bound_url cfg ps) sql"
  have "table_rows tbl ?rq = top_rows tbl (nat (parse_limit (values_get ''limit'' q))) since"
    using events_query.sent_limit [OF b assms(1)] events_query.sent_since [OF b assms(1) r]
    by (simp add: table_rows_def top_rows_def)
  moreover have "\<forall>row \<in> set (table_rows tbl ?rq). wire_row row"
    using assms(2) by (auto simp: table_rows_def split: option.splits dest: in_set_takeD)
  ultimately show "\<exists>w'. query_clickhouse (fixed_env (table_rows tbl) t) cfg sql ps w
      = (Inr (top_rows tbl (nat (parse_limit (values_get ''limit'' q))) since), w')"
    using query_plain_env [OF assms(1), where f = "table_rows tbl" and params = ps and q = sql and t = t and w = w]
    by (intro exI [of _ w]) simp
qed

lemma query_windows_table:
  assumes "serves_table env cfg q scope tbl" "newest_first tbl" "events_request_ok q scope"
    and "wins \<noteq> []" "last wins = 0"
  shows "\<exists>w'. query_windows env cfg q scope now wins w
       = (Inr (take (nat (parse_limit (values_get ''limit'' q))) tbl), w')"
  using assms(4,5)
proof (induction wins arbitrary: w)
  case (Cons win wins)
  let ?n = "nat (parse_limit (values_get ''limit'' q))"
  let ?since = "window_since now win"
  obtain sql ps where b: "build_events_query_window q scope ?since = Inr (sql, ps)"
    using build_events_result [OF assms(3)] by blast
  obtain w' where a: "query_clickhouse env cfg sql ps w = (Inr (top_rows tbl ?n ?since), w')"
    using assms(1) b window_since_range unfolding serves_table_def by blast
  have pos: "1 \<le> parse_limit (values_get ''limit'' q)" using parse_limit_contract(1) by blast
  consider (unbounded) "win = 0" | (full) "win \<noteq> 0" "?n \<le> length (top_rows tbl ?n ?since)"
    | (more) "win \<noteq> 0" "\<not> ?n \<le> length (top_rows tbl ?n ?since)" by blast
  then show ?case
  proof cases
    case unbounded
    then have "?since = 0" by (simp add: window_since_def)
    with a b unbounded show ?thesis by (simp add: top_rows_unbounded)
  next
    case full
    with full_window [OF assms(2) full(2)] a b pos show ?thesis by simp
  next
    case more
    with Cons.prems have "wins \<noteq> []" "last wins = 0" by (auto split: if_splits)
    moreover have "\<not> parse_limit (values_get ''limit'' q) \<le> int (length (top_rows tbl ?n ?since))"
      using more(2) pos by linarith
    ultimately show ?thesis using Cons.IH [of w'] a b more(1) by simp
  qed
qed simp

section \<open>Properties of the queries\<close>

text \<open>
  C25: answering newest window first changes nothing but the cost: against a table that does not
  change during the request, the rows \<open>queryEventsWindowed\<close> returns are exactly those of the
  unbounded query, the newest ones up to the limit, whatever the clock says and however few rows
  the narrow windows hold; the error of the exhausted window list is never returned.
\<close>

theorem windowed_is_unbounded:
  assumes "events_request_ok q scope" "newest_first tbl" "serves_table env cfg q scope tbl"
  shows "\<exists>w'. query_events_windowed env cfg q scope now w
       = (Inr (take (nat (parse_limit (values_get ''limit'' q))) tbl), w')"
  unfolding query_events_windowed_def
  by (rule query_windows_table [OF assms(3,2,1)]) (simp_all add: events_windows_def)

theorem windowed_is_unbounded_witness:
  "\<exists>w'. query_events_windowed (fixed_env (table_rows [sample_row, sample_row\<lparr>ts_unix := 7\<rparr>]) 0) sample_config
      [(''limit'', ''2'')] None (3650 * second) () = (Inr [sample_row, sample_row\<lparr>ts_unix := 7\<rparr>], w')"
proof -
  let ?tbl = "[sample_row, sample_row\<lparr>ts_unix := 7\<rparr>]"
  have "\<forall>r \<in> set ?tbl. wire_row r"
    using sample_row_wire by (simp add: wire_row_def int64_range_def)
  then have s: "serves_table (fixed_env (table_rows ?tbl) 0) sample_config [(''limit'', ''2'')] None ?tbl"
    by (intro table_env_serves sample_plain)
  have n: "newest_first ?tbl" by (simp add: newest_first_def sample_row_def)
  have ok: "events_request_ok [(''limit'', ''2'')] None"
    by (simp add: events_request_ok_def values_get_def)
  have "itoa 2 = ''2''" by (simp add: itoa_def dec_digits.simps char_of_eq_iff)
  then have "parse_limit ''2'' = 2"
    using events_query.parse_itoa [of 2] by (simp add: int64_range_def default_events_limit_def)
  then show ?thesis
    using windowed_is_unbounded [OF ok n s, of "3650 * second" "()"] by (simp add: values_get_def)
qed

text \<open>
  The SQL text of an accepted \<open>/events\<close> query is one of eight fixed texts, chosen by whether a
  composition id was given, whether the caller is restricted and whether a window applies: no byte
  of the request or of the scope ever reaches the text.
\<close>

theorem events_text_fixed:
  assumes "build_events_query_window q scope since = Inr (sql, params)"
  shows "sql = events_sql (values_get ''composition_id'' q \<noteq> []) (restricted scope) (since > 0)"
  using build_events_cases(3) [OF assms] .

definition sample_restricted :: "ns_scope option" where
  "sample_restricted = Some \<lparr>allow_all = False, namespaces = [''team-a'', ''b'']\<rparr>"

lemma sample_restricted_labels: "list_all dns_label (scope_list sample_restricted)" "restricted sample_restricted"
  by (simp_all add: sample_restricted_def dns_label_def label_edge_def label_inner_def is_lower_def byte_def)

theorem events_text_fixed_witness:
  "fst (projr (build_events_query_window [(''limit'', ''1; DROP TABLE'')] sample_restricted 5))
     = events_sql False True True"
proof -
  have "events_request_ok [(''limit'', ''1; DROP TABLE'')] sample_restricted"
    by (simp add: events_request_ok_def values_get_def sample_restricted_labels)
  from build_events_result [OF this, of 5]
  obtain sql ps where b: "build_events_query_window [(''limit'', ''1; DROP TABLE'')] sample_restricted 5
      = Inr (sql, ps)" by blast
  from events_text_fixed [OF b] b show ?thesis
    by (simp add: values_get_def sample_restricted_labels)
qed

text \<open>
  C26: what ClickHouse reads from the bound parameters is what the request and the scope say: the
  limit it gets is between 1 and 200 and is the requested one when that lies in the range, a
  restricted caller's namespace set arrives as exactly the list of the scope, an unrestricted
  caller's request carries no set, and the composition id, when given, arrives unchanged and is a UUID.
\<close>

theorem events_values_bound:
  assumes "build_events_query_window q scope since = Inr (sql, params)" "plain_base (clickhouse_url cfg)"
  shows "(let arrived = (\<lambda>k. request_param k (clickhouse_request cfg (bound_url cfg params) sql)) in
      (\<exists>n. atoi (arrived ''limit'') = Some n \<and> 1 \<le> n \<and> n \<le> default_events_limit
        \<and> (\<forall>k. atoi (values_get ''limit'' q) = Some k \<longrightarrow> 1 \<le> k \<longrightarrow> k \<le> default_events_limit \<longrightarrow> n = k))
      \<and> (if restricted scope then read_array_literal (arrived ''namespaces'') = scope_list scope
         else arrived ''namespaces'' = [])
      \<and> arrived ''composition_id'' = values_get ''composition_id'' q
      \<and> (values_get ''composition_id'' q \<noteq> [] \<longrightarrow> uuid_match (values_get ''composition_id'' q)))"
proof -
  note b = build_events_cases [OF assms(1)]
  have "map_of params ''composition_id''
      = (if values_get ''composition_id'' q \<noteq> [] then Some (values_get ''composition_id'' q) else None)"
    by (simp add: b(2) events_params_def)
  then have "request_param ''composition_id'' (clickhouse_request cfg (bound_url cfg params) sql)
      = values_get ''composition_id'' q"
    using request_param_bound [OF assms(2) events_query.build_keys [OF assms(1)]] by simp
  then show ?thesis
    using events_query.sent_limit [OF assms] events_query.sent_scope [OF assms]
      events_query.sent_unscoped [OF assms] b(1) parse_limit_contract
    by (auto simp: events_request_ok_def Let_def)
qed

theorem events_values_bound_witness:
  "\<exists>sql params. build_events_query_window [(''limit'', ''7'')] sample_restricted 0 = Inr (sql, params)
     \<and> read_array_literal (request_param ''namespaces''
         (clickhouse_request sample_config (bound_url sample_config params) sql)) = [''team-a'', ''b'']"
proof -
  have "events_request_ok [(''limit'', ''7'')] sample_restricted"
    by (simp add: events_request_ok_def values_get_def sample_restricted_labels)
  from build_events_result [OF this, of 0]
  obtain sql ps where b: "build_events_query_window [(''limit'', ''7'')] sample_restricted 0 = Inr (sql, ps)"
    by blast
  from events_values_bound [OF b sample_plain] show ?thesis
    using b sample_restricted_labels(2) by (auto simp: Let_def sample_restricted_def)
qed

text \<open>
  C27: a request is refused exactly when it carries a composition id that is not a UUID or the scope
  holds a name that is not a DNS label; the first check, made with the unbounded query, decides it
  for every window.
\<close>

theorem events_refusal:
  "(is_ok (build_events_query q scope) \<longleftrightarrow>
      (values_get ''composition_id'' q = [] \<or> uuid_match (values_get ''composition_id'' q))
      \<and> (if restricted scope then list_all dns_label (scope_list scope) else True))
   \<and> (is_ok (build_events_query_window q scope since) \<longleftrightarrow> is_ok (build_events_query q scope))"
  using build_events_iff [of q scope] by (auto simp: build_events_query_def events_request_ok_def)

end
