(* ===== verification/Audit_Log.thy ===== *)
theory Audit_Log
  imports Events_Query
begin

text \<open>
  The query side of \<open>GET /audit\<close> in \<open>audit.go\<close>: the record, its limit, its SQL template and
  bound parameters, the ClickHouse exchange and the decoding of the rows. It fulfils the same query
  interface as \<open>/events\<close>.
\<close>

section \<open>AuditRecord\<close>

record audit_record =
  ar_timestamp :: string
  ar_user :: string
  ar_roles :: string
  ar_action :: string
  ar_verb :: string
  ar_resource_group :: string
  ar_resource_version :: string
  ar_resource :: string
  ar_resource_name :: string
  ar_namespace :: string
  ar_outcome :: string
  ar_status_code :: string
  ar_message :: string
  ar_trace_id :: string
  ar_session_id :: string

definition zero_audit :: audit_record where
  "zero_audit = \<lparr>ar_timestamp = [], ar_user = [], ar_roles = [], ar_action = [], ar_verb = [],
     ar_resource_group = [], ar_resource_version = [], ar_resource = [], ar_resource_name = [],
     ar_namespace = [], ar_outcome = [], ar_status_code = [],
     ar_message = [], ar_trace_id = [], ar_session_id = []\<rparr>"

definition audit_fields :: "audit_record field list" where
  "audit_fields =
     [(''timestamp'', set_string (\<lambda>s r. r\<lparr>ar_timestamp := s\<rparr>)),
      (''user'', set_string (\<lambda>s r. r\<lparr>ar_user := s\<rparr>)),
      (''roles'', set_string (\<lambda>s r. r\<lparr>ar_roles := s\<rparr>)),
      (''action'', set_string (\<lambda>s r. r\<lparr>ar_action := s\<rparr>)),
      (''verb'', set_string (\<lambda>s r. r\<lparr>ar_verb := s\<rparr>)),
      (''resourceGroup'', set_string (\<lambda>s r. r\<lparr>ar_resource_group := s\<rparr>)),
      (''resourceVersion'', set_string (\<lambda>s r. r\<lparr>ar_resource_version := s\<rparr>)),
      (''resource'', set_string (\<lambda>s r. r\<lparr>ar_resource := s\<rparr>)),
      (''resourceName'', set_string (\<lambda>s r. r\<lparr>ar_resource_name := s\<rparr>)),
      (''namespace'', set_string (\<lambda>s r. r\<lparr>ar_namespace := s\<rparr>)),
      (''outcome'', set_string (\<lambda>s r. r\<lparr>ar_outcome := s\<rparr>)),
      (''statusCode'', set_string (\<lambda>s r. r\<lparr>ar_status_code := s\<rparr>)),
      (''message'', set_string (\<lambda>s r. r\<lparr>ar_message := s\<rparr>)),
      (''traceId'', set_string (\<lambda>s r. r\<lparr>ar_trace_id := s\<rparr>)),
      (''sessionId'', set_string (\<lambda>s r. r\<lparr>ar_session_id := s\<rparr>))]"

text \<open>\<open>json.Marshal\<close> with \<open>omitempty\<close>: an empty optional string leaves its member out.\<close>

definition optional_member :: "string \<Rightarrow> string \<Rightarrow> (string \<times> string) list" where
  "optional_member k v = (if v = [] then [] else [(k, json_string v)])"

definition audit_json :: "audit_record \<Rightarrow> string" where
  "audit_json r =
     json_object
       ([(''timestamp'', json_string (ar_timestamp r))]
        @ [(''user'', json_string (ar_user r))]
        @ optional_member ''roles'' (ar_roles r)
        @ [(''action'', json_string (ar_action r))]
        @ optional_member ''verb'' (ar_verb r)
        @ optional_member ''resourceGroup'' (ar_resource_group r)
        @ optional_member ''resourceVersion'' (ar_resource_version r)
        @ optional_member ''resource'' (ar_resource r)
        @ optional_member ''resourceName'' (ar_resource_name r)
        @ [(''namespace'', json_string (ar_namespace r))]
        @ [(''outcome'', json_string (ar_outcome r))]
        @ optional_member ''statusCode'' (ar_status_code r)
        @ optional_member ''message'' (ar_message r)
        @ optional_member ''traceId'' (ar_trace_id r)
        @ optional_member ''sessionId'' (ar_session_id r))"

section \<open>The query\<close>

definition default_audit_limit :: int where "default_audit_limit = 200"

definition parse_audit_limit :: "string \<Rightarrow> int" where
  "parse_audit_limit raw =
     (if raw = [] then default_audit_limit
      else (case atoi raw of
              None \<Rightarrow> default_audit_limit
            | Some n \<Rightarrow> if n \<le> 0 \<or> n > default_audit_limit then default_audit_limit else n))"

definition audit_namespace_placeholder :: string where
  "audit_namespace_placeholder = ''/*NAMESPACE_PREDICATE*/''"

definition audit_window_placeholder :: string where
  "audit_window_placeholder = ''/*WINDOW_PREDICATE*/''"

definition audit_sql_template :: string where
  "audit_sql_template = sql_text
    [''SELECT'',
     ''    formatDateTime(toDateTime(Timestamp), ^%Y-%m-%dT%H:%i:%SZ^, ^UTC^)        AS timestamp,'',
     ''    ifNull(nullIf(LogAttributes[^user.name^], ^^), LogAttributes[^enduser.id^]) AS user,'',
     ''    ifNull(LogAttributes[^user.roles^], ^^)                                   AS roles,'',
     ''    ifNull(LogAttributes[^krateo.action^], ^^)                                AS action,'',
     ''    ifNull(LogAttributes[^http.request.method^], ^^)                          AS verb,'',
     ''    ifNull(LogAttributes[^k8s.resource.group^], ^^)                           AS resource_group,'',
     ''    ifNull(LogAttributes[^k8s.resource.version^], ^^)                         AS resource_version,'',
     ''    ifNull(LogAttributes[^k8s.resource.resource^], ^^)                        AS resource,'',
     ''    ifNull(LogAttributes[^k8s.resource.name^], ^^)                            AS resource_name,'',
     ''    ifNull(LogAttributes[^k8s.namespace.name^], ^^)                           AS namespace,'',
     ''    ifNull(LogAttributes[^outcome^], ^^)                                      AS outcome,'',
     ''    ifNull(LogAttributes[^http.response.status_code^], ^^)                    AS status_code,'',
     ''    Body                                                                      AS message,'',
     ''    TraceId                                                                   AS trace_id,'',
     ''    ifNull(LogAttributes[^session.id^], ^^)                                   AS session_id'',
     ''FROM krateo_audit'',
     ''WHERE LogAttributes[^event.name^] = ^audit^/*NAMESPACE_PREDICATE*//*WINDOW_PREDICATE*/'',
     ''ORDER BY Timestamp DESC'',
     ''LIMIT {limit:UInt32}'',
     ''FORMAT JSONEachRow'']"

definition audit_namespace_filter :: string where
  "audit_namespace_filter = sql_text
    ['''', ''  AND LogAttributes[^k8s.namespace.name^] IN {namespaces:Array(String)}'']"

definition audit_window_filter :: string where
  "audit_window_filter = sql_text ['''', ''  AND Timestamp >= toDateTime64({since:Int64}, 9)'']"

definition build_audit_query ::
  "url_values \<Rightarrow> ns_scope option \<Rightarrow> int \<Rightarrow> (string \<times> ch_params) result" where
  "build_audit_query q scope since =
     (let params = [(''limit'', itoa (parse_audit_limit (values_get ''limit'' q)))]
      in case (if restricted scope then map_sum id Some (clickhouse_array_param (scope_list scope))
               else Inr None) of
           Inl e \<Rightarrow> Inl e
         | Inr arr \<Rightarrow>
             let ns_predicate = (case arr of None \<Rightarrow> [] | Some _ \<Rightarrow> audit_namespace_filter);
                 params = (case arr of None \<Rightarrow> params | Some a \<Rightarrow> params @ [(''namespaces'', a)]);
                 window_predicate = (if since > 0 then audit_window_filter else []);
                 params = (if since > 0 then params @ [(''since'', itoa since)] else params);
                 query = replace1 audit_namespace_placeholder ns_predicate audit_sql_template;
                 query = replace1 audit_window_placeholder window_predicate query
             in Inr (query, params))"

section \<open>The exchange\<close>

definition decode_audit :: "string \<Rightarrow> audit_record result" where
  "decode_audit line = unmarshal audit_fields line zero_audit"

definition query_audit_records ::
  "'w env \<Rightarrow> config \<Rightarrow> string \<Rightarrow> ch_params \<Rightarrow> 'w \<Rightarrow> audit_record list result \<times> 'w" where
  "query_audit_records env cfg query params w =
     (case clickhouse_exchange env cfg query params w of
        (Inl e, w') \<Rightarrow> (Inl e, w')
      | (Inr body, w') \<Rightarrow> (Inr (decode_lines decode_audit (body_lines body)), w'))"

section \<open>The shape of the built query\<close>

definition audit_select :: "string list" where
  "audit_select =
    [''SELECT'',
     ''    formatDateTime(toDateTime(Timestamp), ^%Y-%m-%dT%H:%i:%SZ^, ^UTC^)        AS timestamp,'',
     ''    ifNull(nullIf(LogAttributes[^user.name^], ^^), LogAttributes[^enduser.id^]) AS user,'',
     ''    ifNull(LogAttributes[^user.roles^], ^^)                                   AS roles,'',
     ''    ifNull(LogAttributes[^krateo.action^], ^^)                                AS action,'',
     ''    ifNull(LogAttributes[^http.request.method^], ^^)                          AS verb,'',
     ''    ifNull(LogAttributes[^k8s.resource.group^], ^^)                           AS resource_group,'',
     ''    ifNull(LogAttributes[^k8s.resource.version^], ^^)                         AS resource_version,'',
     ''    ifNull(LogAttributes[^k8s.resource.resource^], ^^)                        AS resource,'',
     ''    ifNull(LogAttributes[^k8s.resource.name^], ^^)                            AS resource_name,'',
     ''    ifNull(LogAttributes[^k8s.namespace.name^], ^^)                           AS namespace,'',
     ''    ifNull(LogAttributes[^outcome^], ^^)                                      AS outcome,'',
     ''    ifNull(LogAttributes[^http.response.status_code^], ^^)                    AS status_code,'',
     ''    Body                                                                      AS message,'',
     ''    TraceId                                                                   AS trace_id,'',
     ''    ifNull(LogAttributes[^session.id^], ^^)                                   AS session_id'',
     ''FROM krateo_audit'']"

definition audit_head :: string where
  "audit_head = sql_text (audit_select @ [''WHERE LogAttributes[^event.name^] = ^audit^''])"

definition audit_tail :: string where
  "audit_tail = sql_text
    ['''',
     ''ORDER BY Timestamp DESC'',
     ''LIMIT {limit:UInt32}'',
     ''FORMAT JSONEachRow'']"

lemma audit_template_lines:
  "audit_sql_template = sql_text (audit_select @
     (''WHERE LogAttributes[^event.name^] = ^audit^'' @ audit_namespace_placeholder @ audit_window_placeholder @ [])
     # [''ORDER BY Timestamp DESC'',
     ''LIMIT {limit:UInt32}'',
     ''FORMAT JSONEachRow''])"
  unfolding audit_sql_template_def audit_select_def audit_namespace_placeholder_def
    audit_window_placeholder_def append_Cons append_Nil ..

lemma audit_template_split:
  "audit_sql_template = audit_head @ audit_namespace_placeholder @ audit_window_placeholder @ audit_tail"
proof -
  have "map sql_char audit_namespace_placeholder = audit_namespace_placeholder"
    "map sql_char audit_window_placeholder = audit_window_placeholder"
    by (simp_all add: audit_namespace_placeholder_def audit_window_placeholder_def sql_char_def)
  then show ?thesis
    unfolding audit_template_lines append_assoc [symmetric] sql_text_split sql_text_prefix
    unfolding append_assoc sql_text_split sql_text_prefix map_append audit_head_def audit_tail_def
    by (simp add: sql_text_def)
qed

definition audit_sql :: "bool \<Rightarrow> bool \<Rightarrow> string" where
  "audit_sql scoped bounded =
     audit_head @ (if scoped then audit_namespace_filter else [])
     @ (if bounded then audit_window_filter else []) @ audit_tail"

definition audit_params :: "url_values \<Rightarrow> ns_scope option \<Rightarrow> int \<Rightarrow> ch_params" where
  "audit_params q scope since =
     [(''limit'', itoa (parse_audit_limit (values_get ''limit'' q)))]
     @ (if restricted scope
        then [(''namespaces'', ''['' @ join '','' (map quoted_ns (scope_list scope)) @ '']'')] else [])
     @ (if since > 0 then [(''since'', itoa since)] else [])"

lemma audit_head_clean:
  fixes np :: bool
  defines "pre \<equiv> audit_head @ (if np then audit_namespace_filter else [])"
  shows "no_match audit_namespace_placeholder pre rest" "no_match audit_window_placeholder pre rest"
proof -
  have "CHR ''*'' \<notin> set audit_head"
    unfolding audit_head_def audit_select_def by (intro sql_text_chars) simp_all
  moreover have "CHR ''*'' \<notin> set audit_namespace_filter"
    unfolding audit_namespace_filter_def by (intro sql_text_chars) simp_all
  ultimately have "CHR ''*'' \<notin> set pre" by (simp add: pre_def)
  moreover have "last audit_head = apostrophe"
    unfolding audit_head_def by (subst last_sql_text) (simp_all add: sql_char_def)
  then have "last pre \<noteq> CHR ''/''"
    by (simp add: pre_def audit_namespace_filter_def sql_text_def sql_char_def)
  ultimately show "no_match audit_namespace_placeholder pre rest" "no_match audit_window_placeholder pre rest"
    unfolding audit_namespace_placeholder_def audit_window_placeholder_def
    by (simp_all add: sql_text_no_match)
qed

lemma replace_audit_predicates:
  "replace1 audit_window_placeholder (if bounded then audit_window_filter else [])
     (replace1 audit_namespace_placeholder (if scoped then audit_namespace_filter else [])
       audit_sql_template) = audit_sql scoped bounded"
proof -
  let ?n = "if scoped then audit_namespace_filter else []"
  let ?w = "if bounded then audit_window_filter else []"
  have ne: "audit_namespace_placeholder \<noteq> []" "audit_window_placeholder \<noteq> []"
    by (simp_all add: audit_namespace_placeholder_def audit_window_placeholder_def)
  have "replace1 audit_namespace_placeholder ?n audit_sql_template
      = audit_head @ ?n @ audit_window_placeholder @ audit_tail"
    unfolding audit_template_split
    using audit_head_clean(1) [of False] ne by (intro replace1_append) simp_all
  moreover have "replace1 audit_window_placeholder ?w
      ((audit_head @ ?n) @ audit_window_placeholder @ audit_tail) = (audit_head @ ?n) @ ?w @ audit_tail"
    using audit_head_clean(2) [of scoped] ne by (intro replace1_append) simp_all
  ultimately show ?thesis by (simp only: audit_sql_def append_assoc)
qed

lemma build_audit_result:
  "restricted scope \<longrightarrow> list_all dns_label (scope_list scope) \<Longrightarrow>
     build_audit_query q scope since
       = Inr (audit_sql (restricted scope) (since > 0), audit_params q scope since)"
  using replace_audit_predicates [of "since > 0" "restricted scope"]
  by (auto simp: build_audit_query_def audit_params_def Let_def clickhouse_array_param_ok)

lemma build_audit_cases:
  assumes "build_audit_query q s t = Inr (sql, ps)"
  shows "restricted s \<longrightarrow> list_all dns_label (scope_list s)" "ps = audit_params q s t"
    "sql = audit_sql (restricted s) (t > 0)"
proof -
  show ok: "restricted s \<longrightarrow> list_all dns_label (scope_list s)"
  proof
    assume r: "restricted s"
    show "list_all dns_label (scope_list s)"
    proof (rule ccontr)
      assume "\<not> list_all dns_label (scope_list s)"
      then obtain e where "clickhouse_array_param (scope_list s) = Inl e"
        using clickhouse_array_param_iff [of "scope_list s"] by (cases "clickhouse_array_param (scope_list s)") auto
      with r assms show False by (simp add: build_audit_query_def Let_def)
    qed
  qed
  show "ps = audit_params q s t" "sql = audit_sql (restricted s) (t > 0)"
    using build_audit_result [OF ok, of q t] assms by simp_all
qed

lemma parse_audit_limit_contract:
  "1 \<le> parse_audit_limit s \<and> parse_audit_limit s \<le> default_audit_limit"
  "atoi s = Some n \<Longrightarrow> 1 \<le> n \<Longrightarrow> n \<le> default_audit_limit \<Longrightarrow> parse_audit_limit s = n"
  "atoi s = None \<Longrightarrow> parse_audit_limit s = default_audit_limit"
  "atoi s = Some n \<Longrightarrow> n < 1 \<or> default_audit_limit < n \<Longrightarrow> parse_audit_limit s = default_audit_limit"
  by (auto simp: parse_audit_limit_def default_audit_limit_def atoi_def atoi_body_def split: option.split)

interpretation audit_query: scoped_query parse_audit_limit default_audit_limit build_audit_query
proof unfold_locales
  fix q s t sql ps q' s' t' sql' ps'
  assume b: "build_audit_query q s t = Inr (sql, ps)"
    and b': "build_audit_query q' s' t' = Inr (sql', ps')" and k: "map fst ps = map fst ps'"
  then show "sql = sql'"
    unfolding build_audit_cases(2,3) [OF b] build_audit_cases(2,3) [OF b'] audit_params_def
    by (auto split: if_splits)
next
  fix q s t sql ps
  assume b: "build_audit_query q s t = Inr (sql, ps)"
  note c = build_audit_cases [OF b]
  show "distinct (map fst ps)" by (simp add: c(2) audit_params_def)
  show "map_of ps ''limit'' = Some (itoa (parse_audit_limit (values_get ''limit'' q)))"
    "map_of ps ''namespaces'' = (if restricted s
       then Some (''['' @ join '','' (map quoted_ns (scope_list s)) @ '']'') else None)"
    "map_of ps ''since'' = (if t > 0 then Some (itoa t) else None)"
    by (simp_all add: c(2) audit_params_def)
  show "restricted s \<Longrightarrow> list_all dns_label (scope_list s)"
    using c(1) by simp
next
  show "1 \<le> default_audit_limit" "int64_range default_audit_limit"
    by (simp_all add: default_audit_limit_def int64_range_def)
qed (simp_all add: parse_audit_limit_contract)

section \<open>The columns of the query and the fields of the record\<close>

text \<open>The name a column of the SELECT list gets: the last word of its line.\<close>

definition column_alias :: "string \<Rightarrow> string" where
  "column_alias l = trim_right_char CHR '','' (last (split_on CHR '' '' l))"

definition audit_columns :: "string list" where
  "audit_columns = map column_alias (take 15 (drop 1 audit_select))"

lemma audit_columns_names:
  "audit_columns =
    [''timestamp'', ''user'', ''roles'', ''action'', ''verb'', ''resource_group'', ''resource_version'', ''resource'', ''resource_name'', ''namespace'', ''outcome'', ''status_code'', ''message'', ''trace_id'', ''session_id'']"
  by (simp add: audit_columns_def audit_select_def column_alias_def trim_right_char_def)

definition audit_values :: "audit_record \<Rightarrow> string list" where
  "audit_values r =
    [ar_timestamp r, ar_user r, ar_roles r, ar_action r, ar_verb r, ar_resource_group r, ar_resource_version r, ar_resource r, ar_resource_name r, ar_namespace r, ar_outcome r, ar_status_code r, ar_message r, ar_trace_id r, ar_session_id r]"

text \<open>A row of the audit query as ClickHouse writes it: the members are the column names.\<close>

definition audit_row_json :: "audit_record \<Rightarrow> string" where
  "audit_row_json r = json_object (zip audit_columns (map json_string (audit_values r)))"

lemma audit_row_parses:
  assumes "list_all valid_utf8 (audit_values r)"
  shows "json_parse (audit_row_json r) = Some (JObj (zip audit_columns (map JStr (audit_values r))))"
proof -
  have n: "\<forall>k \<in> set audit_columns. utf8_fix k = k"
    unfolding audit_columns_names by (auto intro!: utf8_fix_ascii simp: byte_def)
  have l: "length audit_columns = length (audit_values r)"
    by (simp add: audit_columns_names audit_values_def)
  show ?thesis
    unfolding audit_row_json_def
    using n l assms by (intro json_parse_parses parses_object)
      (auto simp: list_all2_conv_all_nth list_all_length intro: parses_utf8)
qed

section \<open>Properties of the audit query\<close>

text \<open>
  C36: six columns of the audit query never reach the portal: ClickHouse names them
  \<open>resource_group\<close>, \<open>resource_version\<close>, \<open>resource_name\<close>, \<open>status_code\<close>, \<open>trace_id\<close> and
  \<open>session_id\<close>, the record expects \<open>resourceGroup\<close> and so on, and the decoder matches names up to
  case only; every row is decoded without an error to the record with those six fields empty.
\<close>

theorem audit_columns_lost:
  assumes "list_all valid_utf8 (audit_values r)"
  shows "decode_audit (audit_row_json r)
     = Inr (r\<lparr>ar_resource_group := [], ar_resource_version := [], ar_resource_name := [],
              ar_status_code := [], ar_trace_id := [], ar_session_id := []\<rparr>)"
  using audit_row_parses [OF assms]
  by (simp add: decode_audit_def unmarshal_def set_struct_def audit_columns_names audit_values_def
      audit_fields_def find_field_def set_string_def zero_audit_def lower_char_def is_upper_def byte_def)

definition sample_audit :: audit_record where
  "sample_audit = zero_audit\<lparr>ar_user := ''anna'', ar_status_code := ''403'', ar_trace_id := ''abc''\<rparr>"

lemma sample_audit_utf8: "list_all valid_utf8 (audit_values sample_audit)"
proof -
  have "valid_utf8 s" if "s \<in> {[], ''anna'', ''403'', ''abc''}" for s
    using that by (auto simp: valid_utf8_def intro!: utf8_fix_ascii simp: byte_def)
  then show ?thesis by (simp add: audit_values_def sample_audit_def zero_audit_def)
qed

theorem audit_columns_lost_witness:
  "decode_audit (audit_row_json sample_audit) = Inr (zero_audit\<lparr>ar_user := ''anna''\<rparr>)"
  using audit_columns_lost [OF sample_audit_utf8] by (simp add: sample_audit_def zero_audit_def)

text \<open>
  The audit limit is the events limit: for every text of the \<open>limit\<close> parameter both parsers
  return the same number, between 1 and 200.
\<close>

theorem audit_limit_mirrors:
  "parse_audit_limit raw = parse_limit raw \<and> 1 \<le> parse_audit_limit raw \<and> parse_audit_limit raw \<le> 200"
  using parse_audit_limit_contract(1) [of raw]
  by (auto simp: parse_audit_limit_def parse_limit_def default_audit_limit_def default_events_limit_def
      split: option.split)

text \<open>
  The audit query keeps the tenants apart: it is refused exactly for a restricted scope that
  holds a name that is not a DNS label; otherwise its text is fixed by whether the caller is
  restricted and whether a window applies, carries the namespace predicate whenever the caller is
  restricted, and the set the server reads from the bound parameter is the caller's own.
\<close>

theorem audit_query_scoped:
  assumes "plain_base (clickhouse_url cfg)"
  shows "case build_audit_query q scope since of
       Inl e \<Rightarrow> restricted scope \<and> \<not> list_all dns_label (scope_list scope)
     | Inr (sql, params) \<Rightarrow>
         (restricted scope \<longrightarrow> list_all dns_label (scope_list scope))
         \<and> sql = audit_sql (restricted scope) (since > 0)
         \<and> (let arrived = request_param ''namespaces''
                 (clickhouse_request cfg (bound_url cfg params) sql)
            in if restricted scope then read_array_literal arrived = scope_list scope else arrived = [])"
proof (cases "build_audit_query q scope since")
  case (Inl e)
  then show ?thesis using build_audit_result [of scope q since] by auto
next
  case (Inr sp)
  then obtain sql params where b: "build_audit_query q scope since = Inr (sql, params)" by (cases sp) auto
  show ?thesis
    using build_audit_cases(1,3) [OF b] audit_query.sent_scope [OF b assms] audit_query.sent_unscoped [OF b assms]
    by (simp add: b Let_def)
qed

theorem audit_query_scoped_witness:
  "case build_audit_query [] sample_restricted 0 of
     Inl e \<Rightarrow> False
   | Inr (sql, params) \<Rightarrow> read_array_literal (request_param ''namespaces''
         (clickhouse_request sample_config (bound_url sample_config params) sql)) = [''team-a'', ''b'']"
  using audit_query_scoped [OF sample_plain, where q = "[]" and scope = sample_restricted and since = 0] sample_restricted_labels
  by (auto simp: Let_def sample_restricted_def split: sum.splits)

end
