(* ===== verification/Auth.thy ===== *)
theory Auth
  imports Http Go_Env
begin

text \<open>
  \<open>auth.go\<close> and \<open>cors.go\<close>: where a token may come from, the refusal of tokens in the URL, the
  bearer wrapper every protected endpoint is behind, its configuration, and the CORS wrapper. The
  JWT library and the error responses of the plumbing module are parameters: a record of
  functions, on a state that includes whatever they read.
\<close>

section \<open>Handlers\<close>

text \<open>
  An \<open>http.HandlerFunc\<close>: the request, the response writer and the state of the process in, the
  writer and the state out; \<open>None\<close> is a handler that does not return.
\<close>

type_synonym 's handler = "http_request \<Rightarrow> response_writer \<Rightarrow> 's \<Rightarrow> (response_writer \<times> 's) option"

section \<open>The libraries\<close>

text \<open>An error of the JWT library: whether \<open>errors.Is(err, ErrKeyUnavailable)\<close> holds, and its text.\<close>

datatype jwt_error = JwtError (key_unavailable: bool) (jwt_error_text: string)

record ('k, 's) auth_lib =
  al_verify :: "'k \<Rightarrow> string \<Rightarrow> 's \<Rightarrow> (jwt_error + user_info) \<times> 's"
  al_unauthorized :: "string \<Rightarrow> response_writer \<Rightarrow> response_writer"
  al_service_unavailable :: "string \<Rightarrow> response_writer \<Rightarrow> response_writer"

section \<open>Configuration\<close>

record 'k auth_config =
  ac_keys :: 'k
  ac_jwks_url :: string
  ac_session_cookie :: string

definition default_url_authn :: string where
  "default_url_authn = ''http://authn.krateo-system.svc.cluster.local:8082''"

definition default_session_cookie :: string where
  "default_session_cookie = ''krateo-session''"

text \<open>\<open>jwks_url_of\<close> is \<open>jwtutil.JWKSURL\<close>, \<open>new_keys\<close> is \<open>jwtutil.NewJWKSKeySource\<close> with its three options.\<close>

definition load_auth_config ::
  "(string \<Rightarrow> string) \<Rightarrow> (string \<Rightarrow> duration \<Rightarrow> duration \<Rightarrow> duration \<Rightarrow> 'k) \<Rightarrow> environ
     \<Rightarrow> 'k auth_config result" where
  "load_auth_config jwks_url_of new_keys g =
     (let jwks = trim_space (get_env g ''JWT_JWKS_URL'' []);
          base = trim_space (get_env g ''URL_AUTHN'' default_url_authn);
          jwks = (if jwks = [] then (if base \<noteq> [] then jwks_url_of base else jwks) else jwks)
      in if jwks = []
         then Inl (''no JWKS source: set URL_AUTHN (authn base URL) or JWT_JWKS_URL '' @
                   [CHR 0xE2, CHR 0x80, CHR 0x94] @
                   '' token verification is mandatory and cannot be disabled'')
         else Inr \<lparr>ac_keys = new_keys jwks
                     (get_env_duration g ''JWT_JWKS_CACHE_TTL'' (300 * second))
                     (get_env_duration g ''JWT_JWKS_MIN_REFRESH_INTERVAL'' (30 * second))
                     (get_env_duration g ''JWT_JWKS_REQUEST_TIMEOUT'' (5 * second)),
                   ac_jwks_url = jwks,
                   ac_session_cookie = get_env g ''REFRESH_SESSION_COOKIE'' default_session_cookie\<rparr>)"

section \<open>Tokens\<close>

definition bearer_from_header :: "http_request \<Rightarrow> string option" where
  "bearer_from_header r =
     (let auth_header = header_get ''Authorization'' (rq_headers r)
      in if auth_header = [] then None
         else (case cut CHR '' '' auth_header of
                 (scheme, tok, found) \<Rightarrow>
                   if found \<and> equal_fold scheme ''bearer'' \<and> tok \<noteq> [] then Some tok else None))"

definition token_from_request :: "'k auth_config \<Rightarrow> http_request \<Rightarrow> string option" where
  "token_from_request a r =
     (case bearer_from_header r of
        Some tok \<Rightarrow> Some tok
      | None \<Rightarrow>
          if ac_session_cookie a \<noteq> []
          then (case request_cookie (ac_session_cookie a) r of
                  Some v \<Rightarrow> if v \<noteq> [] then Some v else None
                | None \<Rightarrow> None)
          else None)"

definition token_name :: "string \<Rightarrow> string" where
  "token_name pair =
     (let name = fst (cut CHR ''='' pair)
      in to_lower (case query_unescape name of Some d \<Rightarrow> d | None \<Rightarrow> name))"

fun find_token_name :: "string list \<Rightarrow> string" where
  "find_token_name [] = []"
| "find_token_name (pair # pairs) =
     (let name = token_name pair
      in if name = ''access_token'' \<or> name = ''token'' then name else find_token_name pairs)"

definition query_token_param :: "http_request \<Rightarrow> string" where
  "query_token_param r =
     find_token_name (fields_func (\<lambda>c. c = CHR ''&'' \<or> c = CHR '';'') [] (rq_raw_query r))"

section \<open>The bearer wrapper\<close>

definition write_auth_error :: "('k, 's) auth_lib \<Rightarrow> jwt_error \<Rightarrow> response_writer \<Rightarrow> response_writer" where
  "write_auth_error lib e w =
     (if key_unavailable e then al_service_unavailable lib (jwt_error_text e) w
      else al_unauthorized lib (jwt_error_text e) w)"

definition with_user_info :: "user_info \<Rightarrow> http_request \<Rightarrow> http_request" where
  "with_user_info u r = r\<lparr>rq_user := Some u\<rparr>"

definition user_info_from :: "http_request \<Rightarrow> user_info option" where
  [simp]: "user_info_from r = rq_user r"

definition validate :: "('k, 's) auth_lib \<Rightarrow> 'k auth_config \<Rightarrow> string \<Rightarrow> 's \<Rightarrow> (jwt_error + user_info) \<times> 's" where
  [simp]: "validate lib a token s = al_verify lib (ac_keys a) token s"

definition require_bearer :: "('k, 's) auth_lib \<Rightarrow> 'k auth_config \<Rightarrow> 's handler \<Rightarrow> 's handler" where
  "require_bearer lib a next_handler r w s =
     (if query_token_param r \<noteq> []
      then Some (al_unauthorized lib
             ''a token in the query string is not accepted: use the Authorization header'' w, s)
      else (case token_from_request a r of
              None \<Rightarrow> Some (al_unauthorized lib
                 ''missing or malformed Authorization header, and no session cookie'' w, s)
            | Some token \<Rightarrow>
                (case validate lib a token s of
                   (Inl e, s') \<Rightarrow> Some (write_auth_error lib e w, s')
                 | (Inr u, s') \<Rightarrow> next_handler (with_user_info u r) w s')))"

section \<open>CORS\<close>

definition with_cors :: "'s handler \<Rightarrow> 's handler" where
  "with_cors next_handler r w s =
     (let w = header_set ''Access-Control-Allow-Origin'' ''*'' w
      in if rq_method r = ''OPTIONS'' \<and> header_get ''Access-Control-Request-Method'' (rq_headers r) \<noteq> []
         then Some (write_header 204
                (header_set ''Access-Control-Max-Age'' ''300''
                  (header_set ''Access-Control-Allow-Headers'' ''Authorization, traceparent, tracestate''
                    (header_set ''Access-Control-Allow-Methods'' ''GET, OPTIONS'' w))), s)
         else next_handler r w s)"

section \<open>Laws\<close>

lemma find_token_name_found:
  "find_token_name ps \<noteq> [] \<longleftrightarrow> (\<exists>p \<in> set ps. token_name p \<in> {''access_token'', ''token''})"
  by (induction ps) (auto simp: Let_def)

text \<open>A pair the parsed query shows under a token's name, in any case, is found in the raw query.\<close>

lemma parsed_token_found:
  assumes "(k, v) \<in> set (url_query r)" "to_lower k \<in> {''access_token'', ''token''}"
  shows "query_token_param r \<noteq> []"
proof -
  obtain p where p: "p \<in> set (split_on CHR ''&'' (rq_raw_query r))" "parse_pair p = Some (k, v)"
    using assms(1) parse_query_piece unfolding url_query_def by blast
  from parse_pair_Some [OF p(2)] have q: "p \<noteq> []" "CHR '';'' \<notin> set p"
      "query_unescape (fst (cut CHR ''='' p)) = Some k" by simp_all
  have "p \<in> set (fields_func (\<lambda>c. c = CHR ''&'' \<or> c = CHR '';'') [] (rq_raw_query r))"
    by (rule split_piece_in_fields) (use p q in simp_all)
  moreover have "token_name p \<in> {''access_token'', ''token''}"
    using assms(2) q(3) by (simp add: token_name_def)
  ultimately show ?thesis unfolding query_token_param_def find_token_name_found by blast
qed

lemma bearer_sound:
  assumes "bearer_from_header r = Some tok"
  shows "\<exists>scheme. header_get ''Authorization'' (rq_headers r) = scheme @ CHR '' '' # tok
      \<and> CHR '' '' \<notin> set scheme \<and> equal_fold scheme ''bearer'' \<and> tok \<noteq> []"
proof -
  obtain scheme t found where c: "cut CHR '' '' (header_get ''Authorization'' (rq_headers r)) = (scheme, t, found)"
    by (cases "cut CHR '' '' (header_get ''Authorization'' (rq_headers r))")
  with assms have f: "found" "equal_fold scheme ''bearer''" "tok = t" "t \<noteq> []"
    by (auto simp: bearer_from_header_def Let_def split: if_splits)
  with c have "cut CHR '' '' (header_get ''Authorization'' (rq_headers r)) = (scheme, t, True)" by simp
  from cut_found [OF this] f show ?thesis by auto
qed

lemma bearer_complete:
  assumes "header_get ''Authorization'' (rq_headers r) = scheme @ CHR '' '' # tok"
    and "equal_fold scheme ''bearer''" "tok \<noteq> []"
  shows "bearer_from_header r = Some tok"
proof -
  have "CHR '' '' \<notin> set scheme"
  proof
    assume "CHR '' '' \<in> set scheme"
    then have "lower_char CHR '' '' \<in> set (map lower_char scheme)" by auto
    with assms(2) have "lower_char CHR '' '' \<in> set (map lower_char ''bearer'')" by (simp only: equal_fold_def)
    then show False by (simp add: lower_char_def is_upper_def byte_def)
  qed
  with assms show ?thesis
    by (auto simp: bearer_from_header_def Let_def cut_append)
qed

section \<open>A sample library\<close>

text \<open>
  A key source that accepts one token, and error responses with the statuses the plumbing module
  documents.
\<close>

definition plain_error :: "nat \<Rightarrow> string \<Rightarrow> response_writer \<Rightarrow> response_writer" where
  "plain_error code msg w = write_body msg (write_header code w)"

definition sample_lib :: "string \<Rightarrow> user_info \<Rightarrow> (unit, 's) auth_lib" where
  "sample_lib good u =
     \<lparr>al_verify = (\<lambda>_ tok s. (if tok = good then Inr u else Inl (JwtError False ''invalid token''), s)),
      al_unauthorized = plain_error 401, al_service_unavailable = plain_error 503\<rparr>"

definition sample_auth :: "unit auth_config" where
  "sample_auth = \<lparr>ac_keys = (), ac_jwks_url = ''http://authn/jwks'', ac_session_cookie = ''krateo-session''\<rparr>"

definition sample_request :: "string \<Rightarrow> http_request" where
  "sample_request raw =
     \<lparr>rq_method = ''GET'', rq_path = ''/events'', rq_raw_query = raw,
      rq_headers = [(''Authorization'', ''Bearer good'')], rq_cookies = [(''krateo-session'', ''old'')],
      rq_pattern = ''/events'', rq_user = None\<rparr>"

lemma sample_token:
  assumes "rq_headers r = rq_headers (sample_request [])" "rq_raw_query r = []"
  shows "query_token_param r = []" "token_from_request a r = Some ''good''"
proof -
  have fold: "equal_fold ''Bearer'' ''bearer''"
    by (simp add: equal_fold_def lower_char_def is_upper_def byte_def) (simp add: char_of_eq_iff)
  have "header_get ''Authorization'' (rq_headers r) = ''Bearer'' @ CHR '' '' # ''good''"
    by (simp add: assms sample_request_def header_get_def)
  from bearer_complete [OF this fold] show "token_from_request a r = Some ''good''"
    by (simp add: token_from_request_def)
  show "query_token_param r = []"
    by (simp add: query_token_param_def assms)
qed

section \<open>Properties of authentication\<close>

text \<open>
  C13: the bearer wrapper lets a request through only with a verified identity: either it answers
  itself, the same way whatever handler it guards and without running it, or no query parameter
  names a token, the request carried one in its header or cookie, the key source verified that
  token, and the handler sees exactly the identity of that token, whatever identity the request
  claimed.
\<close>

theorem bearer_gate:
  "(\<exists>res. \<forall>next_handler. require_bearer lib a next_handler r w s = Some res)
   \<or> (\<exists>token u s'. query_token_param r = [] \<and> token_from_request a r = Some token
        \<and> al_verify lib (ac_keys a) token s = (Inr u, s')
        \<and> (\<forall>next_handler. require_bearer lib a next_handler r w s = next_handler (r\<lparr>rq_user := Some u\<rparr>) w s'))"
proof (cases "query_token_param r = []")
  case False
  then show ?thesis by (simp add: require_bearer_def)
next
  case True
  show ?thesis
  proof (cases "token_from_request a r")
    case None
    with True show ?thesis by (simp add: require_bearer_def)
  next
    case (Some token)
    obtain v s' where v: "al_verify lib (ac_keys a) token s = (v, s')"
      by (cases "al_verify lib (ac_keys a) token s")
    with True Some show ?thesis
      by (cases v) (simp_all add: require_bearer_def with_user_info_def)
  qed
qed

text \<open>
  A request the wrapper answers itself is refused as documented: a token in the query string and
  a missing token are 401, a token the library rejects is 401, and one it could not check because
  the key was unavailable is 503, so that an outage of the identity provider does not look like a
  bad credential.
\<close>

theorem bearer_refusals:
  assumes "query_token_param r \<noteq> [] \<or> token_from_request a r = None
      \<or> (\<exists>token e s'. token_from_request a r = Some token \<and> al_verify lib (ac_keys a) token s = (Inl e, s'))"
    and "rw_sent w = None"
    and "\<And>msg. status_of (al_unauthorized lib msg w) = Some 401"
    and "\<And>msg. status_of (al_service_unavailable lib msg w) = Some 503"
  shows "\<exists>w' s'. require_bearer lib a next_handler r w s = Some (w', s')
      \<and> status_of w' = Some (if query_token_param r = [] \<and> (\<exists>token e t.
            token_from_request a r = Some token \<and> al_verify lib (ac_keys a) token s = (Inl e, t)
              \<and> key_unavailable e) then 503 else 401)"
  using assms(1,3,4)
  by (auto simp: require_bearer_def write_auth_error_def split: option.split)

theorem bearer_refusals_witness:
  "\<exists>w' s'. require_bearer (sample_lib ''good'' \<lparr>ui_username = ''a'', ui_groups = None\<rparr>) sample_auth
      (\<lambda>r w s. None) (sample_request ''x=1&Access_Token=abc'') (new_writer False) () = Some (w', s')
      \<and> status_of w' = Some 401"
proof -
  have q: "query_token_param (sample_request ''x=1&Access_Token=abc'') \<noteq> []"
    by (simp add: query_token_param_def sample_request_def token_name_def Let_def lower_char_def
        is_upper_def byte_def) (simp add: char_of_eq_iff)
  have n: "rw_sent (new_writer False) = None" by (simp add: new_writer_def)
  have "status_of (plain_error c msg (new_writer False)) = Some c" for c msg
    by (simp add: plain_error_def status_of_def http_simps n write_body_def write_header_def Let_def)
  then show ?thesis
    using bearer_refusals [OF disjI1 [OF q] n, of "sample_lib ''good'' \<lparr>ui_username = ''a'', ui_groups = None\<rparr>"
        sample_auth "\<lambda>r w s. None" "()"] q
    by (simp add: sample_lib_def)
qed

text \<open>
  A token in the URL is never overlooked: if the parsed query has a parameter whose name is
  \<open>access_token\<close> or \<open>token\<close> in any case and however it is escaped, the wrapper refuses the
  request without looking at its credentials.
\<close>

theorem url_token_refused:
  assumes "(k, v) \<in> set (url_query r)" "to_lower k \<in> {''access_token'', ''token''}"
  shows "require_bearer lib a next_handler r w s
     = Some (al_unauthorized lib
         ''a token in the query string is not accepted: use the Authorization header'' w, s)"
  using parsed_token_found [OF assms] by (simp add: require_bearer_def)

theorem url_token_refused_witness:
  "require_bearer (sample_lib ''good'' \<lparr>ui_username = ''a'', ui_groups = None\<rparr>) sample_auth
      (\<lambda>r w s. None) (sample_request ''x=1&%74oken=abc'') w s
     = Some (plain_error 401
         ''a token in the query string is not accepted: use the Authorization header'' w, s)"
proof -
  have "(''token'', ''abc'') \<in> set (url_query (sample_request ''x=1&%74oken=abc''))"
    by (simp add: url_query_def sample_request_def parse_query_def List.map_filter_def parse_pair_def
        is_hex_def unhex_def is_digit_def byte_def) (rule sym, simp add: char_of_eq_iff)
  from url_token_refused [OF this, of "sample_lib ''good'' \<lparr>ui_username = ''a'', ui_groups = None\<rparr>"]
  show ?thesis by (simp add: sample_lib_def lower_char_def is_upper_def byte_def)
qed

text \<open>
  Which token counts: when the Authorization header has the form of a bearer credential, the
  scheme in any case, its token is the one, even if it is wrong and a cookie is present; only
  otherwise a non-empty session cookie is used; nothing else is a token.
\<close>

theorem token_sources:
  "token_from_request a r = Some tok \<longleftrightarrow>
     (if \<exists>scheme t. header_get ''Authorization'' (rq_headers r) = scheme @ CHR '' '' # t
           \<and> equal_fold scheme ''bearer'' \<and> t \<noteq> []
      then \<exists>scheme. header_get ''Authorization'' (rq_headers r) = scheme @ CHR '' '' # tok
           \<and> equal_fold scheme ''bearer'' \<and> tok \<noteq> []
      else ac_session_cookie a \<noteq> [] \<and> tok \<noteq> [] \<and> request_cookie (ac_session_cookie a) r = Some tok)"
proof (cases "\<exists>scheme t. header_get ''Authorization'' (rq_headers r) = scheme @ CHR '' '' # t
           \<and> equal_fold scheme ''bearer'' \<and> t \<noteq> []")
  case True
  then obtain scheme t where h: "header_get ''Authorization'' (rq_headers r) = scheme @ CHR '' '' # t"
      "equal_fold scheme ''bearer''" "t \<noteq> []" by blast
  have b: "bearer_from_header r = Some t" by (rule bearer_complete [OF h])
  then have "token_from_request a r = Some tok \<longleftrightarrow> bearer_from_header r = Some tok"
    by (simp add: token_from_request_def)
  also have "\<dots> \<longleftrightarrow> (\<exists>scheme. header_get ''Authorization'' (rq_headers r) = scheme @ CHR '' '' # tok
           \<and> equal_fold scheme ''bearer'' \<and> tok \<noteq> [])"
    using bearer_sound bearer_complete by blast
  finally show ?thesis using True by simp
next
  case False
  then have "bearer_from_header r = None"
    using bearer_sound by (cases "bearer_from_header r") blast+
  then have "token_from_request a r = Some tok \<longleftrightarrow>
      ac_session_cookie a \<noteq> [] \<and> tok \<noteq> [] \<and> request_cookie (ac_session_cookie a) r = Some tok"
    by (auto simp: token_from_request_def split: option.splits if_splits)
  then show ?thesis using False by (simp only: if_False)
qed

text \<open>
  The proxy refuses to start without a source of verification keys, and that happens exactly
  when JWT_JWKS_URL is blank and URL_AUTHN consists of spaces only: an empty URL_AUTHN counts as
  unset and selects the cluster-internal default.
\<close>

theorem key_source_mandatory:
  assumes "\<And>base. base \<noteq> [] \<Longrightarrow> jwks_url_of base \<noteq> []"
  shows "is_ok (load_auth_config jwks_url_of new_keys g) \<longleftrightarrow>
     trim_space (g ''JWT_JWKS_URL'') \<noteq> [] \<or> g ''URL_AUTHN'' = [] \<or> trim_space (g ''URL_AUTHN'') \<noteq> []"
proof -
  have d: "trim_space default_url_authn \<noteq> []"
    by (simp add: default_url_authn_def trim_space_def ascii_space_def space2_def space3_def byte_def)
  have e: "trim_space (get_env g ''JWT_JWKS_URL'' []) = trim_space (g ''JWT_JWKS_URL'')"
    by (simp add: get_env_def)
  show ?thesis
    using assms d by (auto simp: load_auth_config_def Let_def e get_env_def)
qed

theorem key_source_mandatory_witness:
  "is_ok (load_auth_config (\<lambda>base. base @ ''/.well-known/jwks.json'') (\<lambda>url ttl refresh timeout. url) (\<lambda>_. []))"
  using key_source_mandatory [of "\<lambda>base. base @ ''/.well-known/jwks.json''" _ "\<lambda>_. []"] by simp

text \<open>
  A CORS preflight is answered before authentication: with 204 and the three permissions, for
  any origin, with no handler run and no credentials allowed; every other request reaches the
  handler with the origin header already set.
\<close>

theorem cors_preflight:
  assumes "rw_sent w = None" "map_of (rw_header w) ''Access-Control-Allow-Credentials'' = None"
  shows "if rq_method r = ''OPTIONS'' \<and> header_get ''Access-Control-Request-Method'' (rq_headers r) \<noteq> []
     then \<exists>w'. with_cors next_handler r w s = Some (w', s) \<and> status_of w' = Some 204 \<and> rw_body w' = rw_body w
        \<and> sent_header ''Access-Control-Allow-Origin'' w' = Some ''*''
        \<and> sent_header ''Access-Control-Allow-Headers'' w' = Some ''Authorization, traceparent, tracestate''
        \<and> sent_header ''Access-Control-Allow-Methods'' w' = Some ''GET, OPTIONS''
        \<and> sent_header ''Access-Control-Allow-Credentials'' w' = None
     else with_cors next_handler r w s
        = next_handler r (header_set ''Access-Control-Allow-Origin'' ''*'' w) s"
  using assms by (auto simp: with_cors_def Let_def status_of_def sent_header_def http_simps)

theorem cors_preflight_witness:
  "\<exists>w'. with_cors (\<lambda>r w s. None)
       ((sample_request [])\<lparr>rq_method := ''OPTIONS'', rq_headers := [(''Access-Control-Request-Method'', ''GET'')]\<rparr>)
       (new_writer False) () = Some (w', ()) \<and> status_of w' = Some 204"
  using cors_preflight [of "new_writer False"
      "(sample_request [])\<lparr>rq_method := ''OPTIONS'', rq_headers := [(''Access-Control-Request-Method'', ''GET'')]\<rparr>"
      "\<lambda>r w s. None" "()"]
  by (auto simp: new_writer_def header_get_def)

end
