(* ===== verification/Handlers.thy ===== *)
theory Handlers
  imports Rbac_Scoper Audit_Log Auth
begin

text \<open>
  The two REST handlers, \<open>handleEvents\<close> of \<open>main.go\<close> and \<open>handleAudit\<close> of \<open>audit.go\<close>, and the
  resolution of the caller's scope they share with the stream. The state a handler works on is the
  scopers with their caches and the world outside the process.
\<close>

type_synonym 'w state = "scoper_heap \<times> 'w"

text \<open>
  What a handler is constructed with: the environment, which the scoper's own client reaches, the same
  as the outbound client for ClickHouse reaches it, the schedule of the reviews, the settings.
\<close>

record 'w deps =
  dp_env :: "'w env"
  dp_client :: "'w env"
  dp_sched :: "string list \<Rightarrow> string list"
  dp_cfg :: config

definition resolve_request_scope ::
  "'w deps \<Rightarrow> scoper_ref option \<Rightarrow> http_request \<Rightarrow> 'w state
     \<Rightarrow> (ns_scope option result \<times> 'w state) option" where
  "resolve_request_scope d scoper r s =
     (case scoper of
        None \<Rightarrow> Some (Inr None, s)
      | Some ref \<Rightarrow>
          (case user_info_from r of
             None \<Rightarrow> Some (Inl ''rbac scoping enabled but no verified identity on request'', s)
           | Some u \<Rightarrow>
               (case scope_for (dp_env d) (dp_sched d) ref u (fst s) (snd s) of
                  None \<Rightarrow> None
                | Some (Inl e, h, w) \<Rightarrow> Some (Inl e, (h, w))
                | Some (Inr scope, h, w) \<Rightarrow> Some (Inr (Some scope), (h, w)))))"

definition json_reply :: "string \<Rightarrow> response_writer \<Rightarrow> response_writer" where
  "json_reply body w = write_body body (header_set ''Content-Type'' ''application/json'' w)"

definition events_body :: "ch_row list \<Rightarrow> string" where
  "events_body rows = json_array (map (\<lambda>row. event_json (to_sse_event row)) rows) @ [nl]"

definition handle_events :: "'w deps \<Rightarrow> scoper_ref option \<Rightarrow> 'w state handler" where
  "handle_events d scoper r w s =
     (case resolve_request_scope d scoper r s of
        None \<Rightarrow> None
      | Some (Inl e, s1) \<Rightarrow> Some (http_error ''internal error'' 500 w, s1)
      | Some (Inr scope, s1) \<Rightarrow>
          if restricted scope \<and> length (scope_list scope) = 0 then Some (json_reply ''[]'' w, s1)
          else (case build_events_query (url_query r) scope of
                  Inl e \<Rightarrow> Some (http_error e 400 w, s1)
                | Inr _ \<Rightarrow>
                    (case env_now (dp_env d) (snd s1) of
                       (now, w1) \<Rightarrow>
                         (case query_events_windowed (dp_client d) (dp_cfg d) (url_query r) scope now w1 of
                            (Inl e, w2) \<Rightarrow> Some (http_error ''internal error'' 500 w, (fst s1, w2))
                          | (Inr rows, w2) \<Rightarrow> Some (json_reply (events_body rows) w, (fst s1, w2))))))"

section \<open>handleAudit\<close>

definition audit_scoping_disabled_body :: string where
  "audit_scoping_disabled_body =
     json_object
       [(''error'', json_string ''audit is unavailable: namespace scoping is disabled''),
        (''reason'', json_string ''RBACScopingDisabled''),
        (''detail'', json_string (''/audit cannot enforce tenant isolation unless RBAC_SCOPING_ENABLED=true. ''
            @ ''Refusing rather than returning every namespace'' @ [apostrophe] @ ''s audit records.''))]"

definition announce_scope :: "ns_scope option \<Rightarrow> response_writer \<Rightarrow> response_writer" where
  "announce_scope scope w =
     (case scope_header_value scope of None \<Rightarrow> w | Some v \<Rightarrow> header_set scope_header_name v w)"

definition audit_body :: "audit_record list \<Rightarrow> string" where
  "audit_body rows = json_array (map audit_json rows) @ [nl]"

definition handle_audit :: "'w deps \<Rightarrow> scoper_ref option \<Rightarrow> 'w state handler" where
  "handle_audit d scoper r w s =
     (case scoper of
        None \<Rightarrow>
          Some (write_body audit_scoping_disabled_body
                  (write_header 503 (header_set ''Content-Type'' ''application/json'' w)), s)
      | Some _ \<Rightarrow>
          (case resolve_request_scope d scoper r s of
             None \<Rightarrow> None
           | Some (Inl e, s1) \<Rightarrow> Some (http_error ''internal error'' 500 w, s1)
           | Some (Inr scope, s1) \<Rightarrow>
               let w = announce_scope scope (header_set ''Content-Type'' ''application/json'' w)
               in if restricted scope \<and> length (scope_list scope) = 0 then Some (write_body ''[]'' w, s1)
                  else (case build_audit_query (url_query r) scope 0 of
                          Inl e \<Rightarrow> Some (http_error e 400 w, s1)
                        | Inr (query, params) \<Rightarrow>
                            (case query_audit_records (dp_client d) (dp_cfg d) query params (snd s1) of
                               (Inl e, w2) \<Rightarrow> Some (http_error ''internal error'' 500 w, (fst s1, w2))
                             | (Inr rows, w2) \<Rightarrow> Some (write_body (audit_body rows) w, (fst s1, w2))))))"

section \<open>Headers a handler leaves alone\<close>

text \<open>
  Every handler sends a status line, and what it sends under the access-control headers is what was
  set before it ran. The CORS wrapper relies on it, and wrapping a handler in the bearer check
  keeps it.
\<close>

definition cors_headers :: "string list" where
  "cors_headers = [''Access-Control-Allow-Origin'', ''Access-Control-Allow-Credentials'',
     ''Access-Control-Allow-Methods'', ''Access-Control-Allow-Headers'']"

definition sends :: "response_writer \<Rightarrow> response_writer \<Rightarrow> bool" where
  "sends w w' \<longleftrightarrow> rw_sent w' \<noteq> None
     \<and> (\<forall>k \<in> set cors_headers. sent_header k w' = map_of (rw_header w) k)"

text \<open>The error responses of the plumbing module do so as well.\<close>

definition lib_keeps :: "('k, 's) auth_lib \<Rightarrow> bool" where
  "lib_keeps lib \<longleftrightarrow> (\<forall>w msg. rw_sent w = None \<longrightarrow>
     sends w (al_unauthorized lib msg w) \<and> sends w (al_service_unavailable lib msg w))"

locale header_keeper =
  fixes handle :: "'s handler"
  assumes handle_sends: "rw_sent w = None \<Longrightarrow> handle r w s = Some (w', s') \<Longrightarrow> sends w w'"
begin

lemma answered: "rw_sent w = None \<Longrightarrow> handle r w s = Some (w', s') \<Longrightarrow> status_of w' \<noteq> None"
  using handle_sends by (auto simp: sends_def status_of_def)

lemma guarded_sends:
  assumes "lib_keeps lib" "rw_sent w = None" "require_bearer lib a handle r w s = Some (w', s')"
  shows "sends w w'"
  using assms handle_sends unfolding lib_keeps_def
  by (auto simp: require_bearer_def write_auth_error_def split: if_splits option.splits prod.splits sum.splits)

lemma cors_origin:
  assumes "rw_sent w = None" "map_of (rw_header w) ''Access-Control-Allow-Credentials'' = None"
    and "with_cors handle r w s = Some (w', s')"
  shows "sent_header ''Access-Control-Allow-Origin'' w' = Some ''*''
      \<and> sent_header ''Access-Control-Allow-Credentials'' w' = None \<and> status_of w' \<noteq> None"
proof (cases "rq_method r = ''OPTIONS'' \<and> header_get ''Access-Control-Request-Method'' (rq_headers r) \<noteq> []")
  case True
  with assms show ?thesis
    by (auto simp: with_cors_def Let_def status_of_def sent_header_def http_simps)
next
  case False
  let ?w = "header_set ''Access-Control-Allow-Origin'' ''*'' w"
  from False assms(3) have h: "handle r ?w s = Some (w', s')"
    by (auto simp: with_cors_def Let_def split: if_splits)
  have n: "rw_sent ?w = None" using assms(1) by (simp add: http_simps)
  from handle_sends [OF n h] answered [OF n h] assms(2) show ?thesis
    by (simp add: sends_def cors_headers_def http_simps)
qed

end

lemma sends_write_body: "rw_sent w = None \<Longrightarrow> sends w (write_body b w)"
  by (simp add: sends_def sent_header_def http_simps)

lemma sends_http_error: "rw_sent w = None \<Longrightarrow> sends w (http_error msg code w)"
  by (simp add: sends_def sent_header_def http_error_def cors_headers_def http_simps)

lemma sends_json_reply: "rw_sent w = None \<Longrightarrow> sends w (json_reply b w)"
  by (simp add: sends_def sent_header_def json_reply_def cors_headers_def http_simps)

lemma announce_scope_simps:
  "rw_sent (announce_scope scope w) = rw_sent w"
  "rw_body (announce_scope scope w) = rw_body w"
  "map_of (rw_header (announce_scope scope w)) scope_header_name
     = (case scope_header_value scope of None \<Rightarrow> map_of (rw_header w) scope_header_name | Some v \<Rightarrow> Some v)"
  "k \<noteq> scope_header_name \<Longrightarrow> map_of (rw_header (announce_scope scope w)) k = map_of (rw_header w) k"
  by (simp_all add: announce_scope_def http_simps split: option.split)

lemma sends_announced:
  assumes "sends (announce_scope scope (header_set ''Content-Type'' v w)) w'"
  shows "sends w w'"
proof -
  have "map_of (rw_header (announce_scope scope (header_set ''Content-Type'' v w))) k = map_of (rw_header w) k"
    if "k \<in> set cors_headers" for k
    using that by (auto simp: announce_scope_simps(4) cors_headers_def scope_header_name_def http_simps)
  with assms show ?thesis by (simp add: sends_def)
qed

lemma handle_events_sends:
  "rw_sent w = None \<Longrightarrow> handle_events d scoper r w s = Some (w', s') \<Longrightarrow> sends w w'"
  by (auto simp: handle_events_def sends_json_reply sends_http_error
      split: option.splits prod.splits sum.splits if_splits)

lemma handle_audit_sends:
  assumes "rw_sent w = None" "handle_audit d scoper r w s = Some (w', s')"
  shows "sends w w'"
proof (cases scoper)
  case None
  with assms have "w' = write_body audit_scoping_disabled_body
      (write_header 503 (header_set ''Content-Type'' ''application/json'' w))"
    by (simp add: handle_audit_def)
  with assms(1) show ?thesis by (simp add: sends_def sent_header_def cors_headers_def http_simps)
next
  case (Some ref)
  let ?w = "\<lambda>scope. announce_scope scope (header_set ''Content-Type'' ''application/json'' w)"
  have n: "rw_sent (?w scope) = None" for scope
    using assms(1) by (simp add: announce_scope_simps http_simps)
  obtain res s1 where r: "resolve_request_scope d scoper r s = Some (res, s1)"
    using assms(2) Some by (cases "resolve_request_scope d scoper r s") (auto simp: handle_audit_def)
  show ?thesis
  proof (cases res)
    case (Inl e)
    with assms r Some show ?thesis by (auto simp: handle_audit_def sends_http_error)
  next
    case (Inr scope)
    with assms(2) r Some have "(\<exists>b. w' = write_body b (?w scope)) \<or> (\<exists>m c. w' = http_error m c (?w scope))"
      by (auto simp: handle_audit_def Let_def split: if_splits sum.splits prod.splits)
    then show ?thesis
      using n sends_write_body sends_http_error sends_announced by blast
  qed
qed

interpretation events_handler: header_keeper "handle_events d scoper"
  by unfold_locales (rule handle_events_sends)

interpretation audit_handler: header_keeper "handle_audit d scoper"
  by unfold_locales (rule handle_audit_sends)

section \<open>A server that honours the namespace predicate\<close>

definition arrived_namespaces :: "config \<Rightarrow> string \<Rightarrow> ch_params \<Rightarrow> string list" where
  "arrived_namespaces cfg sql ps =
     read_array_literal (request_param ''namespaces'' (clickhouse_request cfg (bound_url cfg ps) sql))"

text \<open>
  What ClickHouse documents of \<open>IN {namespaces:Array(String)}\<close>: every returned row has its namespace
  in the set bound to the parameter.
\<close>

definition honours_events :: "'w env \<Rightarrow> config \<Rightarrow> bool" where
  "honours_events env cfg \<longleftrightarrow>
     (\<forall>q scope since sql ps w rows w'.
        build_events_query_window q scope since = Inr (sql, ps) \<longrightarrow> restricted scope \<longrightarrow>
        query_clickhouse env cfg sql ps w = (Inr rows, w') \<longrightarrow>
        (\<forall>row \<in> set rows. obj_namespace row \<in> set (arrived_namespaces cfg sql ps)))"

lemma query_windows_rows:
  "query_windows env cfg q scope now wins w = (Inr rows, w') \<Longrightarrow>
     \<exists>since sql ps w0. build_events_query_window q scope since = Inr (sql, ps)
       \<and> query_clickhouse env cfg sql ps w0 = (Inr rows, w')"
proof (induction wins arbitrary: w)
  case (Cons win wins)
  then show ?case
    by (fastforce split: sum.splits prod.splits if_splits)
qed simp

lemma windowed_allowed:
  assumes "honours_events env cfg" "plain_base (clickhouse_url cfg)"
    and "query_events_windowed env cfg q scope now w = (Inr rows, w')"
  shows "\<forall>row \<in> set rows. allows scope (obj_namespace row)"
proof -
  from query_windows_rows [OF assms(3) [unfolded query_events_windowed_def]] obtain since sql ps w0 where
    b: "build_events_query_window q scope since = Inr (sql, ps)"
      "query_clickhouse env cfg sql ps w0 = (Inr rows, w')"
    by blast
  with assms(1) have "restricted scope \<longrightarrow>
      (\<forall>row \<in> set rows. obj_namespace row \<in> set (arrived_namespaces cfg sql ps))"
    unfolding honours_events_def by blast
  then show ?thesis
    using events_query.served_allowed [OF b(1) assms(2), of rows obj_namespace]
    by (simp add: arrived_namespaces_def)
qed

lemma handle_events_returns:
  assumes "resolve_request_scope d scoper r s = Some (res, s1)"
  shows "\<exists>w' s'. handle_events d scoper r w s = Some (w', s')"
proof (cases res)
  case (Inr scope)
  obtain now w1 where n: "env_now (dp_env d) (snd s1) = (now, w1)" by (cases "env_now (dp_env d) (snd s1)")
  obtain q w2 where q: "query_events_windowed (dp_client d) (dp_cfg d) (url_query r) scope now w1 = (q, w2)"
    by (cases "query_events_windowed (dp_client d) (dp_cfg d) (url_query r) scope now w1")
  show ?thesis
    using assms Inr n q by (cases "build_events_query (url_query r) scope"; cases q) (auto simp: handle_events_def)
qed (use assms in \<open>simp add: handle_events_def\<close>)

lemma handle_audit_returns:
  assumes "resolve_request_scope d (Some ref) r s = Some (res, s1)"
  shows "\<exists>w' s'. handle_audit d (Some ref) r w s = Some (w', s')"
proof (cases res)
  case (Inr scope)
  show ?thesis
  proof (cases "build_audit_query (url_query r) scope 0")
    case (Inl e)
    with assms Inr show ?thesis by (simp add: handle_audit_def Let_def)
  next
    case b: (Inr b)
    obtain sql ps where sp: "b = (sql, ps)" by (cases b)
    obtain q w2 where "query_audit_records (dp_client d) (dp_cfg d) sql ps (snd s1) = (q, w2)"
      by (cases "query_audit_records (dp_client d) (dp_cfg d) sql ps (snd s1)")
    with assms Inr b sp show ?thesis by (cases q) (auto simp: handle_audit_def Let_def)
  qed
qed (use assms in \<open>simp add: handle_audit_def\<close>)

lemma handle_events_result:
  assumes "handle_events d scoper r w s = Some (w', s')" "rw_sent w = None"
    and "resolve_request_scope d scoper r s = Some (Inr scope, s1)"
    and "honours_events (dp_client d) (dp_cfg d)" "plain_base (clickhouse_url (dp_cfg d))"
  shows "(\<exists>msg code. w' = http_error msg code w \<and> code \<in> {400, 500})
      \<or> (restricted scope \<and> scope_list scope = [] \<and> s' = s1 \<and> rw_body w' = rw_body w @ ''[]'')
      \<or> (\<exists>rows. status_of w' = Some 200 \<and> rw_body w' = rw_body w @ events_body rows
           \<and> (\<forall>row \<in> set rows. allows scope (obj_namespace row)))"
proof (cases "restricted scope \<and> length (scope_list scope) = 0")
  case True
  with assms show ?thesis by (auto simp: handle_events_def json_reply_def http_simps)
next
  case False
  show ?thesis
  proof (cases "build_events_query (url_query r) scope")
    case (Inl e)
    with assms(1,3) False have "w' = http_error e 400 w" by (auto simp: handle_events_def)
    then show ?thesis by blast
  next
    case (Inr b)
    obtain now w1 where n: "env_now (dp_env d) (snd s1) = (now, w1)" by (cases "env_now (dp_env d) (snd s1)")
    obtain res w2 where q: "query_events_windowed (dp_client d) (dp_cfg d) (url_query r) scope now w1 = (res, w2)"
      by (cases "query_events_windowed (dp_client d) (dp_cfg d) (url_query r) scope now w1")
    show ?thesis
    proof (cases res)
      case (Inl e)
      with assms(1,3) False Inr n q have "w' = http_error ''internal error'' 500 w"
        by (auto simp: handle_events_def)
      then show ?thesis by blast
    next
      case rows: (Inr rows)
      with assms(1,3) False Inr n q have "w' = json_reply (events_body rows) w"
        by (auto simp: handle_events_def)
      with windowed_allowed [OF assms(4,5) q [unfolded rows]] assms(2) show ?thesis
        by (auto simp: json_reply_def status_of_def http_simps)
    qed
  qed
qed

lemma handle_audit_result:
  assumes "handle_audit d (Some ref) r w s = Some (w', s')" "rw_sent w = None"
    and "plain_base (clickhouse_url (dp_cfg d))"
  shows "\<exists>res s1. resolve_request_scope d (Some ref) r s = Some (res, s1) \<and>
     (case res of
        Inl e \<Rightarrow> s' = s1 \<and> status_of w' = Some 500 \<and> rw_body w' = rw_body w @ ''internal error'' @ [nl]
      | Inr scope \<Rightarrow> scope \<noteq> None
          \<and> sent_header scope_header_name w' = scope_header_value scope
          \<and> (if restricted scope \<and> scope_list scope = [] then s' = s1 \<and> rw_body w' = rw_body w @ ''[]''
             else status_of w' = Some 200 \<longrightarrow>
               (\<exists>sql ps rows w2. build_audit_query (url_query r) scope 0 = Inr (sql, ps)
                  \<and> query_audit_records (dp_client d) (dp_cfg d) sql ps (snd s1) = (Inr rows, w2)
                  \<and> rw_body w' = rw_body w @ audit_body rows
                  \<and> (restricted scope \<longrightarrow> arrived_namespaces (dp_cfg d) sql ps = scope_list scope))))"
proof -
  obtain res s1 where r: "resolve_request_scope d (Some ref) r s = Some (res, s1)"
    using assms(1) by (cases "resolve_request_scope d (Some ref) r s") (auto simp: handle_audit_def)
  show ?thesis
  proof (cases res)
    case (Inl e)
    with r assms(1,2) show ?thesis by (auto simp: handle_audit_def http_simps)
  next
    case (Inr scope)
    let ?w = "announce_scope scope (header_set ''Content-Type'' ''application/json'' w)"
    have n: "rw_sent ?w = None" "rw_body ?w = rw_body w"
      using assms(2) by (simp_all add: announce_scope_simps http_simps)
    have some: "scope \<noteq> None"
      using r Inr by (auto simp: resolve_request_scope_def split: option.splits prod.splits sum.splits)
    have hd: "map_of (rw_header ?w) scope_header_name = scope_header_value scope"
      using some by (auto simp: announce_scope_simps scope_header_value_def split: option.split)
    have names: "scope_header_name \<noteq> ''X-Content-Type-Options''" "scope_header_name \<noteq> ''Content-Type''"
        "scope_header_name \<noteq> ''Content-Length''" by (simp_all add: scope_header_name_def)
    have err: "sent_header scope_header_name (http_error m c ?w) = scope_header_value scope"
        "status_of (http_error m c ?w) = Some c" for m c
      using n hd names by (simp_all add: sent_header_def status_of_def http_error_def http_simps)
    have ok: "sent_header scope_header_name (write_body b ?w) = scope_header_value scope"
        "status_of (write_body b ?w) = Some 200" "rw_body (write_body b ?w) = rw_body w @ b" for b
      using n hd by (simp_all add: sent_header_def status_of_def http_simps)
    have arrived: "restricted scope \<longrightarrow> arrived_namespaces (dp_cfg d) sql ps = scope_list scope"
      if "build_audit_query (url_query r) scope 0 = Inr (sql, ps)" for sql ps
      using audit_query.sent_scope [OF that assms(3)] by (simp add: arrived_namespaces_def)
    note h = assms(1) [unfolded handle_audit_def option.case r Inr prod.case sum.case Let_def]
    consider (empty) "restricted scope \<and> scope_list scope = []"
      | (bad) e where "\<not> (restricted scope \<and> scope_list scope = [])"
          "build_audit_query (url_query r) scope 0 = Inl e"
      | (query) sql ps where "\<not> (restricted scope \<and> scope_list scope = [])"
          "build_audit_query (url_query r) scope 0 = Inr (sql, ps)"
      by (cases "build_audit_query (url_query r) scope 0") auto
    then show ?thesis
    proof cases
      case empty
      with h have "w' = write_body ''[]'' ?w" "s' = s1" by auto
      with empty r Inr some ok show ?thesis by simp
    next
      case (bad e)
      with h have "w' = http_error e 400 ?w" by auto
      with bad r Inr some err show ?thesis by auto
    next
      case (query sql ps)
      obtain q w2 where q: "query_audit_records (dp_client d) (dp_cfg d) sql ps (snd s1) = (q, w2)"
        by (cases "query_audit_records (dp_client d) (dp_cfg d) sql ps (snd s1)")
      show ?thesis
      proof (cases q)
        case (Inl e)
        with h query q have "w' = http_error ''internal error'' 500 ?w" by auto
        with query r \<open>res = Inr scope\<close> some err show ?thesis by auto
      next
        case rows: (Inr rows)
        with h query q have "w' = write_body (audit_body rows) ?w" by auto
        with query q rows r \<open>res = Inr scope\<close> some ok arrived [OF query(2)] show ?thesis by auto
      qed
    qed
  qed
qed

section \<open>Properties of the handlers\<close>

text \<open>
  \<open>/events\<close> fails closed: when the caller's scope cannot be established, because the API server
  failed or no verified identity came with the request, the answer is a 500 with a fixed text, and
  nothing beyond the scope resolution happened, so no event can be in it.
\<close>

theorem events_fail_closed:
  assumes "resolve_request_scope d scoper r s = Some (Inl e, s1)" "rw_sent w = None"
  shows "\<exists>w'. handle_events d scoper r w s = Some (w', s1) \<and> status_of w' = Some 500
      \<and> rw_body w' = rw_body w @ ''internal error'' @ [nl]"
  using assms by (simp add: handle_events_def http_simps)

definition sample_clickhouse :: "unit env" where
  "sample_clickhouse = fixed_env (\<lambda>rq. filter (\<lambda>row. obj_namespace row \<in>
     set (read_array_literal (request_param ''namespaces'' rq))) [sample_row]) 0"

definition sample_deps :: "unit deps" where
  "sample_deps = \<lparr>dp_env = sample_clickhouse, dp_client = sample_clickhouse, dp_sched = id, dp_cfg = sample_config\<rparr>"

theorem events_fail_closed_witness:
  "\<exists>w'. handle_events sample_deps (Some 0) (sample_request []) (new_writer True) ([sample_scoper], ())
       = Some (w', ([sample_scoper], ())) \<and> status_of w' = Some 500"
proof -
  have "resolve_request_scope sample_deps (Some 0) (sample_request []) ([sample_scoper], ())
      = Some (Inl ''rbac scoping enabled but no verified identity on request'', ([sample_scoper], ()))"
    by (simp add: resolve_request_scope_def sample_request_def)
  moreover have "rw_sent (new_writer True) = None" by (simp add: new_writer_def)
  ultimately show ?thesis using events_fail_closed by blast
qed

text \<open>
  Tenant isolation of \<open>/events\<close>: whatever the request asks for, when the answer is not an error
  its body is the JSON of rows each of which lies in a namespace the caller's resolved scope
  allows; a caller with no namespace gets an empty list without a query.
\<close>

theorem events_isolated:
  assumes "handle_events d scoper r w s = Some (w', s')" "rw_sent w = None"
    and "resolve_request_scope d scoper r s = Some (Inr scope, s1)"
    and "honours_events (dp_client d) (dp_cfg d)" "plain_base (clickhouse_url (dp_cfg d))"
  shows "(\<exists>msg code. w' = http_error msg code w \<and> code \<in> {400, 500})
      \<or> (restricted scope \<and> scope_list scope = [] \<and> s' = s1 \<and> rw_body w' = rw_body w @ ''[]'')
      \<or> (\<exists>rows. status_of w' = Some 200 \<and> rw_body w' = rw_body w @ events_body rows
           \<and> (\<forall>row \<in> set rows. allows scope (obj_namespace row)))"
  using assms by (rule handle_events_result)

definition sample_cached :: rbac_scoper where
  "sample_cached = sample_scoper\<lparr>rs_cache := [cache_key sample_user \<mapsto>
     \<lparr>se_scope = \<lparr>allow_all = False, namespaces = [''team-b'']\<rparr>, se_expires = 10\<rparr>]\<rparr>"

definition sample_user_request :: http_request where
  "sample_user_request = (sample_request [])\<lparr>rq_user := Some sample_user\<rparr>"

lemma sample_resolved:
  "resolve_request_scope sample_deps (Some 0) sample_user_request ([sample_cached], ())
     = Some (Inr (Some \<lparr>allow_all = False, namespaces = [''team-b'']\<rparr>), ([sample_cached], ()))"
  by (simp add: resolve_request_scope_def sample_user_request_def scope_for_def sample_deps_def sample_clickhouse_def fixed_env_def
      cache_lookup_def sample_cached_def Let_def)

lemma sample_honours: "honours_events (dp_client sample_deps) (dp_cfg sample_deps)"
  unfolding honours_events_def
proof (intro allI impI)
  fix q scope since sql ps w rows w'
  let ?f = "\<lambda>rq. filter (\<lambda>row. obj_namespace row \<in>
       set (read_array_literal (request_param ''namespaces'' rq))) [sample_row]"
  assume "query_clickhouse (dp_client sample_deps) (dp_cfg sample_deps) sql ps w = (Inr rows, w')"
  moreover have "\<forall>row \<in> set (?f rq). wire_row row" for rq using sample_row_wire by simp
  then have "query_clickhouse (fixed_env ?f 0) sample_config sql ps w
      = (Inr (?f (clickhouse_request sample_config (bound_url sample_config ps) sql)), w)"
    by (intro query_plain_env sample_plain)
  ultimately have "rows = ?f (clickhouse_request sample_config (bound_url sample_config ps) sql)"
    by (simp add: sample_deps_def sample_clickhouse_def)
  then show "\<forall>row \<in> set rows. obj_namespace row \<in> set (arrived_namespaces (dp_cfg sample_deps) sql ps)"
    by (auto simp: arrived_namespaces_def sample_deps_def)
qed

theorem events_isolated_witness:
  "\<exists>w' s'. handle_events sample_deps (Some 0) sample_user_request (new_writer True) ([sample_cached], ()) = Some (w', s')
     \<and> ((\<exists>msg code. w' = http_error msg code (new_writer True) \<and> code \<in> {400, 500})
        \<or> (\<exists>rows. rw_body w' = events_body rows \<and> (\<forall>row \<in> set rows. obj_namespace row = ''team-b'')))"
proof -
  have n: "rw_sent (new_writer True) = None" "rw_body (new_writer True) = []" by (simp_all add: new_writer_def)
  obtain w' s' where h: "handle_events sample_deps (Some 0) sample_user_request (new_writer True)
      ([sample_cached], ()) = Some (w', s')"
    using handle_events_returns [OF sample_resolved] by blast
  have "plain_base (clickhouse_url (dp_cfg sample_deps))" using sample_plain by (simp add: sample_deps_def)
  from events_isolated [OF h n(1) sample_resolved sample_honours this] h n(2) show ?thesis
    by (cases s') auto
qed

text \<open>
  With scoping switched off \<open>/audit\<close> serves nothing: every request is answered 503 with the
  fixed explanation, and neither the scopers nor the world outside are touched, so no record can
  leak unscoped.
\<close>

theorem audit_refuses_unscoped:
  assumes "rw_sent w = None"
  shows "\<exists>w'. handle_audit d None r w s = Some (w', s) \<and> status_of w' = Some 503
      \<and> rw_body w' = rw_body w @ audit_scoping_disabled_body
      \<and> sent_header ''Content-Type'' w' = Some ''application/json''"
  using assms by (simp add: handle_audit_def status_of_def sent_header_def http_simps)

theorem audit_refuses_unscoped_witness:
  "\<exists>w'. handle_audit sample_deps None sample_user_request (new_writer True) ([], ()) = Some (w', ([], ()))
     \<and> status_of w' = Some 503"
  using audit_refuses_unscoped [of "new_writer True" sample_deps sample_user_request "([], ())"]
  by (auto simp: new_writer_def)

text \<open>
  With scoping on every answer of \<open>/audit\<close> is tied to the caller's scope: either the scope could
  not be established and the answer is a 500, or the scope header announces it, a caller with no
  namespace gets an empty list without a query, and any records served came from one query whose
  bound namespace set is, for a restricted caller, exactly the caller's.
\<close>

theorem audit_isolated:
  assumes "handle_audit d (Some ref) r w s = Some (w', s')" "rw_sent w = None"
    and "plain_base (clickhouse_url (dp_cfg d))"
  shows "\<exists>res s1. resolve_request_scope d (Some ref) r s = Some (res, s1) \<and>
     (case res of
        Inl e \<Rightarrow> s' = s1 \<and> status_of w' = Some 500 \<and> rw_body w' = rw_body w @ ''internal error'' @ [nl]
      | Inr scope \<Rightarrow> scope \<noteq> None
          \<and> sent_header scope_header_name w' = scope_header_value scope
          \<and> (if restricted scope \<and> scope_list scope = [] then s' = s1 \<and> rw_body w' = rw_body w @ ''[]''
             else status_of w' = Some 200 \<longrightarrow>
               (\<exists>sql ps rows w2. build_audit_query (url_query r) scope 0 = Inr (sql, ps)
                  \<and> query_audit_records (dp_client d) (dp_cfg d) sql ps (snd s1) = (Inr rows, w2)
                  \<and> rw_body w' = rw_body w @ audit_body rows
                  \<and> (restricted scope \<longrightarrow> arrived_namespaces (dp_cfg d) sql ps = scope_list scope))))"
  using assms by (rule handle_audit_result)

theorem audit_isolated_witness:
  "\<exists>w' s'. handle_audit sample_deps (Some 0) sample_user_request (new_writer True) ([sample_cached], ()) = Some (w', s')
     \<and> sent_header scope_header_name w' = Some ''team-b''"
proof -
  have n: "rw_sent (new_writer True) = None" by (simp add: new_writer_def)
  have p: "plain_base (clickhouse_url (dp_cfg sample_deps))" using sample_plain by (simp add: sample_deps_def)
  obtain w' s' where h: "handle_audit sample_deps (Some 0) sample_user_request (new_writer True)
      ([sample_cached], ()) = Some (w', s')"
    using handle_audit_returns [OF sample_resolved] by blast
  from audit_isolated [OF h n p] sample_resolved
  have "sent_header scope_header_name w' = scope_header_value (Some \<lparr>allow_all = False, namespaces = [''team-b'']\<rparr>)"
    by auto
  with h show ?thesis by (cases s') (auto simp: scope_header_value_def)
qed

end
