(* ===== verification/Metrics.thy ===== *)
theory Metrics
  imports Hub
begin

text \<open>
  \<open>metrics.go\<close>: the counters of the proxy and their nil-safe operations. A counter is the list of
  the values passed to its \<open>Add\<close>, oldest first, so that a recorded zero differs from nothing
  recorded; \<open>counter_total\<close> is what a reader of the counter sees. The OpenTelemetry registration
  calls are a parameter: \<open>register name\<close> is the error registering that instrument returns, if any.
\<close>

record proxy_metrics =
  events_delivered :: "int list"
  events_dropped :: "int list"
  poll_errors :: "int list"

definition counter_total :: "int list \<Rightarrow> int" where
  "counter_total xs = i64 (sum_list xs)"

fun register_all :: "(string \<Rightarrow> go_error option) \<Rightarrow> string list \<Rightarrow> unit result" where
  "register_all register [] = Inr ()"
| "register_all register (n # ns) =
     (case register n of Some e \<Rightarrow> Inl e | None \<Rightarrow> register_all register ns)"

definition instrument_names :: "string list" where
  "instrument_names =
     [''sse_proxy_events_delivered_total'', ''sse_proxy_events_dropped_total'',
      ''sse_proxy_poll_errors_total'', ''sse_proxy_connected_clients'', ''callback'']"

definition init_metrics :: "(string \<Rightarrow> go_error option) \<Rightarrow> proxy_metrics result" where
  "init_metrics register =
     (case register_all register instrument_names of
        Inl e \<Rightarrow> Inl e
      | Inr _ \<Rightarrow> Inr \<lparr>events_delivered = [], events_dropped = [], poll_errors = []\<rparr>)"

text \<open>The callback of the gauge: \<open>int64(h.count())\<close>.\<close>

definition observe_connected :: "hub \<Rightarrow> int" where
  "observe_connected h = i64 (int (hub_count h))"

definition add_events_delivered :: "int \<Rightarrow> proxy_metrics option \<Rightarrow> proxy_metrics option" where
  "add_events_delivered n m =
     (case m of None \<Rightarrow> None | Some p \<Rightarrow> Some (p\<lparr>events_delivered := events_delivered p @ [n]\<rparr>))"

definition add_events_dropped :: "int \<Rightarrow> proxy_metrics option \<Rightarrow> proxy_metrics option" where
  "add_events_dropped n m =
     (case m of None \<Rightarrow> None | Some p \<Rightarrow> Some (p\<lparr>events_dropped := events_dropped p @ [n]\<rparr>))"

definition inc_poll_error :: "proxy_metrics option \<Rightarrow> proxy_metrics option" where
  "inc_poll_error m =
     (case m of None \<Rightarrow> None | Some p \<Rightarrow> Some (p\<lparr>poll_errors := poll_errors p @ [1]\<rparr>))"

lemma metrics_ops [simp]:
  "add_events_delivered n None = None" "add_events_dropped n None = None" "inc_poll_error None = None"
  "add_events_delivered n (Some p) = Some (p\<lparr>events_delivered := events_delivered p @ [n]\<rparr>)"
  "add_events_dropped n (Some p) = Some (p\<lparr>events_dropped := events_dropped p @ [n]\<rparr>)"
  "inc_poll_error (Some p) = Some (p\<lparr>poll_errors := poll_errors p @ [1]\<rparr>)"
  by (simp_all add: add_events_delivered_def add_events_dropped_def inc_poll_error_def)

lemma counter_total_add [simp]: "counter_total (xs @ [n]) = i64 (counter_total xs + n)"
  by (simp add: counter_total_def)

lemma init_metrics_iff:
  "is_ok (init_metrics register) \<longleftrightarrow> (\<forall>n \<in> set instrument_names. register n = None)"
proof -
  have "is_ok (register_all register ns) \<longleftrightarrow> (\<forall>n \<in> set ns. register n = None)" for ns
    by (induction ns) (auto split: option.splits)
  moreover have "is_ok (init_metrics register) = is_ok (register_all register instrument_names)"
    by (simp add: init_metrics_def split: sum.split)
  ultimately show ?thesis by simp
qed

end
