(* ===== verification/Poller.thy ===== *)
theory Poller
  imports Metrics Clickhouse Sql_Text
begin

text \<open>
  The poller of \<open>main.go\<close>: the query and its cursor, one poll with its broadcasts and counters,
  the idle tick, and the loop of \<open>run\<close>. The HTTP client is the environment; the hub is the shared
  one, passed in and returned.
\<close>

section \<open>The query\<close>

definition poll_sql :: string where
  "poll_sql = sql_text
    [''SELECT'',
     ''    toUnixTimestamp(Timestamp)                                                      AS ts_unix,'',
     ''    ifNull(LogAttributes[^krateo.io/composition-id^], ^^)                           AS composition_id,'',
     ''    ifNull(JSONExtractString(Body, ^object^, ^involvedObject^, ^apiVersion^), ^^)   AS obj_apiversion,'',
     ''    ifNull(JSONExtractString(Body, ^object^, ^involvedObject^, ^name^), ^^)         AS obj_name,'',
     ''    ifNull(JSONExtractString(Body, ^object^, ^involvedObject^, ^namespace^), ^^)    AS obj_namespace,'',
     ''    ifNull(JSONExtractString(Body, ^object^, ^involvedObject^, ^uid^), ^^)          AS obj_uid,'',
     ''    ifNull(JSONExtractString(Body, ^object^, ^involvedObject^, ^kind^), ^^)         AS obj_kind,'',
     ''    ifNull(JSONExtractString(Body, ^object^, ^reason^), ^^)                         AS reason,'',
     ''    ifNull(JSONExtractString(Body, ^object^, ^message^), ^^)                        AS message,'',
     ''    ifNull(JSONExtractString(Body, ^object^, ^type^), ^Normal^)                     AS type,'',
     ''    coalesce('',
     ''        nullIf(JSONExtractString(Body, ^object^, ^eventTime^), ^^),'',
     ''        nullIf(JSONExtractString(Body, ^object^, ^lastTimestamp^), ^^),'',
     ''        formatDateTime(toDateTime(Timestamp), ^%%Y-%%m-%%dT%%H:%%i:%%SZ^, ^UTC^)'',
     ''    )                                                                                AS event_time,'',
     ''    ifNull(JSONExtractString(Body, ^object^, ^source^, ^component^), ^^)            AS source_component'',
     ''FROM otel_logs'',
     ''WHERE ResourceAttributes[^telemetry.source^] = ^k8s-events^'',
     ''  AND JSONExtractString(Body, ^object^, ^reason^) != ^^'',
     ''  AND Timestamp >= toDateTime64(%d, 9)'',
     ''ORDER BY Timestamp ASC'',
     ''LIMIT %d'',
     ''FORMAT JSONEachRow'']"

definition live_lookback :: duration where "live_lookback = 30 * second"

definition live_cursor :: "time \<Rightarrow> int" where
  "live_cursor now = unix (now - live_lookback)"

text \<open>\<open>fmt.Sprintf(pollSQL, p.lastSeenUnix+1, pollLimit)\<close>.\<close>

definition poll_query :: "int \<Rightarrow> string" where
  "poll_query seen = sprintf poll_sql [i64 (seen + 1), int poll_limit]"

section \<open>State\<close>

record poller =
  po_cfg :: config
  po_metrics :: "proxy_metrics option"
  last_seen :: int

definition new_poller :: "'w env \<Rightarrow> config \<Rightarrow> proxy_metrics option \<Rightarrow> 'w \<Rightarrow> poller \<times> 'w" where
  "new_poller env cfg m w =
     (case env_now env w of
        (now, w') \<Rightarrow> (\<lparr>po_cfg = cfg, po_metrics = m, last_seen = live_cursor now\<rparr>, w'))"

section \<open>One poll\<close>

text \<open>The loop over the rows, with \<open>maxTs\<close>, the hub and the two counts as its variables.\<close>

fun poll_rows ::
  "ch_row list \<Rightarrow> int \<Rightarrow> hub \<Rightarrow> int \<Rightarrow> int \<Rightarrow> go_panic + (int \<times> hub \<times> int \<times> int)" where
  "poll_rows [] max_ts h delivered dropped = Inr (max_ts, h, delivered, dropped)"
| "poll_rows (row # rows) max_ts h delivered dropped =
     (let max_ts = (if ts_unix row > max_ts then ts_unix row else max_ts)
      in case marshal_event (to_sse_event row) of
           Inl e \<Rightarrow> poll_rows rows max_ts h delivered dropped
         | Inr data \<Rightarrow>
             (case broadcast \<lparr>sm_topic = global_topic, sm_data = data, sm_namespace = obj_namespace row\<rparr> h of
                Inl p \<Rightarrow> Inl p
              | Inr (h1, s1, d1) \<Rightarrow>
                  if composition_id row \<noteq> []
                  then (case broadcast \<lparr>sm_topic = composition_id row, sm_data = data,
                                        sm_namespace = obj_namespace row\<rparr> h1 of
                          Inl p \<Rightarrow> Inl p
                        | Inr (h2, s2, d2) \<Rightarrow>
                            poll_rows rows max_ts h2 (i64 (i64 (delivered + s1) + s2))
                              (i64 (i64 (dropped + d1) + d2)))
                  else poll_rows rows max_ts h1 (i64 (delivered + s1)) (i64 (dropped + d1))))"

definition poll :: "'w env \<Rightarrow> poller \<Rightarrow> hub \<Rightarrow> 'w \<Rightarrow> go_panic + (poller \<times> hub \<times> 'w)" where
  "poll env p h w =
     (case query_clickhouse env (po_cfg p) (poll_query (last_seen p)) [] w of
        (Inl e, w') \<Rightarrow> Inr (p\<lparr>po_metrics := inc_poll_error (po_metrics p)\<rparr>, h, w')
      | (Inr rows, w') \<Rightarrow>
          (case poll_rows rows (last_seen p) h 0 0 of
             Inl pc \<Rightarrow> Inl pc
           | Inr (max_ts, h', delivered, dropped) \<Rightarrow>
               let p' = (if max_ts > last_seen p then p\<lparr>last_seen := max_ts\<rparr> else p)
               in Inr (if length rows > 0
                       then p'\<lparr>po_metrics := add_events_dropped dropped
                                 (add_events_delivered delivered (po_metrics p'))\<rparr>
                       else p', h', w')))"

definition tick :: "'w env \<Rightarrow> time \<Rightarrow> poller \<Rightarrow> hub \<Rightarrow> 'w \<Rightarrow> go_panic + (poller \<times> hub \<times> 'w)" where
  "tick env now p h w =
     (if hub_count h = 0
      then Inr (if live_cursor now > last_seen p then p\<lparr>last_seen := live_cursor now\<rparr> else p, h, w)
      else poll env p h w)"

text \<open>
  The loop of \<open>run\<close>, driven by what its \<open>select\<close> chooses: the context is done, or the ticker fires.
  Between two choices the connection handlers may have changed the hub.
\<close>

datatype poller_event = CtxDone | Ticked time | HubBecomes hub

fun run_poller ::
  "'w env \<Rightarrow> poller_event list \<Rightarrow> poller \<Rightarrow> hub \<Rightarrow> 'w \<Rightarrow> go_panic + (poller \<times> hub \<times> 'w)" where
  "run_poller env [] p h w = Inr (p, h, w)"
| "run_poller env (CtxDone # es) p h w = Inr (p, h, w)"
| "run_poller env (HubBecomes h' # es) p h w = run_poller env es p h' w"
| "run_poller env (Ticked now # es) p h w =
     (case tick env now p h w of
        Inl pc \<Rightarrow> Inl pc
      | Inr (p', h', w') \<Rightarrow> run_poller env es p' h' w')"

section \<open>A poll as a sequence of messages\<close>

definition row_data :: "ch_row \<Rightarrow> string" where
  "row_data row = event_json (to_sse_event row)"

definition global_message :: "ch_row \<Rightarrow> sse_message" where
  "global_message row =
     \<lparr>sm_topic = global_topic, sm_data = row_data row, sm_namespace = obj_namespace row\<rparr>"

definition composition_message :: "ch_row \<Rightarrow> sse_message" where
  "composition_message row =
     \<lparr>sm_topic = composition_id row, sm_data = row_data row, sm_namespace = obj_namespace row\<rparr>"

definition row_messages :: "ch_row \<Rightarrow> sse_message list" where
  "row_messages row =
     global_message row # (if composition_id row \<noteq> [] then [composition_message row] else [])"

definition poll_messages :: "ch_row list \<Rightarrow> sse_message list" where
  "poll_messages rows = concat (map row_messages rows)"

lemma poll_messages_simps [simp]:
  "poll_messages [] = []"
  "poll_messages (row # rows) = row_messages row @ poll_messages rows"
  by (simp_all add: poll_messages_def)

lemma poll_rows_broadcasts:
  "poll_rows rows m h s d =
     (case broadcast_all (poll_messages rows) h s d of
        Inl p \<Rightarrow> Inl p
      | Inr (h', s', d') \<Rightarrow> Inr (foldl max m (map ts_unix rows), h', s', d'))"
proof (induction rows arbitrary: m h s d)
  case (Cons row rows)
  have "max m (ts_unix row) = (if ts_unix row > m then ts_unix row else m)" by simp
  then show ?case
    by (simp add: Cons row_messages_def global_message_def composition_message_def row_data_def
        marshal_event_def Let_def split: sum.split)
qed simp

section \<open>What one poll does\<close>

definition polled :: "ch_row list \<Rightarrow> hub \<Rightarrow> poller \<Rightarrow> poller" where
  "polled rows h p =
     (if rows = [] then p
      else p\<lparr>last_seen := foldl max (last_seen p) (map ts_unix rows),
             po_metrics :=
               add_events_dropped
                 (i64 (int (\<Sum>c\<leftarrow>hub_members h. refused_count (poll_messages rows) (hub_store h c))))
                 (add_events_delivered
                   (i64 (int (\<Sum>c\<leftarrow>hub_members h. taken_count (poll_messages rows) (hub_store h c))))
                   (po_metrics p))\<rparr>)"

lemma poll_result:
  assumes "hub_inv h" "query_clickhouse env (po_cfg p) (poll_query (last_seen p)) [] w = (Inr rows, w')"
  shows "poll env p h w = Inr (polled rows h p, after_messages (poll_messages rows) h, w')"
proof (cases rows)
  case Nil
  with assms show ?thesis by (simp add: poll_def polled_def)
next
  case (Cons row rs)
  have "foldl max (last_seen p) (map ts_unix rows) = last_seen p"
    if "\<not> last_seen p < foldl max (last_seen p) (map ts_unix rows)"
    using that fold_max_ge [of "last_seen p" "map ts_unix rows"] by simp
  then show ?thesis
    using assms(2) Cons
    by (auto simp: poll_def polled_def poll_rows_broadcasts Let_def
        broadcast_all_result [OF assms(1) zero_range zero_range])
qed

lemma poll_error:
  "query_clickhouse env (po_cfg p) (poll_query (last_seen p)) [] w = (Inl e, w') \<Longrightarrow>
     poll env p h w = Inr (p\<lparr>po_metrics := inc_poll_error (po_metrics p)\<rparr>, h, w')"
  by (simp add: poll_def)

lemma polled_fields [simp]:
  "po_cfg (polled rows h p) = po_cfg p"
  "last_seen (polled rows h p) = foldl max (last_seen p) (map ts_unix rows)"
  by (simp_all add: polled_def)

text \<open>A poll never panics, keeps the hub's invariant and never moves the cursor back.\<close>

lemma poll_safe:
  assumes "hub_inv h"
  shows "\<exists>p' h' w'. poll env p h w = Inr (p', h', w') \<and> hub_inv h' \<and> hub_members h' = hub_members h
     \<and> last_seen p \<le> last_seen p' \<and> po_cfg p' = po_cfg p"
proof (cases "query_clickhouse env (po_cfg p) (poll_query (last_seen p)) [] w")
  case (Pair r w')
  show ?thesis
  proof (cases r)
    case (Inl e)
    with Pair assms show ?thesis by (simp add: poll_error)
  next
    case (Inr rows)
    with Pair assms show ?thesis
      by (simp add: poll_result hub_inv_after_messages fold_max_ge)
  qed
qed

lemma tick_safe:
  assumes "hub_inv h"
  shows "\<exists>p' h' w'. tick env now p h w = Inr (p', h', w') \<and> hub_inv h'
     \<and> hub_members h' = hub_members h \<and> last_seen p \<le> last_seen p' \<and> po_cfg p' = po_cfg p"
  using poll_safe [OF assms, of env p w] assms by (auto simp: tick_def)

section \<open>Which rows a client sees\<close>

definition row_visible :: "client \<Rightarrow> ch_row \<Rightarrow> bool" where
  "row_visible cl row \<longleftrightarrow>
     (cl_topic cl = [] \<or> cl_topic cl = global_topic \<or> cl_topic cl = composition_id row)
     \<and> allows (cl_scope cl) (obj_namespace row)"

lemma wants_row:
  assumes "composition_id row \<noteq> global_topic"
  shows "map sm_data (filter (wants cl) (row_messages row))
       = (if row_visible cl row then [row_data row] else [])"
  using assms
  by (auto simp: row_messages_def wants_def Let_def row_visible_def global_message_def
      composition_message_def)

lemma wants_poll:
  "\<forall>row \<in> set rows. composition_id row \<noteq> global_topic \<Longrightarrow>
     map sm_data (filter (wants cl) (poll_messages rows)) = map row_data (filter (row_visible cl) rows)"
  by (induction rows) (simp_all add: wants_row)

lemma wants_poll_length:
  "\<forall>row \<in> set rows. composition_id row \<noteq> global_topic \<Longrightarrow>
     length (filter (wants cl) (poll_messages rows)) = length (filter (row_visible cl) rows)"
  using wants_poll [of rows cl] by (metis length_map)

section \<open>The table a poll reads\<close>

text \<open>
  What \<open>WHERE Timestamp >= c ORDER BY Timestamp ASC LIMIT 500\<close> returns from a table that is sorted
  by its timestamps.
\<close>

definition page :: "ch_row list \<Rightarrow> int \<Rightarrow> ch_row list" where
  "page tbl c = take poll_limit (filter (\<lambda>r. c \<le> ts_unix r) tbl)"

lemma page_bounds: "r \<in> set (page tbl c) \<Longrightarrow> c \<le> ts_unix r \<and> r \<in> set tbl"
  by (auto simp: page_def dest: in_set_takeD)

lemma page_short: "length (filter (\<lambda>r. c \<le> ts_unix r) tbl) \<le> poll_limit \<Longrightarrow>
    page tbl c = filter (\<lambda>r. c \<le> ts_unix r) tbl"
  by (simp add: page_def)

lemma foldl_max_sorted: "sorted xs \<Longrightarrow> xs \<noteq> [] \<Longrightarrow> m \<le> hd xs \<Longrightarrow> foldl max (m::int) xs = last xs"
proof (induction xs arbitrary: m)
  case (Cons y ys)
  then show ?case by (cases ys) (auto simp: max_def)
qed simp

lemma page_maximum:
  assumes "sorted (map ts_unix tbl)" "page tbl (c + 1) \<noteq> []"
  shows "foldl max c (map ts_unix (page tbl (c + 1))) = ts_unix (last (page tbl (c + 1)))"
proof -
  let ?p = "page tbl (c + 1)"
  have "sorted (map ts_unix (filter (\<lambda>r. c + 1 \<le> ts_unix r) tbl))"
    using assms(1) by (rule sorted_filter)
  then have "sorted (map ts_unix ?p)" by (simp add: page_def take_map [symmetric])
  moreover have "c \<le> hd (map ts_unix ?p)"
    using page_bounds [of "hd ?p" tbl "c + 1"] assms(2) by (simp add: hd_map)
  ultimately show ?thesis using assms(2) by (simp add: foldl_max_sorted last_map)
qed

text \<open>
  The rows of the seconds a poll moves its cursor over are the rows it fetched and, when the limit
  cut the page, the rest of the last second.
\<close>

lemma page_gap:
  assumes "sorted (map ts_unix tbl)" and c'_def: "c' = foldl max c (map ts_unix (page tbl (c + 1)))"
  shows "\<exists>lost. filter (\<lambda>r. c < ts_unix r \<and> ts_unix r \<le> c') tbl = page tbl (c + 1) @ lost
      \<and> (\<forall>r \<in> set lost. ts_unix r = c')
      \<and> (length (filter (\<lambda>r. c < ts_unix r) tbl) \<le> poll_limit \<longrightarrow> lost = [])"
proof -
  let ?new = "filter (\<lambda>r. c + 1 \<le> ts_unix r) tbl"
  let ?rest = "drop poll_limit ?new"
  let ?lost = "filter (\<lambda>r. ts_unix r \<le> c') ?rest"
  have new: "?new = page tbl (c + 1) @ ?rest" by (simp add: page_def)
  have le: "\<forall>r \<in> set (page tbl (c + 1)). ts_unix r \<le> c'"
    unfolding c'_def by (auto intro: foldl_max_upper)
  have "filter (\<lambda>r. c < ts_unix r \<and> ts_unix r \<le> c') tbl = filter (\<lambda>r. ts_unix r \<le> c') ?new"
    by (auto intro: filter_cong)
  also have "\<dots> = page tbl (c + 1) @ ?lost"
    using le by (subst new) simp
  finally have split: "filter (\<lambda>r. c < ts_unix r \<and> ts_unix r \<le> c') tbl = page tbl (c + 1) @ ?lost" .
  have srt: "sorted (map ts_unix (page tbl (c + 1) @ ?rest))"
    using assms(1) new sorted_filter by metis
  have "ts_unix r = c'" if "r \<in> set ?lost" for r
  proof -
    from that have "page tbl (c + 1) \<noteq> []"
      by (auto simp: page_def poll_limit_def)
    then have "c' = ts_unix (last (page tbl (c + 1)))" "last (page tbl (c + 1)) \<in> set (page tbl (c + 1))"
      using page_maximum [OF assms(1)] by (auto simp: c'_def)
    with srt that show ?thesis by (fastforce simp: sorted_append)
  qed
  moreover have "filter (\<lambda>r. c < ts_unix r) tbl = ?new" by (rule filter_cong) auto
  then have "length (filter (\<lambda>r. c < ts_unix r) tbl) \<le> poll_limit \<Longrightarrow> ?lost = []" by (simp only: drop_all filter.simps)
  ultimately show ?thesis using split by blast
qed

section \<open>Properties of the poller\<close>

text \<open>
  When a poll gets at most a full page of rows and no client is behind, nothing is lost: the
  poll returns, every registered client finds at the end of its queue the JSON of exactly the rows
  of its topic in namespaces its scope allows, once each and in the order ClickHouse returned them,
  the cursor is the latest timestamp seen, and the dropped counter records a zero (rows of a
  composition whose id is the global topic apart, which \<open>krateo_composition_twice\<close> is about).
\<close>

theorem poll_delivers:
  assumes "hub_inv h"
    and "query_clickhouse env (po_cfg p) (poll_query (last_seen p)) [] w = (Inr rows, w')"
    and "length rows \<le> poll_limit" "rows \<noteq> []"
    and "\<forall>row \<in> set rows. composition_id row \<noteq> global_topic"
    and "\<forall>c \<in> set (hub_members h). \<forall>cl. hub_store h c = Some cl \<longrightarrow> ch_buf (cl_ch cl) = []"
  shows "\<exists>p' h'. poll env p h w = Inr (p', h', w')
      \<and> last_seen p' = foldl max (last_seen p) (map ts_unix rows)
      \<and> (\<forall>m. po_metrics p = Some m \<longrightarrow>
           (\<exists>m'. po_metrics p' = Some m' \<and> events_dropped m' = events_dropped m @ [0]))
      \<and> (\<forall>c \<in> set (hub_members h). \<forall>cl. hub_store h c = Some cl \<longrightarrow>
           (\<exists>cl'. hub_store h' c = Some cl'
              \<and> map sm_data (ch_buf (cl_ch cl')) = map row_data (filter (row_visible cl) rows)))"
proof -
  have room: "client_ok cl \<and> chan_room (cl_ch cl) = client_buffer"
    if "c \<in> set (hub_members h)" "hub_store h c = Some cl" for c cl
    using hub_invD [OF assms(1) that(1)] assms(6) that by (auto simp: chan_room_def client_ok_def)
  have fits: "length (filter (wants cl) (poll_messages rows)) \<le> client_buffer" for cl
    using wants_poll_length [OF assms(5), of cl] length_filter_le [of "row_visible cl" rows] assms(3)
    unfolding client_buffer_def by linarith
  have "\<forall>c \<in> set (hub_members h). refused_count (poll_messages rows) (hub_store h c) = 0"
    using room fits by (auto simp: refused_count_def split: option.split)
  then have none: "(\<Sum>c\<leftarrow>hub_members h. refused_count (poll_messages rows) (hub_store h c)) = 0"
    by (simp add: sum_list_eq_0_iff)
  have "map sm_data (ch_buf (cl_ch (receive_all (poll_messages rows) cl)))
      = map row_data (filter (row_visible cl) rows)"
    if "c \<in> set (hub_members h)" "hub_store h c = Some cl" for c cl
    using room [OF that] fits [of cl] wants_poll [OF assms(5), of cl] assms(6) that
    by (simp add: receive_all_buf)
  then show ?thesis
    using poll_result [OF assms(1,2)] assms(4) none
    by (auto simp: polled_def after_messages_store split: option.split)
qed


definition sample_poller :: poller where
  "sample_poller = \<lparr>po_cfg = sample_config,
     po_metrics = Some \<lparr>events_delivered = [], events_dropped = [], poll_errors = []\<rparr>, last_seen = 90\<rparr>"

lemma sample_query:
  assumes "\<forall>row \<in> set rows. wire_row row"
  shows "query_clickhouse (fixed_env (\<lambda>_. rows) t) (po_cfg sample_poller) q [] w = (Inr rows, w)"
proof -
  obtain x where "parse_url (clickhouse_url sample_config) = Inr x" using sample_url by blast
  from query_fixed_env [OF this, of "\<lambda>_. rows" q t w] assms show ?thesis by (simp add: sample_poller_def)
qed

lemma sample_hub_empty:
  "\<forall>c \<in> set (hub_members sample_hub). \<forall>cl. hub_store sample_hub c = Some cl \<longrightarrow> ch_buf (cl_ch cl) = []"
  by (simp add: sample_hub_def hub_register_def alloc_client_def new_hub_def new_client_def make_chan_def)

lemma sample_row_topic: "composition_id sample_row \<noteq> global_topic"
  by (simp add: sample_row_def global_topic_def)

theorem poll_delivers_witness:
  "\<exists>p' h'. poll (fixed_env (\<lambda>_. [sample_row]) 0) sample_poller sample_hub () = Inr (p', h', ())
     \<and> last_seen p' = 100"
proof -
  have "foldl max (last_seen sample_poller) (map ts_unix [sample_row]) = 100"
    by (simp add: sample_poller_def sample_row_def)
  with poll_delivers [OF sample_hub_inv sample_query, of "[sample_row]" 0 "()"] show ?thesis
    using sample_hub_empty sample_row_topic sample_row_wire by (auto simp: poll_limit_def)
qed










text \<open>
  A failed poll changes nothing but the error counter: the cursor stays, so the next poll asks
  for the same rows again, and no client gets anything.
\<close>

theorem poll_error_keeps:
  assumes "query_clickhouse env (po_cfg p) (poll_query (last_seen p)) [] w = (Inl e, w')"
  shows "poll env p h w = Inr (p\<lparr>po_metrics := inc_poll_error (po_metrics p)\<rparr>, h, w')"
  using assms by (rule poll_error)


theorem poll_error_keeps_witness:
  "poll ((fixed_env (\<lambda>_. []) 0)\<lparr>env_http := \<lambda>rq w. (Inl ''refused'', w)\<rparr>) sample_poller sample_hub ()
     = Inr (sample_poller\<lparr>po_metrics := inc_poll_error (po_metrics sample_poller)\<rparr>, sample_hub, ())"
proof (rule poll_error_keeps)
  show "query_clickhouse ((fixed_env (\<lambda>_. []) 0)\<lparr>env_http := \<lambda>rq w. (Inl ''refused'', w)\<rparr>)
      (po_cfg sample_poller) (poll_query (last_seen sample_poller)) [] () = (Inl ''http request: refused'', ())"
    using sample_url
    by (auto simp: query_clickhouse_def clickhouse_exchange_def clickhouse_endpoint_def sample_poller_def
        fixed_env_def)
qed

text \<open>
  Whatever ClickHouse answers, however many ticks fire and however the connection handlers
  change the hub in between, the poller's loop returns without a panic, leaves the hub well formed
  and never moves the cursor back.
\<close>

theorem run_poller_safe:
  assumes "hub_inv h" "\<forall>h'. HubBecomes h' \<in> set es \<longrightarrow> hub_inv h'"
  shows "\<exists>p' h' w'. run_poller env es p h w = Inr (p', h', w') \<and> hub_inv h'
      \<and> last_seen p \<le> last_seen p' \<and> po_cfg p' = po_cfg p"
  using assms
proof (induction env es p h w rule: run_poller.induct)
  case (4 env now es p h w)
  from tick_safe [OF "4.prems"(1), of env now p w] obtain p1 h1 w1 where
    t: "tick env now p h w = Inr (p1, h1, w1)" "hub_inv h1" "last_seen p \<le> last_seen p1"
       "po_cfg p1 = po_cfg p" by blast
  have "\<exists>p' h' w'. run_poller env es p1 h1 w1 = Inr (p', h', w') \<and> hub_inv h'
      \<and> last_seen p1 \<le> last_seen p' \<and> po_cfg p' = po_cfg p1"
    using "4.IH" [OF t(1)] t(2) "4.prems"(2) by auto
  with t show ?case by (auto intro: order_trans)
qed auto


theorem run_poller_safe_witness:
  "\<exists>p' h' w'. run_poller (fixed_env (\<lambda>_. [sample_row]) 0) [Ticked 0, HubBecomes sample_hub, Ticked 5, CtxDone]
       sample_poller new_hub () = Inr (p', h', w') \<and> 90 \<le> last_seen p'"
  using run_poller_safe [OF hub_inv_new, of "[Ticked 0, HubBecomes sample_hub, Ticked 5, CtxDone]"
      "fixed_env (\<lambda>_. [sample_row]) 0" sample_poller "()"] sample_hub_inv
  by (auto simp: sample_poller_def)

text \<open>
  With nobody connected a tick asks ClickHouse for nothing: the world is untouched, nothing is
  counted, and the cursor moves up to 30 seconds before the tick's time unless it is already past
  that, so the next client is not served the backlog.
\<close>

theorem idle_tick:
  assumes "hub_members h = []"
  shows "\<exists>p'. tick env now p h w = Inr (p', h, w) \<and> po_metrics p' = po_metrics p
      \<and> last_seen p' = max (last_seen p) (live_cursor now)"
  using assms by (simp add: tick_def hub_count_def max_def)


theorem idle_tick_witness:
  "\<exists>p'. tick (fixed_env (\<lambda>_. []) 0) (131 * second) sample_poller new_hub () = Inr (p', new_hub, ())
     \<and> last_seen p' = 101"
  using idle_tick [of new_hub "fixed_env (\<lambda>_. []) 0" "131 * second" sample_poller "()"]
  by (auto simp: new_hub_def sample_poller_def live_cursor_def live_lookback_def unix_def second_def
      int64_range_def)

text \<open>
  A composition whose id is the name of the global topic is delivered twice to every client
  of the global topic, where any other row is delivered once.
\<close>

theorem krateo_composition_twice:
  assumes "composition_id row = global_topic" "cl_topic cl = [] \<or> cl_topic cl = global_topic"
    "allows (cl_scope cl) (obj_namespace row)"
  shows "map sm_data (filter (wants cl) (row_messages row)) = [row_data row, row_data row]"
  using assms
  by (auto simp: row_messages_def wants_def Let_def global_message_def composition_message_def
      global_topic_def)



theorem krateo_composition_twice_witness:
  "map sm_data (filter (wants (new_client [] None))
       (row_messages (sample_row\<lparr>composition_id := ''krateo''\<rparr>)))
     = [row_data (sample_row\<lparr>composition_id := ''krateo''\<rparr>),
        row_data (sample_row\<lparr>composition_id := ''krateo''\<rparr>)]"
  by (rule krateo_composition_twice) (simp_all add: global_topic_def new_client_def allows_def)

end
