(* ===== verification/Sse_Handler.thy ===== *)
theory Sse_Handler
  imports Handlers Hub Poller
begin

text \<open>
  \<open>handleSSE\<close> of \<open>main.go\<close>: the opening of a stream with its headers, the registration of the
  client, the loop over its \<open>select\<close>, and the clean-up. The loop is driven by the choices its
  select makes; between two of them the poller may broadcast, which is one of the events here.
\<close>

section \<open>Frames\<close>

datatype sse_frame = Connected | Ping | Message sse_message

definition frame_text :: "sse_frame \<Rightarrow> string" where
  "frame_text f =
     (case f of
        Connected \<Rightarrow> '': connected'' @ [nl, nl]
      | Ping \<Rightarrow> '': keepalive'' @ [nl, nl]
      | Message m \<Rightarrow> ''event: '' @ sm_topic m @ [nl] @ ''data: '' @ sm_data m @ [nl, nl])"

definition write_frame :: "sse_frame \<Rightarrow> response_writer \<Rightarrow> response_writer" where
  "write_frame f w = write_body (frame_text f) w"

section \<open>Opening a stream\<close>

definition expose_scope :: "ns_scope option \<Rightarrow> response_writer \<Rightarrow> response_writer" where
  "expose_scope scope w =
     (case scope_header_value scope of
        None \<Rightarrow> w
      | Some v \<Rightarrow> header_set ''Access-Control-Expose-Headers'' scope_header_name
                    (header_set scope_header_name v w))"

definition stream_headers :: "ns_scope option \<Rightarrow> response_writer \<Rightarrow> response_writer" where
  "stream_headers scope w =
     header_set ''X-Accel-Buffering'' ''no''
       (header_set ''Connection'' ''keep-alive''
         (header_set ''Cache-Control'' ''no-cache''
           (header_set ''Content-Type'' ''text/event-stream'' (expose_scope scope w))))"

datatype sse_start = SseReply response_writer | SseStream response_writer string "ns_scope option"

definition sse_open ::
  "'w deps \<Rightarrow> scoper_ref option \<Rightarrow> http_request \<Rightarrow> response_writer \<Rightarrow> 'w state
     \<Rightarrow> (sse_start \<times> 'w state) option" where
  "sse_open d scoper r w s =
     (if \<not> rw_flusher w then Some (SseReply (http_error ''streaming not supported'' 500 w), s)
      else (case resolve_request_scope d scoper r s of
              None \<Rightarrow> None
            | Some (Inl e, s1) \<Rightarrow> Some (SseReply (http_error ''internal error'' 500 w), s1)
            | Some (Inr scope, s1) \<Rightarrow>
                Some (SseStream (stream_headers scope w) (values_get ''composition_id'' (url_query r)) scope, s1)))"

section \<open>The loop\<close>

datatype stream_event = RequestDone | KeepaliveTick | ChannelReady | Published sse_message

text \<open>
  The flag tells whether the loop has returned or still waits in its select. A select whose channel
  has nothing to give does not choose it, so such a choice changes nothing.
\<close>

fun stream_loop ::
  "cid \<Rightarrow> stream_event list \<Rightarrow> hub \<Rightarrow> response_writer \<Rightarrow> go_panic + (hub \<times> response_writer \<times> bool)" where
  "stream_loop c [] h w = Inr (h, w, False)"
| "stream_loop c (RequestDone # es) h w = Inr (h, w, True)"
| "stream_loop c (KeepaliveTick # es) h w = stream_loop c es h (write_frame Ping w)"
| "stream_loop c (ChannelReady # es) h w =
     (case client_recv c h of
        (Got m, h') \<Rightarrow> stream_loop c es h' (write_frame (Message m) w)
      | (ChanClosed, h') \<Rightarrow> Inr (h', w, True)
      | (WouldBlock, h') \<Rightarrow> stream_loop c es h' w)"
| "stream_loop c (Published m # es) h w =
     (case broadcast m h of
        Inl p \<Rightarrow> Inl p
      | Inr (h', _, _) \<Rightarrow> stream_loop c es h' w)"

text \<open>From the registration to the deferred \<open>unregister\<close>, for a client at a fresh address \<open>c\<close>.\<close>

definition serve_stream ::
  "cid \<Rightarrow> string \<Rightarrow> ns_scope option \<Rightarrow> stream_event list \<Rightarrow> hub \<Rightarrow> response_writer
     \<Rightarrow> go_panic + (hub \<times> response_writer \<times> bool)" where
  "serve_stream c topic scope es h w =
     (let h1 = hub_register c (alloc_client c (new_client topic scope) h)
      in case stream_loop c es h1 (write_frame Connected w) of
           Inl p \<Rightarrow> Inl p
         | Inr (h2, w2, False) \<Rightarrow> Inr (h2, w2, False)
         | Inr (h2, w2, True) \<Rightarrow>
             (case hub_unregister c h2 of
                Inl p \<Rightarrow> Inl p
              | Inr h3 \<Rightarrow> Inr (h3, w2, True)))"

definition handle_sse ::
  "cid \<Rightarrow> stream_event list \<Rightarrow> 'w deps \<Rightarrow> scoper_ref option \<Rightarrow> http_request \<Rightarrow> response_writer
     \<Rightarrow> 'w state \<Rightarrow> hub \<Rightarrow> (go_panic + (hub \<times> response_writer \<times> bool) \<times> 'w state) option" where
  "handle_sse c es d scoper r w s h =
     (case sse_open d scoper r w s of
        None \<Rightarrow> None
      | Some (SseReply w', s') \<Rightarrow> Some (Inr ((h, w', True), s'))
      | Some (SseStream w' topic scope, s') \<Rightarrow>
          (case serve_stream c topic scope es h w' of
             Inl p \<Rightarrow> Some (Inl p)
           | Inr res \<Rightarrow> Some (Inr (res, s'))))"

section \<open>What a reader of the stream sees\<close>

text \<open>
  The event stream interpretation of the HTML standard for a stream without carriage returns: a
  line that starts with a colon is a comment, \<open>event\<close> and \<open>data\<close> fill the buffers with what follows
  the colon and one optional space, and an empty line dispatches them unless there is no data. A
  line is complete when its line feed has arrived.
\<close>

definition field_value :: "string \<Rightarrow> string" where
  "field_value v = (case v of c # t \<Rightarrow> if c = CHR '' '' then t else v | [] \<Rightarrow> [])"

fun sse_read :: "string list \<Rightarrow> string \<Rightarrow> string list \<Rightarrow> (string \<times> string) list" where
  "sse_read [] ev data = []"
| "sse_read (l # ls) ev data =
     (if l = []
      then (if data = [] then [] else [(if ev = [] then ''message'' else ev, join [nl] data)]) @ sse_read ls [] []
      else (case cut CHR '':'' l of
              (field, v, found) \<Rightarrow>
                if field = ''event'' then sse_read ls (field_value v) data
                else if field = ''data'' then sse_read ls ev (data @ [field_value v])
                else sse_read ls ev data))"

definition sse_decode :: "string \<Rightarrow> (string \<times> string) list" where
  "sse_decode s = sse_read (butlast (split_on nl s)) [] []"

definition clean_message :: "sse_message \<Rightarrow> bool" where
  "clean_message m \<longleftrightarrow> nl \<notin> set (sm_topic m) \<and> nl \<notin> set (sm_data m) \<and> sm_topic m \<noteq> []"

definition frame_messages :: "sse_frame list \<Rightarrow> sse_message list" where
  "frame_messages fs = concat (map (\<lambda>f. case f of Message m \<Rightarrow> [m] | _ \<Rightarrow> []) fs)"

definition frame_lines :: "sse_frame \<Rightarrow> string list" where
  "frame_lines f =
     (case f of
        Connected \<Rightarrow> ['': connected'', []]
      | Ping \<Rightarrow> ['': keepalive'', []]
      | Message m \<Rightarrow> [''event: '' @ sm_topic m, ''data: '' @ sm_data m, []])"

lemma frame_text_lines: "frame_text f = concat (map (\<lambda>l. l @ [nl]) (frame_lines f))"
  by (cases f) (simp_all add: frame_text_def frame_lines_def)

lemma split_lines:
  "\<forall>l \<in> set ls. nl \<notin> set l \<Longrightarrow> split_on nl (concat (map (\<lambda>l. l @ [nl]) ls)) = ls @ [[]]"
proof (induction ls)
  case (Cons l ls)
  then show ?case using split_on_append_sep [of nl l "concat (map (\<lambda>l. l @ [nl]) ls)"] by simp
qed simp

lemma frame_lines_clean:
  "(\<And>m. f = Message m \<Longrightarrow> clean_message m) \<Longrightarrow> \<forall>l \<in> set (frame_lines f). nl \<notin> set l"
  by (cases f) (auto simp: frame_lines_def clean_message_def)

lemma sse_read_frame:
  assumes "\<And>m. f = Message m \<Longrightarrow> clean_message m"
  shows "sse_read (frame_lines f @ ls) [] []
     = (case f of Message m \<Rightarrow> [(sm_topic m, sm_data m)] | _ \<Rightarrow> []) @ sse_read ls [] []"
  using assms
  by (cases f) (auto simp: frame_lines_def clean_message_def field_value_def)

lemma decode_frames:
  assumes "\<forall>m \<in> set (frame_messages fs). clean_message m"
  shows "sse_decode (concat (map frame_text fs)) = map (\<lambda>m. (sm_topic m, sm_data m)) (frame_messages fs)"
proof -
  have c: "clean_message m" if "Message m \<in> set fs" for m
    using assms that by (auto simp: frame_messages_def)
  have "\<forall>l \<in> set (frame_lines f). nl \<notin> set l" if "f \<in> set fs" for f
    using c that by (intro frame_lines_clean) simp
  then have "\<forall>l \<in> set (concat (map frame_lines fs)). nl \<notin> set l" by auto
  moreover have "concat (map frame_text fs) = concat (map (\<lambda>l. l @ [nl]) (concat (map frame_lines fs)))"
    by (induction fs) (simp_all add: frame_text_lines)
  ultimately have "sse_decode (concat (map frame_text fs)) = sse_read (concat (map frame_lines fs)) [] []"
    by (simp only: sse_decode_def split_lines butlast_snoc)
  also have "\<dots> = map (\<lambda>m. (sm_topic m, sm_data m)) (frame_messages fs)"
    using c
  proof (induction fs)
    case (Cons f fs)
    then have "sse_read (frame_lines f @ concat (map frame_lines fs)) [] []
        = (case f of Message m \<Rightarrow> [(sm_topic m, sm_data m)] | _ \<Rightarrow> []) @ sse_read (concat (map frame_lines fs)) [] []"
      by (intro sse_read_frame) auto
    with Cons show ?case by (cases f) (simp_all add: frame_messages_def)
  qed (simp add: frame_messages_def)
  finally show ?thesis .
qed

section \<open>What the loop does\<close>

text \<open>The messages published until the loop returns.\<close>

fun published :: "stream_event list \<Rightarrow> sse_message list" where
  "published [] = []"
| "published (RequestDone # es) = []"
| "published (Published m # es) = m # published es"
| "published (e # es) = published es"

text \<open>The client at \<open>c\<close> is registered and its channel holds \<open>buf\<close>.\<close>

definition listening :: "cid \<Rightarrow> (sse_message \<Rightarrow> bool) \<Rightarrow> sse_message list \<Rightarrow> hub \<Rightarrow> bool" where
  "listening c want buf h \<longleftrightarrow> hub_inv h \<and> c \<in> set (hub_members h)
     \<and> (\<exists>cl. hub_store h c = Some cl \<and> wants cl = want \<and> ch_buf (cl_ch cl) = buf)"

lemma wants_channel [simp]: "wants (cl\<lparr>cl_ch := ch\<rparr>) = wants cl"
  by (simp add: wants_def fun_eq_iff)

lemma listening_recv:
  assumes "listening c want buf h"
  shows "client_recv c h =
     (case buf of
        [] \<Rightarrow> (WouldBlock, h)
      | m # ms \<Rightarrow> (Got m, snd (client_recv c h)))"
    and "buf = m # ms \<Longrightarrow> listening c want ms (snd (client_recv c h))
          \<and> hub_members (snd (client_recv c h)) = hub_members h"
proof -
  from assms obtain cl where cl: "hub_store h c = Some cl" "wants cl = want" "ch_buf (cl_ch cl) = buf"
      "hub_inv h" "c \<in> set (hub_members h)"
    by (auto simp: listening_def)
  from hub_invD [OF cl(4,5)] cl(1) have ok: "client_ok cl" by simp
  show "client_recv c h =
     (case buf of
        [] \<Rightarrow> (WouldBlock, h)
      | m # ms \<Rightarrow> (Got m, snd (client_recv c h)))"
  proof (cases buf)
    case Nil
    have "(hub_store h)(c \<mapsto> cl) = hub_store h" using cl(1) by (rule fun_upd_idem)
    with Nil cl ok show ?thesis
      by (simp add: client_recv_def chan_recv_def client_ok_def chan_ok_def)
  next
    case (Cons m ms)
    with cl(1,3) have "fst (client_recv c h) = Got m" by (simp add: client_recv_def chan_recv_def)
    then have "client_recv c h = (Got m, snd (client_recv c h))" by (metis prod.collapse)
    with Cons show ?thesis by (simp only: list.case)
  qed
  assume b: "buf = m # ms"
  let ?cl = "cl\<lparr>cl_ch := (cl_ch cl)\<lparr>ch_buf := ms\<rparr>\<rparr>"
  have h: "snd (client_recv c h) = h\<lparr>hub_store := (hub_store h)(c \<mapsto> ?cl)\<rparr>"
    using cl b by (simp add: client_recv_def chan_recv_def)
  have "wants ?cl = want" using cl(2) by simp
  moreover have "client_ok ?cl" using ok cl(3) b by (auto simp: client_ok_def chan_ok_def)
  ultimately show "listening c want ms (snd (client_recv c h))
      \<and> hub_members (snd (client_recv c h)) = hub_members h"
    using cl(4,5) unfolding h by (auto simp: listening_def hub_inv_def)
qed

lemma listening_broadcast:
  assumes "listening c want buf h"
  shows "\<exists>h' s d. broadcast m h = Inr (h', s, d) \<and> hub_members h' = hub_members h
     \<and> listening c want (buf @ (if want m \<and> length buf < client_buffer then [m] else [])) h'"
proof -
  from assms obtain cl where cl: "hub_store h c = Some cl" "wants cl = want" "ch_buf (cl_ch cl) = buf"
      "hub_inv h" "c \<in> set (hub_members h)"
    by (auto simp: listening_def)
  from hub_invD [OF cl(4,5)] cl(1) have ok: "client_ok cl" by simp
  have "listening c want (buf @ (if want m \<and> length buf < client_buffer then [m] else [])) (after_message m h)"
    using cl ok hub_inv_after_message [OF cl(4), of m]
    by (auto simp: listening_def receive_def client_ok_def chan_room_def)
  then show ?thesis using broadcast_result [OF cl(4), of m] by simp
qed

lemma stream_loop_result:
  assumes "listening c want buf h"
  shows "\<exists>h' w' ret fs rest. stream_loop c es h w = Inr (h', w', ret)
      \<and> listening c want rest h' \<and> hub_members h' = hub_members h
      \<and> rw_body w' = rw_body w @ concat (map frame_text fs)
      \<and> subseq (frame_messages fs @ rest) (buf @ filter want (published es))
      \<and> (length buf + length (filter want (published es)) \<le> client_buffer \<longrightarrow>
           frame_messages fs @ rest = buf @ filter want (published es))"
  using assms
proof (induction c es h w arbitrary: buf rule: stream_loop.induct)
  case (1 c h w)
  then show ?case
    by (intro exI [of _ h] exI [of _ w] exI [of _ False] exI [of _ "[]"] exI [of _ buf]) (simp add: frame_messages_def)
next
  case (2 c es h w)
  then show ?case
    by (intro exI [of _ h] exI [of _ w] exI [of _ True] exI [of _ "[]"] exI [of _ buf]) (simp add: frame_messages_def)
next
  case (3 c es h w)
  from "3.IH" [OF "3.prems"] obtain h' w' ret fs rest where r:
    "stream_loop c es h (write_frame Ping w) = Inr (h', w', ret)" "listening c want rest h'"
    "hub_members h' = hub_members h" "rw_body w' = rw_body (write_frame Ping w) @ concat (map frame_text fs)"
    "subseq (frame_messages fs @ rest) (buf @ filter want (published es))"
    "length buf + length (filter want (published es)) \<le> client_buffer \<longrightarrow>
           frame_messages fs @ rest = buf @ filter want (published es)" by blast
  then show ?case
    by (intro exI [of _ h'] exI [of _ w'] exI [of _ ret] exI [of _ "Ping # fs"] exI [of _ rest])
      (simp add: frame_messages_def write_frame_def http_simps)
next
  case (4 c es h w)
  note rv = listening_recv [OF "4.prems"]
  show ?case
  proof (cases buf)
    case Nil
    with rv(1) have rc: "client_recv c h = (WouldBlock, h)" by simp
    from "4.IH"(2) [OF rc [symmetric] refl "4.prems"] rc show ?thesis by simp
  next
    case (Cons m ms)
    define h1 where "h1 = snd (client_recv c h)"
    from rv(1) Cons have rc: "client_recv c h = (Got m, h1)" by (simp add: h1_def)
    from rv(2) [OF Cons] have l: "listening c want ms h1" "hub_members h1 = hub_members h"
      by (simp_all add: h1_def)
    from "4.IH"(1) [OF rc [symmetric] refl l(1)] obtain h' w' ret fs rest where r:
      "stream_loop c es h1 (write_frame (Message m) w) = Inr (h', w', ret)" "listening c want rest h'"
      "hub_members h' = hub_members h1" "rw_body w' = rw_body (write_frame (Message m) w) @ concat (map frame_text fs)"
      "subseq (frame_messages fs @ rest) (ms @ filter want (published es))"
      "length ms + length (filter want (published es)) \<le> client_buffer \<longrightarrow>
             frame_messages fs @ rest = ms @ filter want (published es)" by blast
    with rc l(2) Cons show ?thesis
      by (intro exI [of _ h'] exI [of _ w'] exI [of _ ret] exI [of _ "Message m # fs"] exI [of _ rest])
        (simp add: frame_messages_def write_frame_def http_simps)
  qed
next
  case (5 c m es h w)
  let ?buf = "buf @ (if want m \<and> length buf < client_buffer then [m] else [])"
  from listening_broadcast [OF "5.prems", of m] obtain h1 s d where b:
    "broadcast m h = Inr (h1, s, d)" "hub_members h1 = hub_members h" "listening c want ?buf h1" by blast
  from "5.IH" [OF b(1) refl refl b(3)] obtain h' w' ret fs rest where r:
    "stream_loop c es h1 w = Inr (h', w', ret)" "listening c want rest h'"
    "hub_members h' = hub_members h1" "rw_body w' = rw_body w @ concat (map frame_text fs)"
    "subseq (frame_messages fs @ rest) (?buf @ filter want (published es))"
    "length ?buf + length (filter want (published es)) \<le> client_buffer \<longrightarrow>
           frame_messages fs @ rest = ?buf @ filter want (published es)" by blast
  have "subseq (?buf @ filter want (published es)) (buf @ filter want (published (Published m # es)))"
    by (auto intro: list_emb_append_mono)
  with r(5) have "subseq (frame_messages fs @ rest) (buf @ filter want (published (Published m # es)))"
    by (rule subseq_order.order_trans)
  with b r show ?case
    by (intro exI [of _ h'] exI [of _ w'] exI [of _ ret] exI [of _ fs] exI [of _ rest]) auto
qed

lemma listening_start:
  assumes "hub_inv h"
  shows "listening c (wants (new_client topic scope)) [] (hub_register c (alloc_client c (new_client topic scope) h))"
  using hub_inv_connect [OF assms, of c topic scope]
  by (simp add: listening_def hub_register_def alloc_client_def) (simp add: new_client_def make_chan_def)

lemma unregister_listening:
  assumes "listening c want buf h"
  shows "\<exists>h'. hub_unregister c h = Inr h' \<and> hub_inv h' \<and> hub_members h' = removeAll c (hub_members h)"
proof -
  from assms obtain cl where cl: "hub_store h c = Some cl" "hub_inv h" "c \<in> set (hub_members h)"
    by (auto simp: listening_def)
  from hub_invD [OF cl(2,3)] cl(1) have "\<not> ch_closed (cl_ch cl)" by (simp add: client_ok_def chan_ok_def)
  with cl show ?thesis
    by (auto simp: hub_unregister_def Let_def close_chan_def hub_inv_def distinct_removeAll)
qed

lemma poll_messages_clean:
  assumes "\<forall>row \<in> set rows. nl \<notin> set (composition_id row)" "m \<in> set (poll_messages rows)"
  shows "clean_message m"
proof -
  from assms(2) obtain row where row: "row \<in> set rows" "m \<in> set (row_messages row)"
    by (auto simp: poll_messages_def)
  have "nl \<notin> set (row_data row)"
    using event_json_ctrl [of nl "to_sse_event row"] by (auto simp: row_data_def byte_def)
  moreover have "nl \<notin> set global_topic" "global_topic \<noteq> []" by (simp_all add: global_topic_def)
  ultimately show ?thesis
    using row assms(1)
    by (auto simp: row_messages_def clean_message_def global_message_def composition_message_def split: if_splits)
qed

lemma serve_stream_result:
  assumes "hub_inv h" "c \<notin> set (hub_members h)" "\<forall>m \<in> set (published es). clean_message m"
  shows "\<exists>h' w' ret text ms rest. serve_stream c topic scope es h w = Inr (h', w', ret)
      \<and> rw_body w' = rw_body w @ frame_text Connected @ text
      \<and> sse_decode text = map (\<lambda>m. (sm_topic m, sm_data m)) ms
      \<and> subseq (ms @ rest) (filter (wants (new_client topic scope)) (published es))
      \<and> (length (published es) \<le> client_buffer \<longrightarrow>
           ms @ rest = filter (wants (new_client topic scope)) (published es))
      \<and> hub_inv h' \<and> (ret \<longrightarrow> c \<notin> set (hub_members h') \<and> set (hub_members h') = set (hub_members h))"
proof -
  let ?want = "wants (new_client topic scope)"
  let ?h1 = "hub_register c (alloc_client c (new_client topic scope) h)"
  from stream_loop_result [OF listening_start [OF assms(1), of c topic scope], of es "write_frame Connected w"]
  obtain h2 w2 ret fs rest where r:
    "stream_loop c es ?h1 (write_frame Connected w) = Inr (h2, w2, ret)" "listening c ?want rest h2"
    "hub_members h2 = hub_members ?h1"
    "rw_body w2 = rw_body (write_frame Connected w) @ concat (map frame_text fs)"
    "subseq (frame_messages fs @ rest) (filter ?want (published es))"
    "length (filter ?want (published es)) \<le> client_buffer \<longrightarrow>
       frame_messages fs @ rest = filter ?want (published es)" by auto
  have "set (frame_messages fs) \<subseteq> set (published es)"
    using r(5) by (auto dest: list_emb_set)
  then have d: "sse_decode (concat (map frame_text fs)) = map (\<lambda>m. (sm_topic m, sm_data m)) (frame_messages fs)"
    using assms(3) by (intro decode_frames) auto
  have len: "length (published es) \<le> client_buffer \<longrightarrow> frame_messages fs @ rest = filter ?want (published es)"
    using r(6) length_filter_le [of ?want "published es"] by linarith
  have mem: "set (hub_members h2) = insert c (set (hub_members h))"
    using r(3) by (simp add: hub_register_def alloc_client_def)
  have body: "rw_body w2 = rw_body w @ frame_text Connected @ concat (map frame_text fs)"
    using r(4) by (simp add: write_frame_def http_simps)
  obtain h3 where u: "hub_unregister c h2 = Inr h3" "hub_inv h3" "hub_members h3 = removeAll c (hub_members h2)"
    using unregister_listening [OF r(2)] by blast
  have inv: "hub_inv h2" using r(2) by (simp add: listening_def)
  show ?thesis
  proof (cases ret)
    case True
    then have "serve_stream c topic scope es h w = Inr (h3, w2, True)"
      using r(1) u(1) by (simp add: serve_stream_def Let_def)
    with u mem assms(2) body d r(5) len show ?thesis
      by (intro exI [of _ h3] exI [of _ w2] exI [of _ True] exI [of _ "concat (map frame_text fs)"]
          exI [of _ "frame_messages fs"] exI [of _ rest]) auto
  next
    case False
    then have "serve_stream c topic scope es h w = Inr (h2, w2, False)"
      using r(1) by (simp add: serve_stream_def Let_def)
    with inv body d r(5) len show ?thesis
      by (intro exI [of _ h2] exI [of _ w2] exI [of _ False] exI [of _ "concat (map frame_text fs)"]
          exI [of _ "frame_messages fs"] exI [of _ rest]) auto
  qed
qed

section \<open>Properties of the stream\<close>



text \<open>
  A stream opens only with a scope: without a flusher or without an established scope the answer
  is a 500 and no stream starts; otherwise the response announces the scope the connection will be
  filtered by, readable across origins, before the first frame, and no scope header at all when
  scoping is off.
\<close>

theorem stream_opens_scoped:
  assumes "sse_open d scoper r w s = Some (start, s')" "rw_sent w = None"
    and "map_of (rw_header w) scope_header_name = None"
  shows "case start of
       SseReply w' \<Rightarrow> status_of w' = Some 500
         \<and> (rw_flusher w \<longrightarrow> (\<exists>e. resolve_request_scope d scoper r s = Some (Inl e, s')))
     | SseStream w' topic scope \<Rightarrow>
         rw_flusher w \<and> resolve_request_scope d scoper r s = Some (Inr scope, s')
         \<and> topic = values_get ''composition_id'' (url_query r) \<and> rw_sent w' = None
         \<and> map_of (rw_header w') ''Content-Type'' = Some ''text/event-stream''
         \<and> map_of (rw_header w') scope_header_name = scope_header_value scope
         \<and> (scope_header_value scope \<noteq> None \<longrightarrow>
              map_of (rw_header w') ''Access-Control-Expose-Headers'' = Some scope_header_name)"
  using assms
  by (auto simp: sse_open_def stream_headers_def expose_scope_def scope_header_name_def http_simps
      split: if_splits option.splits sum.splits)

theorem stream_opens_scoped_witness:
  "case sse_open sample_deps (Some 0) sample_user_request (new_writer True) ([sample_cached], ()) of
     Some (SseStream w' topic scope, s') \<Rightarrow> map_of (rw_header w') scope_header_name = Some ''team-b''
   | _ \<Rightarrow> False"
proof -
  have o: "sse_open sample_deps (Some 0) sample_user_request (new_writer True) ([sample_cached], ())
      = Some (SseStream (stream_headers (Some \<lparr>allow_all = False, namespaces = [''team-b'']\<rparr>) (new_writer True))
          (values_get ''composition_id'' (url_query sample_user_request))
          (Some \<lparr>allow_all = False, namespaces = [''team-b'']\<rparr>), ([sample_cached], ()))"
    using sample_resolved by (simp add: sse_open_def new_writer_def)
  have n: "rw_sent (new_writer True) = None" "map_of (rw_header (new_writer True)) scope_header_name = None"
    by (simp_all add: new_writer_def)
  from stream_opens_scoped [OF o n] show ?thesis
    unfolding o by (simp add: scope_header_value_def)
qed

text \<open>
  The topic of a message is written into the frame as it is: a composition id that holds a line
  break splits its frame, and a reader of the stream gets an event the proxy never published.
\<close>

theorem topic_line_break:
  "sse_decode (frame_text (Message
      \<lparr>sm_topic = ''x'' @ [nl] @ ''data: forged'' @ [nl, nl] @ ''event: krateo'', sm_data = ''real'',
       sm_namespace = ns\<rparr>)) = [(''x'', ''forged''), (''krateo'', ''real'')]"
  by (simp add: sse_decode_def frame_text_def field_value_def)

end
