(* ===== verification/Router.thy ===== *)
theory Router
  imports Sse_Handler
begin

text \<open>
  \<open>newRouter\<close> of \<open>main.go\<close>: the routes, what guards each of them, and the CORS wrapper around them.
  The state is the scopers, the world outside and the hub.
\<close>

type_synonym 'w proxy_state = "'w state \<times> hub"

section \<open>Routes\<close>

datatype route = Events_Route | Audit_Route | Notifications_Route | Health_Route

text \<open>
  \<open>http.ServeMux\<close> with these patterns: \<open>/notifications/\<close> matches every path below it, the others
  match exactly. \<open>r.Pattern\<close> is the pattern that matched.
\<close>

definition match_route :: "string \<Rightarrow> (string \<times> route) option" where
  "match_route p =
     (if p = ''/events'' then Some (''/events'', Events_Route)
      else if p = ''/audit'' then Some (''/audit'', Audit_Route)
      else if p = ''/notifications'' then Some (''/notifications'', Notifications_Route)
      else if p = ''/health'' then Some (''/health'', Health_Route)
      else if is_prefix_of ''/notifications/'' p then Some (''/notifications/'', Notifications_Route)
      else None)"

text \<open>
  The mux redirects a path that is not in its cleaned form before it matches: empty and \<open>.\<close> segments
  are dropped, \<open>..\<close> takes the segment before it away, a trailing slash is kept.
\<close>

fun clean_segments :: "string list \<Rightarrow> string list \<Rightarrow> string list" where
  "clean_segments acc [] = rev acc"
| "clean_segments acc (x # xs) =
     (if x = [] \<or> x = ''.'' then clean_segments acc xs
      else if x = ''..'' then clean_segments (tl acc) xs
      else clean_segments (x # acc) xs)"

definition clean_path :: "string \<Rightarrow> string" where
  "clean_path p =
     (let body = ''/'' @ join ''/'' (clean_segments [] (split_on CHR ''/'' p))
      in if p \<noteq> [] \<and> last p = CHR ''/'' \<and> body \<noteq> ''/'' then body @ ''/'' else body)"

text \<open>The redirect carries the cleaned path; the short HTML body Go adds is left out.\<close>

definition redirect_clean :: "http_request \<Rightarrow> response_writer \<Rightarrow> response_writer" where
  "redirect_clean r w =
     write_header 301 (header_set ''Location''
       (clean_path (rq_path r) @ (if rq_raw_query r = [] then [] else ''?'' @ rq_raw_query r)) w)"

definition not_found :: "response_writer \<Rightarrow> response_writer" where
  "not_found w = http_error ''404 page not found'' 404 w"

definition handle_health :: "'s handler" where
  "handle_health r w s = Some (write_body ''ok'' (write_header 200 w), s)"

section \<open>The mux\<close>

record 's endpoints =
  ep_events :: "'s handler"
  ep_audit :: "'s handler"
  ep_notifications :: "'s handler"

definition serve_mux :: "('k, 's) auth_lib \<Rightarrow> 'k auth_config \<Rightarrow> 's endpoints \<Rightarrow> 's handler" where
  "serve_mux lib a ep r w s =
     (if clean_path (rq_path r) \<noteq> rq_path r then Some (redirect_clean r w, s)
      else (case match_route (rq_path r) of
              None \<Rightarrow> Some (not_found w, s)
            | Some (pat, rt) \<Rightarrow>
                let r = r\<lparr>rq_pattern := pat\<rparr>
                in (case rt of
                      Events_Route \<Rightarrow> require_bearer lib a (ep_events ep) r w s
                    | Audit_Route \<Rightarrow> require_bearer lib a (ep_audit ep) r w s
                    | Notifications_Route \<Rightarrow> require_bearer lib a (ep_notifications ep) r w s
                    | Health_Route \<Rightarrow> handle_health r w s)))"

text \<open>The handlers on the whole state; a stream answers when it has ended.\<close>

definition on_state :: "'w state handler \<Rightarrow> 'w proxy_state handler" where
  "on_state f r w s = map_option (\<lambda>(w', st). (w', (st, snd s))) (f r w (fst s))"

definition stream_handler ::
  "cid \<Rightarrow> stream_event list \<Rightarrow> 'w deps \<Rightarrow> scoper_ref option \<Rightarrow> 'w proxy_state handler" where
  "stream_handler c es d scoper r w s =
     (case handle_sse c es d scoper r w (fst s) (snd s) of
        Some (Inr ((h, w', True), st)) \<Rightarrow> Some (w', (st, h))
      | _ \<Rightarrow> None)"

definition proxy_endpoints ::
  "cid \<Rightarrow> stream_event list \<Rightarrow> 'w deps \<Rightarrow> scoper_ref option \<Rightarrow> scoper_ref option
     \<Rightarrow> 'w proxy_state endpoints" where
  "proxy_endpoints c es d scoper audit_scoper =
     \<lparr>ep_events = on_state (handle_events d scoper),
      ep_audit = on_state (handle_audit d audit_scoper),
      ep_notifications = stream_handler c es d scoper\<rparr>"

definition new_router ::
  "('k, 'w proxy_state) auth_lib \<Rightarrow> 'k auth_config \<Rightarrow> cid \<Rightarrow> stream_event list \<Rightarrow> 'w deps
     \<Rightarrow> scoper_ref option \<Rightarrow> scoper_ref option \<Rightarrow> 'w proxy_state handler" where
  "new_router lib a c es d scoper audit_scoper =
     with_cors (serve_mux lib a (proxy_endpoints c es d scoper audit_scoper))"

section \<open>Laws\<close>

lemma match_route_iff:
  "match_route p = Some (pat, Health_Route) \<longleftrightarrow> p = ''/health'' \<and> pat = ''/health''"
  by (auto simp: match_route_def)

text \<open>What a stream sends is fixed when its first frame is written.\<close>

lemma stream_loop_sent:
  "stream_loop c es h w = Inr (h', w', ret) \<Longrightarrow> rw_sent w = Some x \<Longrightarrow> rw_sent w' = Some x"
  by (induction c es h w arbitrary: rule: stream_loop.induct)
    (auto simp: write_frame_def http_simps split: sum.splits prod.splits received.splits)

lemma serve_stream_sent:
  assumes "serve_stream c topic scope es h w = Inr (h', w', ret)" "rw_sent w = None"
  shows "rw_sent w' = Some (200, rw_header w)"
proof -
  have "rw_sent (write_frame Connected w) = Some (200, rw_header w)"
    using assms(2) by (simp add: write_frame_def http_simps)
  with assms(1) stream_loop_sent show ?thesis
    by (fastforce simp: serve_stream_def Let_def split: sum.splits prod.splits bool.splits)
qed

lemma stream_headers_cors:
  "k \<in> set cors_headers \<Longrightarrow> map_of (rw_header (stream_headers scope w)) k = map_of (rw_header w) k"
  by (auto simp: stream_headers_def expose_scope_def cors_headers_def scope_header_name_def http_simps
      split: option.split)

lemma stream_headers_sent: "rw_sent (stream_headers scope w) = rw_sent w"
  by (simp add: stream_headers_def expose_scope_def http_simps split: option.split)

lemma handle_sse_sends:
  assumes "handle_sse c es d scoper r w s h = Some (Inr ((h', w', ret), s'))" "rw_sent w = None"
  shows "sends w w'"
proof -
  obtain start s1 where o: "sse_open d scoper r w s = Some (start, s1)"
    using assms(1) by (auto simp: handle_sse_def split: option.splits prod.splits)
  show ?thesis
  proof (cases start)
    case (SseReply w1)
    with o assms have "w' = w1" "\<exists>m c. w1 = http_error m c w"
      by (auto simp: handle_sse_def sse_open_def split: option.splits prod.splits sum.splits if_splits)
    with assms(2) show ?thesis by (auto simp: sends_http_error)
  next
    case (SseStream w1 topic scope)
    with o have w1: "w1 = stream_headers scope w"
      by (auto simp: sse_open_def split: option.splits prod.splits sum.splits if_splits)
    from o SseStream assms(1) have "serve_stream c topic scope es h w1 = Inr (h', w', ret)"
      by (auto simp: handle_sse_def split: sum.splits)
    from serve_stream_sent [OF this] w1 assms(2) have "rw_sent w' = Some (200, rw_header (stream_headers scope w))"
      by (simp add: stream_headers_sent)
    then show ?thesis by (simp add: sends_def sent_header_def stream_headers_cors)
  qed
qed

interpretation health_handler: header_keeper handle_health
  by unfold_locales (auto simp: handle_health_def sends_def sent_header_def http_simps)

interpretation stream_endpoint: header_keeper "stream_handler c es d scoper"
  by unfold_locales
    (auto simp: stream_handler_def intro: handle_sse_sends split: option.splits sum.splits prod.splits bool.splits)

interpretation events_endpoint: header_keeper "on_state (handle_events d scoper)"
  by unfold_locales (auto simp: on_state_def intro: events_handler.handle_sends)

interpretation audit_endpoint: header_keeper "on_state (handle_audit d scoper)"
  by unfold_locales (auto simp: on_state_def intro: audit_handler.handle_sends)

lemma serve_mux_sends:
  assumes "lib_keeps lib" "rw_sent w = None"
    and "serve_mux lib a (proxy_endpoints c es d scoper audit_scoper) r w s = Some (w', s')"
  shows "sends w w'"
proof -
  consider (unclean) "clean_path (rq_path r) \<noteq> rq_path r"
    | (none) "clean_path (rq_path r) = rq_path r" "match_route (rq_path r) = None"
    | (found) pat rt where "clean_path (rq_path r) = rq_path r" "match_route (rq_path r) = Some (pat, rt)"
    by (cases "match_route (rq_path r)") auto
  then show ?thesis
  proof cases
    case unclean
    with assms show ?thesis
      by (simp add: serve_mux_def)
        (auto simp: redirect_clean_def sends_def sent_header_def cors_headers_def http_simps)
  next
    case none
    with assms show ?thesis by (auto simp: serve_mux_def not_found_def sends_http_error)
  next
    case (found pat rt)
    note m = assms(3) [unfolded serve_mux_def Let_def found(2) option.case prod.case]
    show ?thesis
    proof (cases rt)
      case Events_Route
      with m found(1) show ?thesis
        using events_endpoint.guarded_sends [OF assms(1,2)] by (simp add: proxy_endpoints_def)
    next
      case Audit_Route
      with m found(1) show ?thesis
        using audit_endpoint.guarded_sends [OF assms(1,2)] by (simp add: proxy_endpoints_def)
    next
      case Notifications_Route
      with m found(1) show ?thesis
        using stream_endpoint.guarded_sends [OF assms(1,2)] by (simp add: proxy_endpoints_def)
    next
      case Health_Route
      with m found(1) show ?thesis
        using health_handler.handle_sends [OF assms(2)] by simp
    qed
  qed
qed

lemma pattern_kept:
  "bearer_from_header (r\<lparr>rq_pattern := pat\<rparr>) = bearer_from_header r"
  "request_cookie n (r\<lparr>rq_pattern := pat\<rparr>) = request_cookie n r"
  by (simp_all add: bearer_from_header_def request_cookie_def)

section \<open>Properties of the router\<close>

text \<open>
  C15: every response of the proxy can be read across origins and none allows credentials: whatever
  the path, the method and the outcome, the answer has a status, its allowed origin is \<open>*\<close>, and
  the header that would allow credentials is not sent.
\<close>

theorem cors_everywhere:
  assumes "new_router lib a c es d scoper audit_scoper r w s = Some (w', s')"
    and "rw_sent w = None" "map_of (rw_header w) ''Access-Control-Allow-Credentials'' = None"
    and "lib_keeps lib"
  shows "status_of w' \<noteq> None \<and> sent_header ''Access-Control-Allow-Origin'' w' = Some ''*''
      \<and> sent_header ''Access-Control-Allow-Credentials'' w' = None"
proof -
  have "header_keeper (serve_mux lib a (proxy_endpoints c es d scoper audit_scoper))"
    by (rule header_keeper.intro) (rule serve_mux_sends [OF assms(4)])
  from header_keeper.cors_origin [OF this assms(2,3)] assms(1) show ?thesis
    by (simp add: new_router_def)
qed

lemma sample_lib_keeps: "lib_keeps (sample_lib good u)"
  by (simp add: lib_keeps_def sample_lib_def plain_error_def sends_def sent_header_def http_simps
      write_body_def Let_def)

theorem cors_everywhere_witness:
  "\<exists>w' s'. new_router (sample_lib ''good'' sample_user) sample_auth 7 [] sample_deps (Some 0) (Some 0)
       ((sample_request [])\<lparr>rq_path := ''/health''\<rparr>) (new_writer True) (([sample_cached], ()), sample_hub)
       = Some (w', s') \<and> sent_header ''Access-Control-Allow-Origin'' w' = Some ''*''"
proof -
  have "\<exists>w' s'. new_router (sample_lib ''good'' sample_user) sample_auth 7 [] sample_deps (Some 0) (Some 0)
       ((sample_request [])\<lparr>rq_path := ''/health''\<rparr>) (new_writer True) (([sample_cached], ()), sample_hub)
       = Some (w', s')"
    by (simp add: new_router_def with_cors_def Let_def sample_request_def serve_mux_def clean_path_def
        match_route_def handle_health_def)
  then show ?thesis
    using cors_everywhere [OF _ _ _ sample_lib_keeps]
    by (fastforce simp: new_writer_def)
qed

text \<open>
  C14: nothing but the health check is reachable without a verified identity: for any other path that
  is not a preflight the proxy either gives an answer that does not depend on what its endpoints
  would do and runs none of them, or the path is one of the routed ones, no query parameter names a
  token, the token of the header or the cookie verifies, and exactly that path's endpoint runs, with
  the identity of the token.
\<close>

theorem endpoints_guarded:
  assumes "rq_path r \<noteq> ''/health''"
  shows "(\<exists>res. \<forall>ep. serve_mux lib a ep r w s = Some res)
      \<or> (\<exists>pat rt token u s'. match_route (rq_path r) = Some (pat, rt)
           \<and> query_token_param r = [] \<and> token_from_request a r = Some token
           \<and> al_verify lib (ac_keys a) token s = (Inr u, s')
           \<and> (\<forall>ep. serve_mux lib a ep r w s
                = (if rt = Events_Route then ep_events ep else if rt = Audit_Route then ep_audit ep
                   else ep_notifications ep) (r\<lparr>rq_pattern := pat, rq_user := Some u\<rparr>) w s'))"
proof -
  have same: "query_token_param (r\<lparr>rq_pattern := pat\<rparr>) = query_token_param r"
      "token_from_request a (r\<lparr>rq_pattern := pat\<rparr>) = token_from_request a r" for pat
    by (simp add: query_token_param_def) (simp add: token_from_request_def pattern_kept cong: option.case_cong)
  consider (own) "clean_path (rq_path r) \<noteq> rq_path r \<or> match_route (rq_path r) = None"
    | (found) pat rt where "clean_path (rq_path r) = rq_path r" "match_route (rq_path r) = Some (pat, rt)"
    by (cases "match_route (rq_path r)") auto
  then show ?thesis
  proof cases
    case own
    then show ?thesis by (cases "clean_path (rq_path r) = rq_path r") (simp_all add: serve_mux_def)
  next
    case (found pat rt)
    have rt: "rt \<noteq> Health_Route" using found(2) assms match_route_iff by auto
    let ?g = "\<lambda>ep. if rt = Events_Route then ep_events ep else if rt = Audit_Route then ep_audit ep
                   else ep_notifications ep"
    have m: "serve_mux lib a ep r w s = require_bearer lib a (?g ep) (r\<lparr>rq_pattern := pat\<rparr>) w s" for ep
      using found rt by (cases rt) (simp_all add: serve_mux_def)
    show ?thesis
    proof (cases "query_token_param r = []")
      case False
      then show ?thesis by (simp add: m require_bearer_def same)
    next
      case q: True
      show ?thesis
      proof (cases "token_from_request a r")
        case None
        with q show ?thesis by (simp add: m require_bearer_def same)
      next
        case (Some token)
        obtain v s' where v: "al_verify lib (ac_keys a) token s = (v, s')"
          by (cases "al_verify lib (ac_keys a) token s")
        with q Some found(2) show ?thesis
          by (cases v) (simp_all add: m require_bearer_def same with_user_info_def)
      qed
    qed
  qed
qed

theorem endpoints_guarded_witness:
  "\<exists>u. \<forall>ep. serve_mux (sample_lib ''good'' sample_user) sample_auth ep (sample_request []) (new_writer True) ()
     = ep_events ep ((sample_request [])\<lparr>rq_pattern := ''/events'', rq_user := Some u\<rparr>) (new_writer True) ()"
proof -
  let ?lib = "sample_lib ''good'' sample_user :: (unit, unit) auth_lib"
  let ?r = "sample_request []"
  let ?none = "\<lparr>ep_events = (\<lambda>r w s. None), ep_audit = (\<lambda>r w s. None), ep_notifications = (\<lambda>r w s. None)\<rparr>"
  have p: "rq_path ?r = ''/events''" "clean_path ''/events'' = ''/events''"
      "match_route ''/events'' = Some (''/events'', Events_Route)"
    by (simp_all add: sample_request_def clean_path_def match_route_def)
  have t: "query_token_param (?r\<lparr>rq_pattern := ''/events''\<rparr>) = []"
      "token_from_request sample_auth (?r\<lparr>rq_pattern := ''/events''\<rparr>) = Some ''good''"
    by (rule sample_token; simp add: sample_request_def)+
  have "serve_mux ?lib sample_auth ?none ?r (new_writer True) () = None"
    by (simp add: serve_mux_def p require_bearer_def t sample_lib_def with_user_info_def)
  moreover have "rq_path ?r \<noteq> ''/health''" by (simp add: p)
  note endpoints_guarded [OF this, of ?lib sample_auth "new_writer True" "()"]
  ultimately show ?thesis by (auto simp: p)
qed

end
