(* ===== verification/Startup.thy ===== *)
theory Startup
  imports Router
begin

text \<open>
  What happens before the proxy serves: \<open>loadConfig\<close> and the start-up sequence of \<open>main\<close> in
  \<open>main.go\<close>, the telemetry switches of \<open>telemetry.go\<close>, and the log level and log attributes of
  \<open>logging.go\<close>. Which OpenTelemetry exporters can be created is a parameter.
\<close>

section \<open>Configuration\<close>

definition load_config :: "environ \<Rightarrow> config" where
  "load_config g =
     \<lparr>clickhouse_url = get_env g ''CLICKHOUSE_URL''
        ''http://krateo-clickstack-clickhouse.clickhouse-system.svc:8123'',
      clickhouse_user = get_env g ''CLICKHOUSE_USER'' ''default'',
      clickhouse_password = get_env g ''CLICKHOUSE_PASSWORD'' [],
      listen_addr = get_env g ''LISTEN_ADDR'' '':8080''\<rparr>"

section \<open>Telemetry\<close>

record telemetry =
  tracing_enabled :: bool
  metrics_enabled :: bool

text \<open>\<open>strconv.ParseBool\<close>.\<close>

definition parse_bool :: "string \<Rightarrow> bool option" where
  "parse_bool s =
     (if s \<in> {''1'', ''t'', ''T'', ''TRUE'', ''true'', ''True''} then Some True
      else if s \<in> {''0'', ''f'', ''F'', ''FALSE'', ''false'', ''False''} then Some False
      else None)"

definition env_enabled :: "environ \<Rightarrow> string \<Rightarrow> bool" where
  "env_enabled g key = (case parse_bool (g key) of Some b \<Rightarrow> b | None \<Rightarrow> False)"

definition env_enabled_or :: "environ \<Rightarrow> string \<Rightarrow> bool \<Rightarrow> bool" where
  "env_enabled_or g key fallback =
     (if g key = [] then fallback
      else (case parse_bool (g key) of Some b \<Rightarrow> b | None \<Rightarrow> False))"

text \<open>
  The signals that are on, and the names of the providers \<open>shutdown\<close> stops. An exporter that cannot
  be created switches its own signal off and nothing else.
\<close>

definition setup_telemetry ::
  "environ \<Rightarrow> go_error option \<Rightarrow> go_error option \<Rightarrow> telemetry \<times> string list" where
  "setup_telemetry g trace_exporter_err metric_exporter_err =
     (let master = env_enabled g ''OTEL_ENABLED'';
          t = \<lparr>tracing_enabled = env_enabled_or g ''OTEL_TRACING_ENABLED'' master,
               metrics_enabled = env_enabled_or g ''OTEL_METRICS_ENABLED'' master\<rparr>
      in if \<not> tracing_enabled t \<and> \<not> metrics_enabled t then (t, [])
         else
           let (t1, s1) = (if tracing_enabled t
                           then (case trace_exporter_err of
                                   Some e \<Rightarrow> (t\<lparr>tracing_enabled := False\<rparr>, [])
                                 | None \<Rightarrow> (t, [''tracer provider'']))
                           else (t, []))
           in if metrics_enabled t1
              then (case metric_exporter_err of
                      Some e \<Rightarrow> (t1\<lparr>metrics_enabled := False\<rparr>, s1)
                    | None \<Rightarrow> (t1, s1 @ [''meter provider'']))
              else (t1, s1))"

section \<open>Logging\<close>

datatype log_level = Level_Debug | Level_Info | Level_Warn | Level_Error

text \<open>\<open>slog.Level\<close> is a number, and a handler drops what lies below its own.\<close>

fun severity :: "log_level \<Rightarrow> int" where
  "severity Level_Debug = -4"
| "severity Level_Info = 0"
| "severity Level_Warn = 4"
| "severity Level_Error = 8"

instantiation log_level :: linorder
begin

definition less_eq_log_level :: "log_level \<Rightarrow> log_level \<Rightarrow> bool" where
  "less_eq_log_level a b \<longleftrightarrow> severity a \<le> severity b"

definition less_log_level :: "log_level \<Rightarrow> log_level \<Rightarrow> bool" where
  "less_log_level a b \<longleftrightarrow> severity a < severity b"

instance
proof
  fix a b :: log_level
  show "a \<le> b \<Longrightarrow> b \<le> a \<Longrightarrow> a = b"
    by (cases a; cases b) (simp_all add: less_eq_log_level_def)
qed (auto simp: less_eq_log_level_def less_log_level_def)

end

lemma Level_Error_top: "(l :: log_level) \<le> Level_Error"
  by (cases l) (simp_all add: less_eq_log_level_def)

definition init_logging :: "environ \<Rightarrow> log_level" where
  "init_logging g =
     (let l = g ''LOG_LEVEL''
      in if l \<in> {''debug'', ''DEBUG''} then Level_Debug
         else if l \<in> {''warn'', ''WARN''} then Level_Warn
         else if l \<in> {''error'', ''ERROR''} then Level_Error
         else Level_Info)"

text \<open>The arguments of a log call: attributes, and values of any other type, which are left out.\<close>

datatype 'v log_arg = Attr string 'v | NotAttr

text \<open>A span context that is not valid, or no context, has no identifiers.\<close>

definition trace_attrs :: "('v \<times> 'v) option \<Rightarrow> 'v log_arg list" where
  "trace_attrs span =
     (case span of
        None \<Rightarrow> []
      | Some (trace, sp) \<Rightarrow> [Attr ''trace_id'' trace, Attr ''span_id'' sp])"

fun only_attrs :: "'v log_arg list \<Rightarrow> 'v log_arg list" where
  "only_attrs [] = []"
| "only_attrs (Attr k v # as) = Attr k v # only_attrs as"
| "only_attrs (NotAttr # as) = only_attrs as"

definition merge_attrs :: "('v \<times> 'v) option \<Rightarrow> 'v \<Rightarrow> 'v log_arg list \<Rightarrow> 'v log_arg list" where
  "merge_attrs span component attrs =
     [Attr ''component'' component] @ only_attrs (trace_attrs span) @ only_attrs attrs"

definition slog_error_attrs ::
  "('v \<times> 'v) option \<Rightarrow> 'v \<Rightarrow> 'v option \<Rightarrow> 'v log_arg list \<Rightarrow> 'v log_arg list" where
  "slog_error_attrs span component err attrs =
     merge_attrs span component (attrs @ (case err of None \<Rightarrow> [] | Some e \<Rightarrow> [Attr ''error'' e]))"

section \<open>Starting the proxy\<close>

record 'k proxy =
  px_auth :: "'k auth_config"
  px_config :: config
  px_scoper :: "scoper_ref option"
  px_audit_scoper :: "scoper_ref option"
  px_telemetry :: telemetry
  px_poller :: poller
  px_hub :: hub

text \<open>\<open>main\<close> up to the listener: an error of the first two steps ends the process with status 1.\<close>

definition start_proxy ::
  "'w env \<Rightarrow> environ \<Rightarrow> (string \<Rightarrow> bool) \<Rightarrow> (string \<Rightarrow> string)
     \<Rightarrow> (string \<Rightarrow> duration \<Rightarrow> duration \<Rightarrow> duration \<Rightarrow> 'k) \<Rightarrow> (string \<Rightarrow> go_error option)
     \<Rightarrow> go_error option \<Rightarrow> go_error option \<Rightarrow> 'w \<Rightarrow> ('k proxy \<times> scoper_heap) result \<times> 'w" where
  "start_proxy env g pem_ok jwks_url_of new_keys register trace_err metric_err w =
     (let cfg = load_config g
      in case load_auth_config jwks_url_of new_keys g of
           Inl e \<Rightarrow> (Inl (''auth configuration failed: '' @ e), w)
         | Inr auth \<Rightarrow>
             (case load_rbac_scoper env g pem_ok [] w of
                (Inl e, h, w1) \<Rightarrow> (Inl (''rbac scoping init failed: '' @ e), w1)
              | (Inr scoper, h, w1) \<Rightarrow>
                  let (audit_scoper, h1) = load_audit_scoper g scoper h;
                      (tel, shutdowns) = setup_telemetry g trace_err metric_err;
                      metrics = (case init_metrics register of Inl e \<Rightarrow> None | Inr m \<Rightarrow> Some m);
                      (p, w2) = new_poller env cfg metrics w1
                  in (Inr (\<lparr>px_auth = auth, px_config = cfg, px_scoper = scoper,
                            px_audit_scoper = audit_scoper, px_telemetry = tel, px_poller = p,
                            px_hub = new_hub\<rparr>, h1), w2)))"

section \<open>Laws\<close>

lemma only_attrs_append [simp]: "only_attrs (xs @ ys) = only_attrs xs @ only_attrs ys"
  by (induction xs rule: only_attrs.induct) simp_all

lemma load_rbac_scoper_enabled:
  assumes "load_rbac_scoper env g pem_ok h w = (Inr scoper, h', w')"
  shows "(scoper \<noteq> None) = equal_fold (get_env g ''RBAC_SCOPING_ENABLED'' ''false'') ''true''"
    and "\<forall>r. scoper = Some r \<longrightarrow> r < length h' \<and> 0 < rs_ttl (h' ! r) \<and> rs_cache (h' ! r) = (\<lambda>_. None)"
proof -
  have ttl: "0 < ttl" if "scoping_ttl g = Inr ttl" for ttl
    using that by (auto simp: scoping_ttl_def Let_def default_scoping_cache_ttl_def second_def
        split: if_splits option.splits)
  show "(scoper \<noteq> None) = equal_fold (get_env g ''RBAC_SCOPING_ENABLED'' ''false'') ''true''"
    using assms by (auto simp: load_rbac_scoper_def split: if_splits prod.splits sum.splits)
  show "\<forall>r. scoper = Some r \<longrightarrow> r < length h' \<and> 0 < rs_ttl (h' ! r) \<and> rs_cache (h' ! r) = (\<lambda>_. None)"
    using assms ttl by (auto simp: load_rbac_scoper_def split: if_splits prod.splits sum.splits)
qed

lemma load_audit_scoper_None: "load_audit_scoper g s h = (a, h') \<Longrightarrow> a = None \<longleftrightarrow> s = None"
  by (auto simp: load_audit_scoper_def Let_def split: option.splits if_splits)

section \<open>A sample start\<close>

definition sample_environ :: environ where
  "sample_environ v = (if v = ''RBAC_SCOPING_ENABLED'' then ''True''
     else if v = ''KUBERNETES_API_URL'' then ''http://k8s/'' else [])"

lemma sample_scoping_on: "equal_fold (get_env sample_environ ''RBAC_SCOPING_ENABLED'' ''false'') ''true''"
  by (simp add: sample_environ_def equal_fold_def lower_char_def is_upper_def byte_def)
    (simp add: char_of_eq_iff)

lemma sample_start:
  obtains px h w' where "start_proxy sample_api sample_environ (\<lambda>_. True) (\<lambda>b. b) (\<lambda>u a b c. u) (\<lambda>_. None)
     None None 0 = (Inr (px, h), w')"
proof -
  have "trim_space default_url_authn \<noteq> []"
    by (simp add: default_url_authn_def trim_space_def ascii_space_def space2_def space3_def byte_def)
  then obtain auth where a: "load_auth_config (\<lambda>b. b) (\<lambda>u a b c. u) sample_environ = Inr auth"
    by (simp add: load_auth_config_def Let_def sample_environ_def trim_space_def)
  obtain sc h w1 where s: "load_rbac_scoper sample_api sample_environ (\<lambda>_. True) [] 0 = (Inr sc, h, w1)"
    using sample_scoping_on by (simp add: load_rbac_scoper_def new_in_cluster_kube_client_def Let_def)
      (simp add: sample_environ_def scoping_ttl_def)
  have "\<exists>px h w'. start_proxy sample_api sample_environ (\<lambda>_. True) (\<lambda>b. b) (\<lambda>u a b c. u) (\<lambda>_. None) None None 0
       = (Inr (px, h), w')"
    using a s by (simp add: start_proxy_def Let_def split: prod.split)
  with that show ?thesis by blast
qed

section \<open>Properties of the start\<close>

text \<open>
  The proxy never serves half configured: when it starts, tokens are verified against a JWKS
  document whose URL is not empty, the endpoints are scoped exactly when RBAC_SCOPING_ENABLED says
  true in any case, \<open>/audit\<close> has a scoper exactly when \<open>/events\<close> has one, every cached scope
  expires, and nobody is connected yet.
\<close>

theorem start_closed:
  assumes "start_proxy env g pem_ok jwks_url_of new_keys register trace_err metric_err w = (Inr (px, h), w')"
  shows "ac_jwks_url (px_auth px) \<noteq> []
      \<and> ((px_scoper px \<noteq> None) = equal_fold (get_env g ''RBAC_SCOPING_ENABLED'' ''false'') ''true'')
      \<and> ((px_audit_scoper px = None) = (px_scoper px = None))
      \<and> (\<forall>r. px_scoper px = Some r \<longrightarrow> 0 < rs_ttl (h ! r))
      \<and> hub_count (px_hub px) = 0 \<and> po_cfg (px_poller px) = px_config px"
proof -
  obtain auth where auth: "load_auth_config jwks_url_of new_keys g = Inr auth"
    using assms by (cases "load_auth_config jwks_url_of new_keys g") (auto simp: start_proxy_def Let_def)
  obtain scoper h0 w1 where sc: "load_rbac_scoper env g pem_ok [] w = (Inr scoper, h0, w1)"
    using assms auth by (auto simp: start_proxy_def Let_def split: prod.splits sum.splits)
  obtain audit h1 where au: "load_audit_scoper g scoper h0 = (audit, h1)"
    by (cases "load_audit_scoper g scoper h0")
  obtain tel sd where tel: "setup_telemetry g trace_err metric_err = (tel, sd)"
    by (cases "setup_telemetry g trace_err metric_err")
  have px: "px_auth px = auth" "px_scoper px = scoper" "px_audit_scoper px = audit" "h = h1"
      "px_hub px = new_hub" "po_cfg (px_poller px) = px_config px"
    using assms auth sc au tel by (auto simp: start_proxy_def Let_def new_poller_def split: prod.splits)
  have "ac_jwks_url auth \<noteq> []"
    using auth by (auto simp: load_auth_config_def Let_def split: if_splits)
  moreover have "\<forall>r. scoper = Some r \<longrightarrow> h1 ! r = h0 ! r"
    using au load_rbac_scoper_enabled(2) [OF sc]
    by (auto simp: load_audit_scoper_def Let_def nth_append split: if_splits)
  ultimately show ?thesis
    using px load_rbac_scoper_enabled [OF sc] load_audit_scoper_None [OF au]
    by (auto simp: hub_count_def new_hub_def)
qed

theorem start_closed_witness:
  "\<exists>px h w'. start_proxy sample_api sample_environ (\<lambda>_. True) (\<lambda>b. b) (\<lambda>u a b c. u) (\<lambda>_. None) None None 0
       = (Inr (px, h), w') \<and> px_scoper px \<noteq> None"
proof -
  obtain px h w' where st: "start_proxy sample_api sample_environ (\<lambda>_. True) (\<lambda>b. b)
      (\<lambda>u a b c. u) (\<lambda>_. None) None None 0 = (Inr (px, h), w')" by (rule sample_start)
  from start_closed [OF st] sample_scoping_on have "px_scoper px \<noteq> None" by simp
  with st show ?thesis by blast
qed

text \<open>
  Telemetry is off unless asked for: with none of the three switches set nothing is installed; a
  switch that is set wins over the master; and each signal is on at the end exactly when it was asked
  for and its exporter could be created, with a shutdown for exactly the signals that are on.
\<close>

theorem telemetry_gates:
  "let master = env_enabled g ''OTEL_ENABLED'';
       asked = (\<lambda>v. if g v = [] then master else parse_bool (g v) = Some True);
       (t, stops) = setup_telemetry g trace_err metric_err
   in tracing_enabled t = (asked ''OTEL_TRACING_ENABLED'' \<and> trace_err = None)
      \<and> metrics_enabled t = (asked ''OTEL_METRICS_ENABLED'' \<and> metric_err = None)
      \<and> stops = (if tracing_enabled t then [''tracer provider''] else [])
               @ (if metrics_enabled t then [''meter provider''] else [])
      \<and> master = (parse_bool (g ''OTEL_ENABLED'') = Some True)"
  by (auto simp: setup_telemetry_def env_enabled_or_def env_enabled_def Let_def split: option.splits)

text \<open>
  Every log line starts with its component, followed by the trace and span identifiers when the
  request is traced, and keeps the attributes of the call in order; arguments that are not
  attributes are the only ones left out.
\<close>

theorem log_line_attrs:
  "slog_error_attrs span component err attrs
     = Attr ''component'' component
       # (case span of None \<Rightarrow> [] | Some (trace, sp) \<Rightarrow> [Attr ''trace_id'' trace, Attr ''span_id'' sp])
       @ filter (\<lambda>a. a \<noteq> NotAttr) attrs
       @ (case err of None \<Rightarrow> [] | Some e \<Rightarrow> [Attr ''error'' e])"
proof -
  have "only_attrs xs = filter (\<lambda>a. a \<noteq> NotAttr) xs" for xs :: "'a log_arg list"
    by (induction xs rule: only_attrs.induct) simp_all
  then show ?thesis
    by (auto simp: slog_error_attrs_def merge_attrs_def trace_attrs_def split: option.split)
qed

end
