(* ===== verification/Stream_Properties.thy ===== *)
theory Stream_Properties
  imports Router Startup
begin

text \<open>
  Properties that span components: the live query and the history query read the same columns of the
  same rows, and what a poll reads from ClickHouse is what a connected browser gets.
\<close>

section \<open>The live query against the history query\<close>

definition select_before :: "string list" where
  "select_before =
     [''SELECT'',
      ''    toUnixTimestamp(Timestamp)                                                      AS ts_unix,'',
      ''    ifNull(LogAttributes[^krateo.io/composition-id^], ^^)                           AS composition_id,'',
      ''    ifNull(JSONExtractString(Body, ^object^, ^involvedObject^, ^apiVersion^), ^^)   AS obj_apiversion,'',
      ''    ifNull(JSONExtractString(Body, ^object^, ^involvedObject^, ^name^), ^^)         AS obj_name,'',
      ''    ifNull(JSONExtractString(Body, ^object^, ^involvedObject^, ^namespace^), ^^)    AS obj_namespace,'',
      ''    ifNull(JSONExtractString(Body, ^object^, ^involvedObject^, ^uid^), ^^)          AS obj_uid,'',
      ''    ifNull(JSONExtractString(Body, ^object^, ^involvedObject^, ^kind^), ^^)         AS obj_kind,'',
      ''    ifNull(JSONExtractString(Body, ^object^, ^reason^), ^^)                         AS reason,'',
      ''    ifNull(JSONExtractString(Body, ^object^, ^message^), ^^)                        AS message,'',
      ''    ifNull(JSONExtractString(Body, ^object^, ^type^), ^Normal^)                     AS type,'',
      ''    coalesce('',
      ''        nullIf(JSONExtractString(Body, ^object^, ^eventTime^), ^^),'',
      ''        nullIf(JSONExtractString(Body, ^object^, ^lastTimestamp^), ^^),'']"

definition select_after :: "string list" where
  "select_after =
     [''    )                                                                                AS event_time,'',
      ''    ifNull(JSONExtractString(Body, ^object^, ^source^, ^component^), ^^)            AS source_component'',
      ''FROM otel_logs'',
      ''WHERE ResourceAttributes[^telemetry.source^] = ^k8s-events^'',
      ''  AND JSONExtractString(Body, ^object^, ^reason^) != ^^'']"

definition time_prefix :: string where "time_prefix = ''        formatDateTime(toDateTime(Timestamp), ^''"

definition time_suffix :: string where "time_suffix = ''SZ^, ^UTC^)''"

text \<open>The clauses of the poll that history does not have, for a cursor.\<close>

definition live_clauses :: "int \<Rightarrow> string" where
  "live_clauses seen =
     [nl] @ ''  AND Timestamp >= toDateTime64('' @ itoa (i64 (seen + 1)) @ '', 9)'' @ [nl] @
     ''ORDER BY Timestamp ASC'' @ [nl] @ ''LIMIT '' @ itoa (int poll_limit) @ [nl] @ ''FORMAT JSONEachRow''"

lemma poll_sql_lines:
  "poll_sql = sql_text (select_before @ (time_prefix @ ''%%Y-%%m-%%dT%%H:%%i:%%'' @ time_suffix) #
     (select_after @ (''  AND Timestamp >= toDateTime64('' @ ''%d, 9)'') # [''ORDER BY Timestamp ASC'', ''LIMIT %d'', ''FORMAT JSONEachRow'']))"
  unfolding poll_sql_def select_before_def select_after_def time_prefix_def time_suffix_def
    append_Cons append_Nil ..

lemma events_head_lines:
  "events_head = sql_text (select_before @ (time_prefix @ ''%Y-%m-%dT%H:%i:%'' @ time_suffix) # select_after)"
  unfolding events_head_def events_select_def select_before_def select_after_def time_prefix_def time_suffix_def
    append_Cons append_Nil ..

lemma sprintf_no_percent: "CHR ''%'' \<notin> set s \<Longrightarrow> sprintf s args = s"
  by (induction s args rule: sprintf.induct) auto

lemma sql_text_Cons: "ls \<noteq> [] \<Longrightarrow> sql_text (l # ls) = map sql_char l @ nl # sql_text ls"
  by (cases ls) (simp_all add: sql_text_def)

lemma sprintf_text:
  assumes "\<forall>l \<in> set ls. CHR ''%'' \<notin> set l" "s \<noteq> []"
  shows "sprintf (sql_text ls @ s) args = sql_text ls @ sprintf s args"
  by (intro sprintf_plain sql_text_chars) (use assms in simp_all)


lemma sql_text_snoc: "ls \<noteq> [] \<Longrightarrow> sql_text (ls @ [l]) = sql_text ls @ nl # map sql_char l"
  by (simp add: sql_text_def join_append)

lemma sprintf_times: "sprintf (''%%Y-%%m-%%dT%%H:%%i:%%'' @ s) args = ''%Y-%m-%dT%H:%i:%'' @ sprintf s args"
  by (cases s) simp_all

lemma sql_text_nonempty: "l \<noteq> [] \<Longrightarrow> sql_text (l # ls) \<noteq> []"
  by (cases ls) (simp_all add: sql_text_def)

text \<open>The two formats agree up to the clauses, whatever the operands.\<close>

lemma sprintf_poll_sql:
  "sprintf poll_sql [a, b] = events_head @ [nl] @ ''  AND Timestamp >= toDateTime64('' @ itoa a @ '', 9)'' @ [nl] @
     ''ORDER BY Timestamp ASC'' @ [nl] @ ''LIMIT '' @ itoa b @ [nl] @ ''FORMAT JSONEachRow''"
proof -
  let ?tail = "[''ORDER BY Timestamp ASC'', ''LIMIT %d'', ''FORMAT JSONEachRow'']"
  let ?since = "''  AND Timestamp >= toDateTime64(''"
  let ?fmt = "''%%Y-%%m-%%dT%%H:%%i:%%''"
  let ?mid = "(time_suffix # select_after) @ [?since]"
  have no1: "\<forall>l \<in> set (select_before @ [time_prefix]). CHR ''%'' \<notin> set l"
    by (simp add: select_before_def time_prefix_def)
  have no2: "\<forall>l \<in> set ?mid. CHR ''%'' \<notin> set l"
    by (simp add: select_after_def time_suffix_def)
  have c1: "map sql_char ?fmt = ?fmt" "map sql_char ''%Y-%m-%dT%H:%i:%'' = ''%Y-%m-%dT%H:%i:%''"
      "map sql_char ?since = ?since"
    by (simp_all add: sql_char_def)
  have tail: "sql_text (''%d, 9)'' # ?tail) = ''%d'' @ '', 9)'' @ [nl] @ ''ORDER BY Timestamp ASC'' @ [nl] @ ''LIMIT ''
      @ ''%d'' @ [nl] @ ''FORMAT JSONEachRow''"
    by (simp add: sql_text_def sql_char_def)
  have p: "poll_sql = sql_text (select_before @ [time_prefix]) @ ?fmt @ sql_text ?mid @ sql_text (''%d, 9)'' # ?tail)"
    unfolding poll_sql_lines sql_text_split append_assoc sql_text_prefix c1(1)
    using sql_text_split [of "time_suffix # select_after" ?since "''%d, 9)''" ?tail] by simp
  have h: "events_head = sql_text (select_before @ [time_prefix]) @ ''%Y-%m-%dT%H:%i:%'' @ sql_text (time_suffix # select_after)"
    unfolding events_head_lines sql_text_split append_assoc sql_text_prefix c1(2) ..
  have m: "sql_text ?mid = sql_text (time_suffix # select_after) @ nl # ?since"
    by (subst sql_text_snoc) (simp_all only: c1(3) list.distinct not_False_eq_True)
  have t: "sprintf (sql_text (''%d, 9)'' # ?tail)) [a, b] = itoa a @ '', 9)'' @ [nl] @ ''ORDER BY Timestamp ASC'' @ [nl]
      @ ''LIMIT '' @ itoa b @ [nl] @ ''FORMAT JSONEachRow''"
    unfolding tail by simp
  have "sprintf poll_sql [a, b] = sql_text (select_before @ [time_prefix]) @ ''%Y-%m-%dT%H:%i:%'' @ sql_text ?mid
      @ sprintf (sql_text (''%d, 9)'' # ?tail)) [a, b]"
    unfolding p
    by (subst sprintf_text [OF no1], simp, subst sprintf_times, subst sprintf_text [OF no2])
      (rule sql_text_nonempty, simp_all)
  then show ?thesis unfolding t m h by simp
qed

text \<open>
  The live query and the history query cannot drift apart: for any cursor the text a poll sends is
  byte for byte the columns, source table and base conditions that every history query starts with,
  followed by the cursor as a whole number of seconds, the ascending order and the limit of 500.
\<close>

theorem live_query_columns:
  assumes "build_events_query_window q scope since = Inr (sql, ps)"
  shows "\<exists>clauses. sql = events_head @ clauses \<and> poll_query c = events_head @ live_clauses c"
  using build_events_cases(3) [OF assms]
  by (simp add: poll_query_def sprintf_poll_sql live_clauses_def events_sql_def)

theorem live_query_columns_witness:
  "\<exists>sql ps clauses. build_events_query_window [] None 0 = Inr (sql, ps) \<and> sql = events_head @ clauses
     \<and> poll_query 99 = events_head @ live_clauses 99"
proof -
  have "events_request_ok [] None" by (simp add: events_request_ok_def values_get_def)
  from build_events_result [OF this, of 0] obtain sql ps where
    b: "build_events_query_window [] None 0 = Inr (sql, ps)" by blast
  from live_query_columns [OF b, of 99] b show ?thesis by blast
qed

section \<open>From ClickHouse to the browser\<close>

lemma listening_poll:
  assumes "listening c want buf h" "length buf + length (filter want ms) \<le> client_buffer"
  shows "listening c want (buf @ filter want ms) (after_messages ms h)"
proof -
  from assms(1) obtain cl where cl: "hub_store h c = Some cl" "wants cl = want" "ch_buf (cl_ch cl) = buf"
      "hub_inv h" "c \<in> set (hub_members h)"
    by (auto simp: listening_def)
  from hub_invD [OF cl(4,5)] cl(1) have ok: "client_ok cl" by simp
  then have "length (filter want ms) \<le> chan_room (cl_ch cl)"
    using assms(2) cl(3) by (auto simp: client_ok_def chan_room_def)
  with receive_all_buf [OF ok, of ms] cl show ?thesis
    by (simp add: listening_def hub_inv_after_messages after_messages_store)
qed

text \<open>A handler whose channel is chosen often enough writes everything that waits in it.\<close>

lemma drain_channel:
  assumes "listening c want buf h" "length buf \<le> k"
  shows "\<exists>h' w'. stream_loop c (replicate k ChannelReady @ es) h w = stream_loop c es h' w'
     \<and> listening c want [] h' \<and> hub_members h' = hub_members h
     \<and> rw_body w' = rw_body w @ concat (map (\<lambda>m. frame_text (Message m)) buf)"
  using assms
proof (induction k arbitrary: buf h w)
  case (Suc k)
  note rv = listening_recv [OF Suc.prems(1)]
  show ?case
  proof (cases buf)
    case Nil
    with rv(1) have "client_recv c h = (WouldBlock, h)" by simp
    with Suc.IH [OF Suc.prems(1), of w] Nil show ?thesis by simp
  next
    case (Cons m ms)
    define h1 where "h1 = snd (client_recv c h)"
    from rv(1) Cons have rc: "client_recv c h = (Got m, h1)" by (simp add: h1_def)
    from rv(2) [OF Cons] have l: "listening c want ms h1" "hub_members h1 = hub_members h"
      by (simp_all add: h1_def)
    from Suc.IH [OF l(1), of "write_frame (Message m) w"] Suc.prems(2) Cons obtain h' w' where
      "stream_loop c (replicate k ChannelReady @ es) h1 (write_frame (Message m) w) = stream_loop c es h' w'"
      "listening c want [] h'" "hub_members h' = hub_members h1"
      "rw_body w' = rw_body (write_frame (Message m) w) @ concat (map (\<lambda>m. frame_text (Message m)) ms)"
      by auto
    with rc l(2) Cons show ?thesis
      by (intro exI [of _ h'] exI [of _ w']) (simp add: write_frame_def http_simps)
  qed
qed auto

lemma frame_messages_Message [simp]: "frame_messages (map Message ms) = ms"
  by (induction ms) (simp_all add: frame_messages_def)

text \<open>
  C6: end to end: when a poll reads rows from ClickHouse while a client has just connected, the poll
  hands them to the hub and the client's handler, once its select has chosen its channel as often as
  there are rows, has written them all: a reader of the stream gets after the opening comment exactly
  the JSON of the rows its topic and its scope let it see, in the order of the table, and nothing else.
\<close>

theorem poll_to_browser:
  assumes "hub_inv h" "h1 = hub_register c (alloc_client c (new_client topic scope) h)"
    and "query_clickhouse env (po_cfg p) (poll_query (last_seen p)) [] e = (Inr rows, e')"
    and "length rows \<le> poll_limit" "length rows \<le> k"
    and "\<forall>row \<in> set rows. composition_id row \<noteq> global_topic \<and> nl \<notin> set (composition_id row)"
  shows "\<exists>p' h2 h3 w' text. poll env p h1 e = Inr (p', h2, e')
      \<and> stream_loop c (replicate k ChannelReady @ [RequestDone]) h2 (write_frame Connected w) = Inr (h3, w', True)
      \<and> rw_body w' = rw_body w @ frame_text Connected @ text
      \<and> map snd (sse_decode text) = map row_data (filter (row_visible (new_client topic scope)) rows)"
proof -
  let ?want = "wants (new_client topic scope)"
  let ?ms = "poll_messages rows"
  let ?seen = "filter ?want ?ms"
  have ids: "\<forall>row \<in> set rows. composition_id row \<noteq> global_topic" using assms(6) by blast
  have len: "length ?seen \<le> length rows"
    using wants_poll_length [OF ids, of "new_client topic scope"] by simp
  have l: "listening c ?want [] h1" using listening_start [OF assms(1)] assms(2) by simp
  then have inv: "hub_inv h1" by (simp add: listening_def)
  have "listening c ?want ?seen (after_messages ?ms h1)"
    using listening_poll [OF l, of ?ms] len assms(4) by (simp add: client_buffer_def)
  from drain_channel [OF this, of k "[RequestDone]" "write_frame Connected w"] len assms(5) obtain h3 w' where
    s: "stream_loop c (replicate k ChannelReady @ [RequestDone]) (after_messages ?ms h1) (write_frame Connected w)
          = Inr (h3, w', True)"
      "rw_body w' = rw_body (write_frame Connected w) @ concat (map (\<lambda>m. frame_text (Message m)) ?seen)" by auto
  have "\<forall>m \<in> set (frame_messages (map Message ?seen)). clean_message m"
    using poll_messages_clean [of rows] assms(6) by simp
  from decode_frames [OF this] have
    "map snd (sse_decode (concat (map (\<lambda>m. frame_text (Message m)) ?seen))) = map sm_data ?seen"
    by (simp add: comp_def)
  then have "map snd (sse_decode (concat (map (\<lambda>m. frame_text (Message m)) ?seen)))
      = map row_data (filter (row_visible (new_client topic scope)) rows)"
    using wants_poll [OF ids, of "new_client topic scope"] by simp
  with poll_result [OF inv assms(3)] s show ?thesis
    by (intro exI [of _ "polled rows h1 p"] exI [of _ "after_messages ?ms h1"] exI [of _ h3] exI [of _ w']
        exI [of _ "concat (map (\<lambda>m. frame_text (Message m)) ?seen)"])
      (simp add: write_frame_def http_simps)
qed

theorem poll_to_browser_witness:
  "\<exists>h2 h3 w' text. stream_loop 3 (replicate 1 ChannelReady @ [RequestDone]) h2 (write_frame Connected (new_writer True))
       = Inr (h3, w', True)
     \<and> rw_body w' = frame_text Connected @ text \<and> map snd (sse_decode text) = [row_data sample_row]"
proof -
  have q: "query_clickhouse (fixed_env (\<lambda>_. [sample_row]) 0) (po_cfg sample_poller)
      (poll_query (last_seen sample_poller)) [] () = (Inr [sample_row], ())"
    using sample_row_wire by (intro sample_query) simp
  have "\<forall>row \<in> set [sample_row]. composition_id row \<noteq> global_topic \<and> nl \<notin> set (composition_id row)"
    using sample_row_topic by (simp add: sample_row_def)
  note p = poll_to_browser [OF hub_inv_new refl q _ _ this, of 1 3 "[]" None "new_writer True"]
  have "filter (row_visible (new_client [] None)) [sample_row] = [sample_row]" "rw_body (new_writer True) = []"
    by (simp_all add: row_visible_def new_client_def new_writer_def)
  with p show ?thesis by (simp only: poll_limit_def list.map append_Nil) fastforce
qed

end
