(* ===== verification/Scope_Cache.thy ===== *)
theory Scope_Cache
  imports Rbac_Scoper
begin

text \<open>
  The cache of one scoper under concurrent requests. A call of \<open>scopeFor\<close> holds the mutex twice, to
  look its key up and to store what it resolved; between the two it talks to the API server without
  it. The calls of any number of connections interleave at that grain here, the world may change
  between any two steps, and nothing keeps an earlier, slower resolution from overwriting a later one.
\<close>

section \<open>Calls and their steps\<close>

text \<open>
  The life of one call: it looks up, resolves with the time it read first, stores, and returns. An
  answered call remembers the time it had read. The log is not part of the program: it records which
  caller a resolution of this run was for, the time its call had read, and what came out.
\<close>

datatype call =
    Asked user_info
  | Resolving user_info time
  | Storing user_info time ns_scope
  | Answered user_info time ns_scope
  | Failed go_error

record 'w cache_system =
  cs_scoper :: rbac_scoper
  cs_calls :: "nat \<Rightarrow> call option"
  cs_world :: 'w
  cs_log :: "(user_info \<times> time \<times> ns_scope) list"

definition store_entry :: "string \<Rightarrow> ns_scope \<Rightarrow> time \<Rightarrow> rbac_scoper \<Rightarrow> rbac_scoper" where
  "store_entry key scope started s =
     s\<lparr>rs_cache := (rs_cache s)(key \<mapsto> \<lparr>se_scope = scope, se_expires = started + rs_ttl s\<rparr>)\<rparr>"

inductive cache_step :: "'w env \<Rightarrow> 'w cache_system \<Rightarrow> 'w cache_system \<Rightarrow> bool" for env :: "'w env" where
  outside: "cache_step env s (s\<lparr>cs_world := w\<rparr>)"
| arrive: "cs_calls s i = None \<Longrightarrow> cache_step env s (s\<lparr>cs_calls := (cs_calls s)(i \<mapsto> Asked u)\<rparr>)"
| hit: "cs_calls s i = Some (Asked u) \<Longrightarrow> env_now env (cs_world s) = (now, w) \<Longrightarrow>
     cache_lookup (cs_scoper s) (cache_key u) now = Some scope \<Longrightarrow>
     cache_step env s (s\<lparr>cs_calls := (cs_calls s)(i \<mapsto> Answered u now scope), cs_world := w\<rparr>)"
| miss: "cs_calls s i = Some (Asked u) \<Longrightarrow> env_now env (cs_world s) = (now, w) \<Longrightarrow>
     cache_lookup (cs_scoper s) (cache_key u) now = None \<Longrightarrow>
     cache_step env s (s\<lparr>cs_calls := (cs_calls s)(i \<mapsto> Resolving u now), cs_world := w\<rparr>)"
| resolved: "cs_calls s i = Some (Resolving u now) \<Longrightarrow>
     resolve env sched (cs_scoper s) u (cs_world s) = Some (Inr scope, w) \<Longrightarrow>
     cache_step env s (s\<lparr>cs_calls := (cs_calls s)(i \<mapsto> Storing u now scope), cs_world := w,
                         cs_log := cs_log s @ [(u, now, scope)]\<rparr>)"
| failed: "cs_calls s i = Some (Resolving u now) \<Longrightarrow>
     resolve env sched (cs_scoper s) u (cs_world s) = Some (Inl e, w) \<Longrightarrow>
     cache_step env s (s\<lparr>cs_calls := (cs_calls s)(i \<mapsto> Failed e), cs_world := w\<rparr>)"
| store: "cs_calls s i = Some (Storing u now scope) \<Longrightarrow>
     cache_step env s (s\<lparr>cs_scoper := store_entry (cache_key u) scope now (cs_scoper s),
                         cs_calls := (cs_calls s)(i \<mapsto> Answered u now scope)\<rparr>)"

inductive_cases cache_stepE: "cache_step env s t"

definition cache_start :: "rbac_scoper \<Rightarrow> 'w \<Rightarrow> 'w cache_system" where
  "cache_start s w = \<lparr>cs_scoper = s, cs_calls = (\<lambda>_. None), cs_world = w, cs_log = []\<rparr>"

definition cache_run :: "'w env \<Rightarrow> 'w cache_system \<Rightarrow> 'w cache_system \<Rightarrow> bool" where
  "cache_run env = (cache_step env)\<^sup>*\<^sup>*"

section \<open>The invariant\<close>

text \<open>The API server answered this scope to a resolution of this caller, by the check of \<open>s\<close>.\<close>

definition resolved_scope :: "'w env \<Rightarrow> rbac_scoper \<Rightarrow> user_info \<Rightarrow> ns_scope \<Rightarrow> bool" where
  "resolved_scope env s u scope \<longleftrightarrow> (\<exists>sched w w'. resolve env sched s u w = Some (Inr scope, w'))"

lemma same_check_review: "same_check a b \<Longrightarrow> review env a u ns w = review env b u ns w"
  by (simp add: same_check_def review_def)

lemma same_check_reviews: "same_check a b \<Longrightarrow> review_all env a u nss acc w = review_all env b u nss acc w"
  by (induction nss arbitrary: acc w) (simp_all add: same_check_review split: prod.split)

lemma same_check_resolve: "same_check a b \<Longrightarrow> resolve env sched a u w = resolve env sched b u w"
  unfolding resolve_def same_check_review [of a b] same_check_reviews [of a b]
  by (simp only: same_check_def)

lemma same_check_store [simp]: "same_check (store_entry k scope t a) b \<longleftrightarrow> same_check a b"
  by (simp add: same_check_def store_entry_def)

text \<open>
  Every entry was resolved for a caller of its key by a call of this run that had read its clock one
  lifetime before the entry expires; every answer is such a scope, younger than a lifetime when it is
  used; and every logged resolution took place, for a call that had read that time.
\<close>

definition entry_ok :: "'w cache_system \<Rightarrow> duration \<Rightarrow> string \<Rightarrow> scope_entry \<Rightarrow> bool" where
  "entry_ok s ttl key e \<longleftrightarrow>
     (\<exists>v started. cache_key v = key \<and> (v, started, se_scope e) \<in> set (cs_log s) \<and> se_expires e = started + ttl)"

definition answer_ok :: "'w cache_system \<Rightarrow> duration \<Rightarrow> user_info \<Rightarrow> time \<Rightarrow> ns_scope \<Rightarrow> bool" where
  "answer_ok s ttl u now scope \<longleftrightarrow>
     (\<exists>v started. cache_key v = cache_key u \<and> (v, started, scope) \<in> set (cs_log s) \<and> now < started + ttl)"

definition clock_read :: "'w env \<Rightarrow> time \<Rightarrow> bool" where
  "clock_read env t \<longleftrightarrow> (\<exists>w w'. env_now env w = (t, w'))"

definition cache_inv :: "'w env \<Rightarrow> rbac_scoper \<Rightarrow> 'w cache_system \<Rightarrow> bool" where
  "cache_inv env s0 s \<longleftrightarrow>
     same_check (cs_scoper s) s0
     \<and> (\<forall>v started scope. (v, started, scope) \<in> set (cs_log s) \<longrightarrow>
          clock_read env started \<and> resolved_scope env s0 v scope)
     \<and> (\<forall>key e. rs_cache (cs_scoper s) key = Some e \<longrightarrow> entry_ok s (rs_ttl s0) key e)
     \<and> (\<forall>i u now. cs_calls s i = Some (Resolving u now) \<longrightarrow> clock_read env now)
     \<and> (\<forall>i u now scope. cs_calls s i = Some (Storing u now scope) \<longrightarrow> (u, now, scope) \<in> set (cs_log s))
     \<and> (\<forall>i u now scope. cs_calls s i = Some (Answered u now scope) \<longrightarrow> answer_ok s (rs_ttl s0) u now scope)"

lemma log_only:
  "entry_ok (s\<lparr>cs_world := w\<rparr>) = entry_ok s" "answer_ok (s\<lparr>cs_world := w\<rparr>) = answer_ok s"
  "entry_ok (s\<lparr>cs_calls := f\<rparr>) = entry_ok s" "answer_ok (s\<lparr>cs_calls := f\<rparr>) = answer_ok s"
  "entry_ok (s\<lparr>cs_scoper := r\<rparr>) = entry_ok s" "answer_ok (s\<lparr>cs_scoper := r\<rparr>) = answer_ok s"
  by (simp_all add: entry_ok_def answer_ok_def fun_eq_iff)

lemma log_grows:
  assumes "set (cs_log s) \<subseteq> set (cs_log s')"
  shows "entry_ok s ttl key e \<Longrightarrow> entry_ok s' ttl key e" "answer_ok s ttl u now scope \<Longrightarrow> answer_ok s' ttl u now scope"
  using assms by (auto simp: entry_ok_def answer_ok_def)

lemma cache_inv_step:
  assumes "cache_step env s t" "cache_inv env s0 s" "0 < rs_ttl s0"
  shows "cache_inv env s0 t"
  using assms(1)
proof (cases rule: cache_step.cases)
  case (hit i u now w scope)
  from hit(4) obtain e where "rs_cache (cs_scoper s) (cache_key u) = Some e" "now < se_expires e" "scope = se_scope e"
    by (auto simp: cache_lookup_def split: option.splits if_splits)
  with assms(2) have "answer_ok s (rs_ttl s0) u now scope"
    unfolding cache_inv_def entry_ok_def answer_ok_def by metis
  with hit assms(2) show ?thesis by (simp add: cache_inv_def log_only)
next
  case (miss i u now w)
  then have "clock_read env now" by (auto simp: clock_read_def)
  with miss assms(2) show ?thesis by (simp add: cache_inv_def log_only)
next
  case (resolved i u now sched scope w)
  have "same_check (cs_scoper s) s0" using assms(2) unfolding cache_inv_def by blast
  then have "resolve env sched s0 u (cs_world s) = Some (Inr scope, w)"
    using resolved(3) same_check_resolve by metis
  then have r: "resolved_scope env s0 u scope" unfolding resolved_scope_def by blast
  have c: "clock_read env now" using resolved(2) assms(2) unfolding cache_inv_def by blast
  have "set (cs_log s) \<subseteq> set (cs_log t)" using resolved(1) by auto
  from log_grows [OF this] show ?thesis
    using resolved(1) assms(2) r c by (auto simp: cache_inv_def)
next
  case (store i u now scope)
  have l: "(u, now, scope) \<in> set (cs_log s)" using store(2) assms(2) unfolding cache_inv_def by blast
  have same: "cs_log t = cs_log s" using store(1) by simp
  have a: "answer_ok t (rs_ttl s0) u now scope"
    using l assms(3) same by (force simp: answer_ok_def)
  have "rs_ttl (cs_scoper s) = rs_ttl s0"
    using assms(2) by (simp add: cache_inv_def same_check_def)
  then have e: "entry_ok t (rs_ttl s0) (cache_key u) \<lparr>se_scope = scope, se_expires = now + rs_ttl (cs_scoper s)\<rparr>"
    using l same by (auto simp: entry_ok_def)
  with store a e assms(2) show ?thesis
    by (simp add: cache_inv_def log_only) (simp add: store_entry_def)
qed (use assms(2) in \<open>simp_all add: cache_inv_def log_only\<close>)

lemma cache_inv_start: "rs_cache s0 = (\<lambda>_. None) \<Longrightarrow> cache_inv env s0 (cache_start s0 w)"
  by (simp add: cache_inv_def cache_start_def same_check_def)

lemma cache_inv_run:
  assumes "cache_run env s t" "cache_inv env s0 s" "0 < rs_ttl s0"
  shows "cache_inv env s0 t"
  using assms(1) unfolding cache_run_def
  by (induction rule: rtranclp_induct) (use assms(2,3) cache_inv_step in blast)+

section \<open>One call alone\<close>

lemma cache_store_entry: "r < length h \<Longrightarrow> cache_store r k scope now h ! r = store_entry k scope now (h ! r)"
  by (simp add: cache_store_def store_entry_def Let_def)

text \<open>A step that starts no call.\<close>

definition call_step :: "'w env \<Rightarrow> 'w cache_system \<Rightarrow> 'w cache_system \<Rightarrow> bool" where
  "call_step env s t \<longleftrightarrow> cache_step env s t \<and> (\<forall>i. cs_calls s i = None \<longrightarrow> cs_calls t i = None)"

lemma call_step_run: "(call_step env)\<^sup>*\<^sup>* s t \<Longrightarrow> cache_run env s t"
  unfolding cache_run_def by (erule rtranclp_mono [THEN predicate2D, rotated]) (auto simp: call_step_def)

text \<open>A call that has started and is left undisturbed does what \<open>scopeFor\<close> does.\<close>

lemma asked_answered:
  assumes "scope_for env sched r u h w = Some (Inr scope, h', w')" "r < length h" "cs_calls s i = Some (Asked u)"
    "cs_scoper s = h ! r" "cs_world s = w"
  shows "\<exists>now t. (call_step env)\<^sup>*\<^sup>* s t \<and> cs_scoper t = h' ! r \<and> cs_world t = w'
     \<and> cs_calls t = (cs_calls s)(i \<mapsto> Answered u now scope)"
proof -
  obtain now w1 where n: "env_now env w = (now, w1)" by (cases "env_now env w")
  show ?thesis
  proof (cases "cache_lookup (h ! r) (cache_key u) now")
    case (Some sc)
    with assms(1) n have eq: "sc = scope" "h' = h" "w' = w1" by (simp_all add: scope_for_def Let_def)
    let ?s2 = "s\<lparr>cs_calls := (cs_calls s)(i \<mapsto> Answered u now scope), cs_world := w1\<rparr>"
    have "cache_step env s ?s2" by (rule cache_step.hit) (use Some n assms eq in simp_all)
    then have "call_step env s ?s2" using assms(3) by (simp add: call_step_def)
    with assms(4) eq show ?thesis by (intro exI [of _ now] exI [of _ ?s2]) simp
  next
    case None
    with assms(1) n have r: "resolve env sched (h ! r) u w1 = Some (Inr scope, w')"
      and h': "h' = cache_store r (cache_key u) scope now h"
      by (auto simp: scope_for_def Let_def split: option.splits prod.splits sum.splits)
    let ?s2 = "s\<lparr>cs_calls := (cs_calls s)(i \<mapsto> Resolving u now), cs_world := w1\<rparr>"
    let ?s3 = "?s2\<lparr>cs_calls := (cs_calls ?s2)(i \<mapsto> Storing u now scope), cs_world := w',
                   cs_log := cs_log ?s2 @ [(u, now, scope)]\<rparr>"
    let ?s4 = "?s3\<lparr>cs_scoper := store_entry (cache_key u) scope now (cs_scoper ?s3),
                   cs_calls := (cs_calls ?s3)(i \<mapsto> Answered u now scope)\<rparr>"
    have "cache_step env s ?s2" by (rule cache_step.miss) (use None n assms in simp_all)
    then have "call_step env s ?s2" using assms(3) by (simp add: call_step_def)
    moreover have "cache_step env ?s2 ?s3" by (rule cache_step.resolved) (use r assms in simp_all)
    then have "call_step env ?s2 ?s3" by (simp add: call_step_def)
    moreover have "cache_step env ?s3 ?s4" by (rule cache_step.store) simp
    then have "call_step env ?s3 ?s4" by (simp add: call_step_def)
    ultimately have "(call_step env)\<^sup>*\<^sup>* s ?s4"
      by (meson converse_rtranclp_into_rtranclp rtranclp.rtrancl_refl)
    with assms(2,4) h' show ?thesis
      by (intro exI [of _ now] exI [of _ ?s4]) (simp add: cache_store_entry)
  qed
qed

text \<open>
  \<open>scopeFor\<close> undisturbed is one run of a call: the sequential definition and the steps agree on the
  answer, on the cache and on the world.
\<close>

lemma scope_for_is_run:
  assumes "scope_for env sched r u h w = Some (Inr scope, h', w')" "r < length h" "cs_calls s i = None"
    "cs_scoper s = h ! r" "cs_world s = w"
  shows "\<exists>now t. cache_run env s t \<and> cs_scoper t = h' ! r \<and> cs_world t = w'
     \<and> cs_calls t = (cs_calls s)(i \<mapsto> Answered u now scope)"
proof -
  let ?s1 = "s\<lparr>cs_calls := (cs_calls s)(i \<mapsto> Asked u)\<rparr>"
  have a: "cache_step env s ?s1" using assms(3) by (rule cache_step.arrive)
  obtain now t where t: "(call_step env)\<^sup>*\<^sup>* ?s1 t" "cs_scoper t = h' ! r" "cs_world t = w'"
    "cs_calls t = (cs_calls ?s1)(i \<mapsto> Answered u now scope)"
    using asked_answered [OF assms(1,2), of ?s1 i] assms(4,5) by auto
  from a call_step_run [OF t(1)] have "cache_run env s t"
    unfolding cache_run_def by (rule converse_rtranclp_into_rtranclp)
  with t(2-4) show ?thesis by auto
qed

section \<open>Property of the cache\<close>

text \<open>
  C9: however the requests of any number of callers interleave, whatever the API server answers and
  however slow it is, a scope handed to a caller is what some call of this run resolved, with the
  scoper's own check, for a caller of the same cache key, and that call had read its clock less than
  one cache lifetime before the time the answer was given for: a permission that was taken away is
  not honoured longer than that.
\<close>

theorem concurrent_scope_fresh:
  assumes "cache_run env (cache_start s0 w0) s" "rs_cache s0 = (\<lambda>_. None)" "0 < rs_ttl s0"
    and "cs_calls s i = Some (Answered u now scope)"
  shows "\<exists>v started. (v, started, scope) \<in> set (cs_log s) \<and> cache_key v = cache_key u
     \<and> now < started + rs_ttl s0 \<and> clock_read env started \<and> resolved_scope env s0 v scope"
proof -
  have inv: "cache_inv env s0 s" using cache_inv_run [OF assms(1) cache_inv_start [OF assms(2)] assms(3)] .
  with assms(4) have "answer_ok s (rs_ttl s0) u now scope" unfolding cache_inv_def by blast
  with inv show ?thesis unfolding cache_inv_def answer_ok_def by blast
qed

theorem concurrent_scope_fresh_witness:
  "\<exists>s v now started. cache_run sample_api (cache_start sample_scoper 0) s
     \<and> (v, started, \<lparr>allow_all = False, namespaces = [''team-a'']\<rparr>) \<in> set (cs_log s)
     \<and> cache_key v = cache_key sample_user \<and> now < started + 60 * second"
proof -
  let ?sc = "\<lparr>allow_all = False, namespaces = [''team-a'']\<rparr>"
  have f: "scope_for sample_api id 0 sample_user [sample_scoper] 0
      = Some (Inr ?sc, cache_store 0 (cache_key sample_user) ?sc 0 [sample_scoper], 0)"
    using sample_resolve [of 0]
    by (simp add: scope_for_def Let_def sample_api_def api_server_def cache_lookup_def sample_scoper_def)
  obtain now t where t: "cache_run sample_api (cache_start sample_scoper 0) t"
      "cs_calls t = [5 \<mapsto> Answered sample_user now ?sc]"
    using scope_for_is_run [OF f, of "cache_start sample_scoper 0" 5] by (auto simp: cache_start_def)
  have c: "rs_cache sample_scoper = (\<lambda>_. None)" "0 < rs_ttl sample_scoper" "rs_ttl sample_scoper = 60 * second"
    by (simp_all add: sample_scoper_def second_def)
  have i: "cs_calls t 5 = Some (Answered sample_user now ?sc)" using t(2) by simp
  from concurrent_scope_fresh [OF t(1) c(1,2) i] t(1) c(3) show ?thesis by metis
qed

section \<open>The size of the cache\<close>

text \<open>
  Nothing removes an entry: an expired one stays until a call of the same key overwrites it, so the
  cache has a key for every caller, with every list of groups, it ever resolved a scope for.
\<close>

lemma cache_step_keys: "cache_step env s t \<Longrightarrow> dom (rs_cache (cs_scoper s)) \<subseteq> dom (rs_cache (cs_scoper t))"
  by (cases rule: cache_step.cases) (auto simp: store_entry_def)

theorem cache_never_evicts:
  assumes "cache_run env s t"
  shows "dom (rs_cache (cs_scoper s)) \<subseteq> dom (rs_cache (cs_scoper t))"
  using assms unfolding cache_run_def
  by (induction rule: rtranclp_induct) (use cache_step_keys in blast)+

end
