(* ===== verification/End_To_End.thy ===== *)
theory End_To_End
  imports Router Scope_Cache
begin

text \<open>
  From the token in a request to the bytes on the stream: the router, the bearer wrapper, the scoper
  with its cache, the API server's reviews, the hub and the stream handler composed.
\<close>

section \<open>Granted namespaces\<close>

text \<open>
  The API server allowed the check of \<open>s\<close> cluster-wide or in \<open>ns\<close> to a caller of \<open>u\<close>'s cache key, which
  is \<open>u\<close> for names without NUL bytes.
\<close>

definition granted :: "'w env \<Rightarrow> rbac_scoper \<Rightarrow> user_info \<Rightarrow> string \<Rightarrow> bool" where
  "granted env s u ns \<longleftrightarrow>
     (\<exists>v. cache_key v = cache_key u \<and> (review_allowed env s v [] \<or> review_allowed env s v ns))"

definition cache_genuine :: "'w env \<Rightarrow> rbac_scoper \<Rightarrow> bool" where
  "cache_genuine env s \<longleftrightarrow>
     (\<forall>key e. rs_cache s key = Some e \<longrightarrow> (\<exists>v. cache_key v = key \<and> resolved_scope env s v (se_scope e)))"

lemma resolved_granted:
  assumes "cache_key v = cache_key u" "resolved_scope env s v scope" "allows (Some scope) ns"
  shows "granted env s u ns"
proof -
  from assms(2) resolve_allowed [of env _ s v _ scope] have "(allow_all scope \<longrightarrow> review_allowed env s v [])
      \<and> (\<forall>n \<in> set (namespaces scope). review_allowed env s v n)"
    unfolding resolved_scope_def by blast
  with assms(1,3) show ?thesis
    by (auto simp: granted_def allows_def list_ex_iff split: if_splits)
qed

lemma scope_for_resolved:
  assumes "scope_for env sched r u h w = Some (Inr scope, h', w')" "cache_genuine env (h ! r)"
  shows "\<exists>v. cache_key v = cache_key u \<and> resolved_scope env (h ! r) v scope"
proof -
  obtain now w1 where n: "env_now env w = (now, w1)" by (cases "env_now env w")
  show ?thesis
  proof (cases "cache_lookup (h ! r) (cache_key u) now")
    case (Some sc)
    with assms(1) n have "sc = scope" by (simp add: scope_for_def Let_def)
    with Some assms(2) show ?thesis
      by (fastforce simp: cache_lookup_def cache_genuine_def split: option.splits if_splits)
  next
    case None
    with assms(1) n have "\<exists>w2. resolve env sched (h ! r) u w1 = Some (Inr scope, w2)"
      by (auto simp: scope_for_def Let_def split: option.splits prod.splits sum.splits)
    then show ?thesis unfolding resolved_scope_def by blast
  qed
qed

text \<open>Serving a request keeps the cache genuine.\<close>

lemma scope_for_genuine:
  assumes "scope_for env sched r u h w = Some (res, h', w')" "cache_genuine env (h ! r)" "r < length h"
  shows "cache_genuine env (h' ! r)"
proof -
  obtain now w1 where n: "env_now env w = (now, w1)" by (cases "env_now env w")
  have "h' = h \<or> (\<exists>scope w2. resolve env sched (h ! r) u w1 = Some (Inr scope, w2)
      \<and> h' = cache_store r (cache_key u) scope now h)"
    using assms(1) n by (auto simp: scope_for_def Let_def split: option.splits prod.splits sum.splits)
  then show ?thesis
  proof
    assume "\<exists>scope w2. resolve env sched (h ! r) u w1 = Some (Inr scope, w2) \<and> h' = cache_store r (cache_key u) scope now h"
    then obtain scope w2 where r: "resolve env sched (h ! r) u w1 = Some (Inr scope, w2)"
      and h': "h' = cache_store r (cache_key u) scope now h" by blast
    have "resolved_scope env (h ! r) u scope" unfolding resolved_scope_def using r by blast
    moreover have "resolved_scope env (h' ! r) v sc \<longleftrightarrow> resolved_scope env (h ! r) v sc" for v sc
      unfolding resolved_scope_def
      using same_check_resolve [OF cache_store_check [OF assms(3), of "cache_key u" scope now], of env] h' by simp
    ultimately show ?thesis
      using assms(2,3) h' by (auto simp: cache_genuine_def cache_store_entry store_entry_def)
  qed (use assms(2) in simp)
qed

section \<open>The stream\<close>

lemma stream_granted:
  assumes "handle_sse c es d (Some ref) r w st h = Some (Inr ((h', w', ret), st'))"
    and "rq_user r = Some u" "rw_sent w = None" "status_of w' = Some 200"
    and "hub_inv h" "c \<notin> set (hub_members h)" "\<forall>m \<in> set (published es). clean_message m"
    and "cache_genuine (dp_env d) (fst st ! ref)"
  shows "\<exists>text ms. rw_body w' = rw_body w @ frame_text Connected @ text
     \<and> sse_decode text = map (\<lambda>m. (sm_topic m, sm_data m)) ms
     \<and> (\<forall>m \<in> set ms. m \<in> set (published es) \<and> granted (dp_env d) (fst st ! ref) u (sm_namespace m))"
proof -
  obtain start s1 where o: "sse_open d (Some ref) r w st = Some (start, s1)"
    using assms(1) by (auto simp: handle_sse_def split: option.splits prod.splits)
  have "\<exists>topic scope. start = SseStream (stream_headers (Some scope) w) topic (Some scope)
      \<and> scope_for (dp_env d) (dp_sched d) ref u (fst st) (snd st) = Some (Inr scope, s1)"
  proof (cases start)
    case (SseReply w1)
    with o assms(1) have "w' = w1" "\<exists>m. w1 = http_error m 500 w"
      by (auto simp: handle_sse_def sse_open_def split: option.splits prod.splits sum.splits if_splits)
    then have "status_of w' = Some 500" using assms(3) by (auto simp: http_simps)
    with assms(4) show ?thesis by simp
  next
    case (SseStream w1 topic scope)
    with o assms(2) show ?thesis
      by (auto simp: sse_open_def resolve_request_scope_def split: option.splits prod.splits sum.splits if_splits)
  qed
  then obtain topic scope where st: "start = SseStream (stream_headers (Some scope) w) topic (Some scope)"
    "scope_for (dp_env d) (dp_sched d) ref u (fst st) (snd st) = Some (Inr scope, s1)" by blast
  with o assms(1) have v: "serve_stream c topic (Some scope) es h (stream_headers (Some scope) w) = Inr (h', w', ret)"
    by (auto simp: handle_sse_def split: sum.splits)
  have "\<exists>v. cache_key v = cache_key u \<and> resolved_scope (dp_env d) (fst st ! ref) v scope"
    using scope_for_resolved [of "dp_env d" "dp_sched d" ref u "fst st" "snd st" scope "fst s1" "snd s1"] st(2) assms(8)
    by simp
  then obtain v where "cache_key v = cache_key u" "resolved_scope (dp_env d) (fst st ! ref) v scope" by blast
  then have g: "granted (dp_env d) (fst st ! ref) u (sm_namespace m)"
    if "wants (new_client topic (Some scope)) m" for m
    using that resolved_granted [of _ u "dp_env d" "fst st ! ref" scope "sm_namespace m"]
    by (auto simp: wants_def new_client_def Let_def split: if_splits)
  from serve_stream_result [OF assms(5-7), of topic "Some scope" "stream_headers (Some scope) w"] v
  obtain out ms rest where t: "rw_body w' = rw_body (stream_headers (Some scope) w) @ frame_text Connected @ out"
    "sse_decode out = map (\<lambda>m. (sm_topic m, sm_data m)) ms"
    "subseq (ms @ rest) (filter (wants (new_client topic (Some scope))) (published es))" by auto
  have "m \<in> set (published es) \<and> wants (new_client topic (Some scope)) m" if "m \<in> set ms" for m
    using list_emb_set [OF t(3), of m] that by auto
  moreover have "rw_body (stream_headers (Some scope) w) = rw_body w"
    by (simp add: stream_headers_def expose_scope_def http_simps split: option.split)
  ultimately show ?thesis using t(1,2) g by (intro exI [of _ out] exI [of _ ms]) auto
qed


section \<open>From the token to the stream\<close>

text \<open>
  What the plumbing and JWT modules document: a refusal is answered with 401, an unavailable key with
  503; and verifying a token touches nothing of the proxy but the world outside.
\<close>

definition lib_refuses :: "('k, 's) auth_lib \<Rightarrow> bool" where
  "lib_refuses lib \<longleftrightarrow> (\<forall>msg w. rw_sent w = None \<longrightarrow>
     status_of (al_unauthorized lib msg w) = Some 401 \<and> status_of (al_service_unavailable lib msg w) = Some 503)"

definition lib_outside :: "('k, 'w proxy_state) auth_lib \<Rightarrow> bool" where
  "lib_outside lib \<longleftrightarrow> (\<forall>k token s v s'. al_verify lib k token s = (v, s') \<longrightarrow>
     fst (fst s') = fst (fst s) \<and> snd s' = snd s)"

text \<open>A guarded handler whose answer is a 200 ran, for the identity of a verified token.\<close>

lemma guarded_ok:
  assumes "require_bearer lib a f r w s = Some (w', s')" "status_of w' = Some 200" "rw_sent w = None"
    "lib_refuses lib"
  obtains token u s1 where "query_token_param r = []" "token_from_request a r = Some token"
    "al_verify lib (ac_keys a) token s = (Inr u, s1)" "f (r\<lparr>rq_user := Some u\<rparr>) w s1 = Some (w', s')"
proof -
  have no: "status_of (al_unauthorized lib msg w) \<noteq> Some 200" "status_of (al_service_unavailable lib msg w) \<noteq> Some 200" for msg
    using assms(3,4) by (simp_all add: lib_refuses_def)
  have q: "query_token_param r = []" using assms(1,2) no by (auto simp: require_bearer_def split: if_splits)
  then obtain token where t: "token_from_request a r = Some token"
    using assms(1,2) no by (auto simp: require_bearer_def split: option.splits)
  obtain v s1 where v: "al_verify lib (ac_keys a) token s = (v, s1)" by (cases "al_verify lib (ac_keys a) token s")
  show ?thesis
  proof (cases v)
    case (Inl e)
    with assms(1,2) q t v no show ?thesis
      by (auto simp: require_bearer_def write_auth_error_def split: if_splits)
  next
    case (Inr u)
    with assms(1) q t v that show ?thesis by (simp add: require_bearer_def with_user_info_def)
  qed
qed

lemma pattern_kept_token:
  "query_token_param (r\<lparr>rq_pattern := pat\<rparr>) = query_token_param r"
  "token_from_request a (r\<lparr>rq_pattern := pat\<rparr>) = token_from_request a r"
  by (simp add: query_token_param_def) (simp add: token_from_request_def pattern_kept cong: option.case_cong)

text \<open>The router on the path of a guarded endpoint.\<close>

lemma router_guarded:
  assumes "new_router lib a c es d scoper audit_scoper r w s = Some (w', s')"
    and "status_of w' = Some 200" "rw_sent w = None" "clean_path (rq_path r) = rq_path r"
  shows "rq_path r = ''/notifications'' \<Longrightarrow>
       require_bearer lib a (stream_handler c es d scoper) (r\<lparr>rq_pattern := ''/notifications''\<rparr>)
         (header_set ''Access-Control-Allow-Origin'' ''*'' w) s = Some (w', s')"
    and "rq_path r = ''/events'' \<Longrightarrow>
       require_bearer lib a (on_state (handle_events d scoper)) (r\<lparr>rq_pattern := ''/events''\<rparr>)
         (header_set ''Access-Control-Allow-Origin'' ''*'' w) s = Some (w', s')"
    and "rq_path r = ''/audit'' \<Longrightarrow>
       require_bearer lib a (on_state (handle_audit d audit_scoper)) (r\<lparr>rq_pattern := ''/audit''\<rparr>)
         (header_set ''Access-Control-Allow-Origin'' ''*'' w) s = Some (w', s')"
proof -
  have "\<not> (rq_method r = ''OPTIONS'' \<and> header_get ''Access-Control-Request-Method'' (rq_headers r) \<noteq> [])"
  proof
    assume "rq_method r = ''OPTIONS'' \<and> header_get ''Access-Control-Request-Method'' (rq_headers r) \<noteq> []"
    with assms(1,3) have "status_of w' = Some 204"
      by (auto simp: new_router_def with_cors_def Let_def status_of_def http_simps)
    with assms(2) show False by simp
  qed
  with assms(1) have mux: "serve_mux lib a (proxy_endpoints c es d scoper audit_scoper) r
      (header_set ''Access-Control-Allow-Origin'' ''*'' w) s = Some (w', s')"
    by (auto simp: new_router_def with_cors_def Let_def)
  show "rq_path r = ''/notifications'' \<Longrightarrow>
       require_bearer lib a (stream_handler c es d scoper) (r\<lparr>rq_pattern := ''/notifications''\<rparr>)
         (header_set ''Access-Control-Allow-Origin'' ''*'' w) s = Some (w', s')"
    and "rq_path r = ''/events'' \<Longrightarrow>
       require_bearer lib a (on_state (handle_events d scoper)) (r\<lparr>rq_pattern := ''/events''\<rparr>)
         (header_set ''Access-Control-Allow-Origin'' ''*'' w) s = Some (w', s')"
    and "rq_path r = ''/audit'' \<Longrightarrow>
       require_bearer lib a (on_state (handle_audit d audit_scoper)) (r\<lparr>rq_pattern := ''/audit''\<rparr>)
         (header_set ''Access-Control-Allow-Origin'' ''*'' w) s = Some (w', s')"
    using mux assms(4) by (simp_all add: serve_mux_def match_route_def proxy_endpoints_def)
qed

lemma clean_paths:
  "clean_path ''/notifications'' = ''/notifications''" "clean_path ''/events'' = ''/events''"
  "clean_path ''/audit'' = ''/audit''"
  by (simp_all add: clean_path_def)


section \<open>A sample connection\<close>

definition sample_stream_deps :: "time deps" where
  "sample_stream_deps = \<lparr>dp_env = sample_api, dp_client = sample_api, dp_sched = id, dp_cfg = sample_config\<rparr>"

definition sample_published :: "string \<Rightarrow> sse_message" where
  "sample_published ns = \<lparr>sm_topic = global_topic, sm_data = ''y'', sm_namespace = ns\<rparr>"

definition sample_stream :: "stream_event list" where
  "sample_stream = [Published (sample_published ''team-a''), Published (sample_published ''team-b''),
     ChannelReady, ChannelReady, RequestDone]"

definition sample_connection :: http_request where
  "sample_connection = (sample_request [])\<lparr>rq_path := ''/notifications''\<rparr>"

lemma sample_serve:
  "\<exists>h' w'. serve_stream 7 [] (Some \<lparr>allow_all = False, namespaces = [''team-a'']\<rparr>) sample_stream new_hub w
     = Inr (h', w', True)"
  by (simp add: serve_stream_def Let_def sample_stream_def sample_published_def hub_register_def alloc_client_def
      new_hub_def broadcast_def new_client_def make_chan_def wants_def chan_try_send_def client_buffer_def
      poll_limit_def client_recv_def chan_recv_def hub_unregister_def close_chan_def)

lemma sample_lib_contract:
  "lib_refuses (sample_lib good u)" "lib_outside (sample_lib good u)"
  by (simp_all add: lib_refuses_def lib_outside_def sample_lib_def plain_error_def status_of_def http_simps)

lemma sample_lib_identity: "al_verify (sample_lib good v) k token s = (Inr u, s') \<Longrightarrow> u = v"
  by (simp add: sample_lib_def split: if_splits)

lemma sample_connection_answered:
  "\<exists>w' s'. new_router (sample_lib ''good'' sample_user) sample_auth 7 sample_stream sample_stream_deps (Some 0) None
     sample_connection (new_writer True) (([sample_scoper], 0), new_hub) = Some (w', s') \<and> status_of w' = Some 200"
proof -
  let ?sc = "\<lparr>allow_all = False, namespaces = [''team-a'']\<rparr>"
  let ?w = "header_set ''Access-Control-Allow-Origin'' ''*'' (new_writer True)"
  let ?r = "sample_connection\<lparr>rq_pattern := ''/notifications'', rq_user := Some sample_user\<rparr>"
  have t: "query_token_param sample_connection = []" "token_from_request sample_auth sample_connection = Some ''good''"
    by (rule sample_token; simp add: sample_connection_def sample_request_def)+
  have f: "scope_for sample_api id 0 sample_user [sample_scoper] 0
      = Some (Inr ?sc, cache_store 0 (cache_key sample_user) ?sc 0 [sample_scoper], 0)"
    using sample_resolve [of 0]
    by (simp add: scope_for_def Let_def sample_api_def api_server_def cache_lookup_def sample_scoper_def)
  have fl: "rw_flusher ?w" "rw_sent ?w = None" by (simp_all add: http_simps new_writer_def)
  have topic: "values_get ''composition_id'' (url_query ?r) = []"
    by (simp add: sample_connection_def sample_request_def url_query_def parse_query_def parse_pair_def values_get_def)
  obtain s2 where o: "sse_open sample_stream_deps (Some 0) ?r ?w ([sample_scoper], 0)
      = Some (SseStream (stream_headers (Some ?sc) ?w) [] (Some ?sc), s2)"
    using f fl topic by (auto simp: sse_open_def resolve_request_scope_def sample_stream_deps_def)
  obtain h' w' where v: "serve_stream 7 [] (Some ?sc) sample_stream new_hub (stream_headers (Some ?sc) ?w) = Inr (h', w', True)"
    using sample_serve by blast
  have "status_of w' = Some 200"
    using serve_stream_sent [OF v] fl by (simp add: stream_headers_sent status_of_def)
  moreover have "stream_handler 7 sample_stream sample_stream_deps (Some 0) ?r ?w (([sample_scoper], 0), new_hub)
      = Some (w', (s2, h'))"
    by (simp add: stream_handler_def handle_sse_def o v)
  then have "new_router (sample_lib ''good'' sample_user) sample_auth 7 sample_stream sample_stream_deps (Some 0) None
     sample_connection (new_writer True) (([sample_scoper], 0), new_hub) = Some (w', (s2, h'))"
    using t by (simp add: new_router_def with_cors_def Let_def serve_mux_def match_route_def proxy_endpoints_def
        require_bearer_def pattern_kept_token sample_lib_def with_user_info_def clean_path_def)
      (simp add: sample_connection_def sample_request_def clean_path_def)
  ultimately show ?thesis by blast
qed


section \<open>From the token to the events list\<close>

text \<open>
  End to end isolation of \<open>/events\<close>: an answer with status 200 is given only for a token, not in the
  URL, that the key source verified, and it lists only rows of namespaces in which, or cluster-wide,
  the Kubernetes API allowed the configured check to the caller of that token, given a ClickHouse that
  honours the namespace parameter of the query.
\<close>

lemma verified_events:
  assumes "new_router lib a c es d (Some ref) audit_scoper r w s = Some (w', s')"
    and "rq_path r = ''/events''" "status_of w' = Some 200" "rw_sent w = None" "rw_body w = []"
    and "lib_refuses lib" "lib_outside lib"
    and "honours_events (dp_client d) (dp_cfg d)" "plain_base (clickhouse_url (dp_cfg d))"
    and "cache_genuine (dp_env d) (fst (fst s) ! ref)"
  shows "\<exists>token u s1. query_token_param r = [] \<and> token_from_request a r = Some token
     \<and> al_verify lib (ac_keys a) token s = (Inr u, s1)
     \<and> (rw_body w' = ''[]'' \<or> (\<exists>rows. rw_body w' = events_body rows
          \<and> (\<forall>row \<in> set rows. granted (dp_env d) (fst (fst s) ! ref) u (obj_namespace row))))"
proof -
  let ?w = "header_set ''Access-Control-Allow-Origin'' ''*'' w"
  let ?r = "r\<lparr>rq_pattern := ''/events''\<rparr>"
  have n: "rw_sent ?w = None" "rw_body ?w = []" using assms(4,5) by (simp_all add: http_simps)
  from guarded_ok [OF router_guarded(2) [OF assms(1,3,4) _ assms(2)] assms(3) n(1) assms(6)] obtain token u s1 where t:
    "query_token_param ?r = []" "token_from_request a ?r = Some token"
    "al_verify lib (ac_keys a) token s = (Inr u, s1)"
    "on_state (handle_events d (Some ref)) (?r\<lparr>rq_user := Some u\<rparr>) ?w s1 = Some (w', s')"
    using assms(2) clean_paths by metis
  let ?r' = "?r\<lparr>rq_user := Some u\<rparr>"
  obtain st' where h: "handle_events d (Some ref) ?r' ?w (fst s1) = Some (w', st')"
    using t(4) by (auto simp: on_state_def)
  have same: "fst (fst s1) = fst (fst s)" using assms(7) t(3) unfolding lib_outside_def by blast
  have no_error: "w' \<noteq> http_error m code ?w" if "code \<in> {400, 500}" for m code
    using assms(3) n(1) that by (auto simp: http_simps)
  obtain scope s2 where sc: "resolve_request_scope d (Some ref) ?r' (fst s1) = Some (Inr (Some scope), s2)"
    "scope_for (dp_env d) (dp_sched d) ref u (fst (fst s)) (snd (fst s1)) = Some (Inr scope, s2)"
    using h no_error same
    by (auto simp: handle_events_def resolve_request_scope_def split: option.splits prod.splits sum.splits)
  obtain v where v: "cache_key v = cache_key u" "resolved_scope (dp_env d) (fst (fst s) ! ref) v scope"
    using scope_for_resolved [of "dp_env d" "dp_sched d" ref u "fst (fst s)" "snd (fst s1)" scope "fst s2" "snd s2"]
      sc(2) assms(10) by auto
  from handle_events_result [OF h n(1) sc(1) assms(8,9)] no_error n(2)
  have "rw_body w' = ''[]'' \<or> (\<exists>rows. rw_body w' = events_body rows
      \<and> (\<forall>row \<in> set rows. allows (Some scope) (obj_namespace row)))" by auto
  then have "rw_body w' = ''[]'' \<or> (\<exists>rows. rw_body w' = events_body rows
          \<and> (\<forall>row \<in> set rows. granted (dp_env d) (fst (fst s) ! ref) u (obj_namespace row)))"
    using resolved_granted [OF v] by blast
  moreover have "query_token_param r = []" "token_from_request a r = Some token"
    using t(1,2) by (simp_all only: pattern_kept_token)
  ultimately show ?thesis using t(3) by blast
qed

section \<open>From the token to the audit records\<close>

text \<open>
  End to end isolation of \<open>/audit\<close>: an answer with status 200 is given only for a token, not in the URL,
  that the key source verified; its scope header announces a scope every namespace of which the
  Kubernetes API granted to the caller under the audit scoper's own check, and the records come from
  one query that was bound, for a restricted caller, to exactly the namespaces of that scope.
\<close>

lemma verified_audit:
  assumes "new_router lib a c es d scoper (Some ref) r w s = Some (w', s')"
    and "rq_path r = ''/audit''" "status_of w' = Some 200" "rw_sent w = None" "rw_body w = []"
    and "lib_refuses lib" "lib_outside lib" "plain_base (clickhouse_url (dp_cfg d))"
    and "cache_genuine (dp_env d) (fst (fst s) ! ref)"
  shows "\<exists>token u s1 scope. query_token_param r = [] \<and> token_from_request a r = Some token
     \<and> al_verify lib (ac_keys a) token s = (Inr u, s1)
     \<and> (\<forall>ns. allows (Some scope) ns \<longrightarrow> granted (dp_env d) (fst (fst s) ! ref) u ns)
     \<and> sent_header scope_header_name w' = scope_header_value (Some scope)
     \<and> (rw_body w' = ''[]'' \<or> (\<exists>sql ps rows v v'.
          query_audit_records (dp_client d) (dp_cfg d) sql ps v = (Inr rows, v') \<and> rw_body w' = audit_body rows
          \<and> (restricted (Some scope) \<longrightarrow> arrived_namespaces (dp_cfg d) sql ps = namespaces scope)))"
proof -
  let ?w = "header_set ''Access-Control-Allow-Origin'' ''*'' w"
  let ?r = "r\<lparr>rq_pattern := ''/audit''\<rparr>"
  have n: "rw_sent ?w = None" "rw_body ?w = []" using assms(4,5) by (simp_all add: http_simps)
  from guarded_ok [OF router_guarded(3) [OF assms(1,3,4) _ assms(2)] assms(3) n(1) assms(6)] obtain token u s1 where t:
    "query_token_param ?r = []" "token_from_request a ?r = Some token"
    "al_verify lib (ac_keys a) token s = (Inr u, s1)"
    "on_state (handle_audit d (Some ref)) (?r\<lparr>rq_user := Some u\<rparr>) ?w s1 = Some (w', s')"
    using assms(2) clean_paths by metis
  let ?r' = "?r\<lparr>rq_user := Some u\<rparr>"
  obtain st' where h: "handle_audit d (Some ref) ?r' ?w (fst s1) = Some (w', st')"
    using t(4) by (auto simp: on_state_def)
  have same: "fst (fst s1) = fst (fst s)" using assms(7) t(3) unfolding lib_outside_def by blast
  from handle_audit_result [OF h n(1) assms(8)] obtain res s2 where
    r: "resolve_request_scope d (Some ref) ?r' (fst s1) = Some (res, s2)" and
    res: "case res of
        Inl e \<Rightarrow> st' = s2 \<and> status_of w' = Some 500 \<and> rw_body w' = rw_body ?w @ ''internal error'' @ [nl]
      | Inr scope \<Rightarrow> scope \<noteq> None
          \<and> sent_header scope_header_name w' = scope_header_value scope
          \<and> (if restricted scope \<and> scope_list scope = [] then st' = s2 \<and> rw_body w' = rw_body ?w @ ''[]''
             else status_of w' = Some 200 \<longrightarrow>
               (\<exists>sql ps rows w2. build_audit_query (url_query ?r') scope 0 = Inr (sql, ps)
                  \<and> query_audit_records (dp_client d) (dp_cfg d) sql ps (snd s2) = (Inr rows, w2)
                  \<and> rw_body w' = rw_body ?w @ audit_body rows
                  \<and> (restricted scope \<longrightarrow> arrived_namespaces (dp_cfg d) sql ps = scope_list scope)))"
    by blast
  with assms(3) obtain scope where sc: "res = Inr (Some scope)" by (cases res) auto
  with r same have f: "scope_for (dp_env d) (dp_sched d) ref u (fst (fst s)) (snd (fst s1)) = Some (Inr scope, s2)"
    by (auto simp: resolve_request_scope_def split: option.splits prod.splits sum.splits)
  obtain v where v: "cache_key v = cache_key u" "resolved_scope (dp_env d) (fst (fst s) ! ref) v scope"
    using scope_for_resolved [of "dp_env d" "dp_sched d" ref u "fst (fst s)" "snd (fst s1)" scope "fst s2" "snd s2"]
      f assms(9) by auto
  have "rw_body w' = ''[]'' \<or> (\<exists>sql ps rows v v'.
          query_audit_records (dp_client d) (dp_cfg d) sql ps v = (Inr rows, v') \<and> rw_body w' = audit_body rows
          \<and> (restricted (Some scope) \<longrightarrow> arrived_namespaces (dp_cfg d) sql ps = namespaces scope))"
  proof (cases "restricted (Some scope) \<and> scope_list (Some scope) = []")
    case True
    with res n(2) show ?thesis by (simp add: sc)
  next
    case False
    with res assms(3) obtain sql ps rows w2 where
      "query_audit_records (dp_client d) (dp_cfg d) sql ps (snd s2) = (Inr rows, w2)"
      "rw_body w' = rw_body ?w @ audit_body rows"
      "restricted (Some scope) \<longrightarrow> arrived_namespaces (dp_cfg d) sql ps = scope_list (Some scope)"
      by (simp only: sc sum.case if_False simp_thms) blast
    with n(2) have "query_audit_records (dp_client d) (dp_cfg d) sql ps (snd s2) = (Inr rows, w2)
        \<and> rw_body w' = audit_body rows
        \<and> (restricted (Some scope) \<longrightarrow> arrived_namespaces (dp_cfg d) sql ps = namespaces scope)"
      by (simp add: scope_list_def)
    then show ?thesis by blast
  qed
  moreover have "sent_header scope_header_name w' = scope_header_value (Some scope)" using res by (simp add: sc)
  moreover have "query_token_param r = []" "token_from_request a r = Some token"
    using t(1,2) by (simp_all only: pattern_kept_token)
  ultimately show ?thesis using t(3) resolved_granted [OF v] by blast
qed

lemma router_audit_off:
  assumes "new_router lib a c es d scoper None r w s = Some (w', s')"
    and "rq_path r = ''/audit''" "rw_sent w = None" "lib_refuses lib"
  shows "status_of w' \<noteq> Some 200"
proof
  assume ok: "status_of w' = Some 200"
  let ?w = "header_set ''Access-Control-Allow-Origin'' ''*'' w"
  have n: "rw_sent ?w = None" using assms(3) by (simp add: http_simps)
  from guarded_ok [OF router_guarded(3) [OF assms(1) ok assms(3) _ assms(2)] ok n assms(4)] obtain u s1 where
    "on_state (handle_audit d None) (r\<lparr>rq_pattern := ''/audit'', rq_user := Some u\<rparr>) ?w s1 = Some (w', s')"
    using assms(2) clean_paths by metis
  then show False using ok n by (auto simp: on_state_def handle_audit_def status_of_def http_simps)
qed

end
