(* ===== verification/Status_Log.thy ===== *)
theory Status_Log
  imports Startup
begin

text \<open>
  The log lines that state a security posture: the wrappers of \<open>logging.go\<close> around \<open>log/slog\<close>, the
  status lines of \<open>auth.go\<close>, \<open>rbac.go\<close> and \<open>telemetry.go\<close>, what \<open>main\<close> logs until it listens, and the
  warning the bearer wrapper writes when it refuses a token in a URL. A line is what is handed to
  \<open>slog.LogAttrs\<close>.
\<close>

section \<open>Lines\<close>

datatype log_value = LStr string | LBool bool | LInt int | LErr go_error

record log_line =
  ll_level :: log_level
  ll_msg :: string
  ll_attrs :: "log_value log_arg list"

type_synonym span = "(log_value \<times> log_value) option"

definition slog_info_ctx :: "span \<Rightarrow> string \<Rightarrow> string \<Rightarrow> log_value log_arg list \<Rightarrow> log_line" where
  "slog_info_ctx span component msg attrs =
     \<lparr>ll_level = Level_Info, ll_msg = msg, ll_attrs = merge_attrs span (LStr component) attrs\<rparr>"

definition slog_warn_ctx :: "span \<Rightarrow> string \<Rightarrow> string \<Rightarrow> log_value log_arg list \<Rightarrow> log_line" where
  "slog_warn_ctx span component msg attrs =
     \<lparr>ll_level = Level_Warn, ll_msg = msg, ll_attrs = merge_attrs span (LStr component) attrs\<rparr>"

definition slog_error_ctx ::
  "span \<Rightarrow> string \<Rightarrow> string \<Rightarrow> go_error option \<Rightarrow> log_value log_arg list \<Rightarrow> log_line" where
  "slog_error_ctx span component msg err attrs =
     \<lparr>ll_level = Level_Error, ll_msg = msg,
      ll_attrs = slog_error_attrs span (LStr component) (map_option LErr err) attrs\<rparr>"

definition slog_info :: "string \<Rightarrow> string \<Rightarrow> log_value log_arg list \<Rightarrow> log_line" where
  "slog_info component msg attrs = slog_info_ctx None component msg attrs"

definition slog_error :: "string \<Rightarrow> string \<Rightarrow> go_error option \<Rightarrow> log_line" where
  "slog_error component msg err = slog_error_ctx None component msg err []"

definition str_attr :: "string \<Rightarrow> string \<Rightarrow> log_value log_arg" where
  "str_attr k v = Attr k (LStr v)"

definition em_dash :: string where "em_dash = [CHR 0xE2, CHR 0x80, CHR 0x94]"

section \<open>Durations as text\<close>

text \<open>
  \<open>time.Duration.String\<close>: below a second in the largest unit that leaves a whole part, otherwise
  hours, minutes and seconds; fractions without trailing zeros.
\<close>

definition frac_text :: "nat \<Rightarrow> nat \<Rightarrow> string" where
  "frac_text v prec =
     (let ds = itoa (int (v mod 10 ^ prec));
          padded = replicate (prec - length ds) (CHR ''0'') @ ds;
          kept = rev (dropWhile (\<lambda>c. c = CHR ''0'') (rev padded))
      in if kept = [] then [] else CHR ''.'' # kept)"

definition scaled_text :: "nat \<Rightarrow> nat \<Rightarrow> string \<Rightarrow> string" where
  "scaled_text v prec u = itoa (int (v div 10 ^ prec)) @ (if prec = 0 then [] else frac_text v prec) @ u"

definition duration_text :: "duration \<Rightarrow> string" where
  "duration_text d =
     (let v = nat (abs d); s = v div 10 ^ 9;
          text = (if v = 0 then ''0s''
                  else if v < 10 ^ 3 then scaled_text v 0 ''ns''
                  else if v < 10 ^ 6 then scaled_text v 3 [CHR 0xC2, CHR 0xB5, CHR ''s'']
                  else if v < 10 ^ 9 then scaled_text v 6 ''ms''
                  else (if s < 3600 then [] else itoa (int (s div 3600)) @ ''h'')
                     @ (if s < 60 then [] else itoa (int (s div 60 mod 60)) @ ''m'')
                     @ itoa (int (s mod 60)) @ frac_text v 9 @ ''s'')
      in if d < 0 then CHR ''-'' # text else text)"

section \<open>The posture lines\<close>

definition auth_status :: "'k auth_config \<Rightarrow> log_line" where
  "auth_status a =
     slog_info ''sse-proxy'' ''auth ENFORCED (RS256/JWKS, mandatory); token via Authorization header or cookie''
       [str_attr ''jwks_url'' (ac_jwks_url a), str_attr ''session_cookie'' (ac_session_cookie a)]"

definition rule_attrs :: "rbac_scoper \<Rightarrow> log_value log_arg list" where
  "rule_attrs s =
     [str_attr ''verb'' (rs_verb s), str_attr ''resource'' (rs_resource s), str_attr ''apiGroup'' (rs_api_group s)]"

definition scoper_status :: "scoper_ref option \<Rightarrow> scoper_heap \<Rightarrow> log_line" where
  "scoper_status scoper h =
     (case scoper of
        None \<Rightarrow>
          slog_info ''sse-proxy'' (''rbac namespace scoping DISABLED '' @ em_dash
            @ '' set RBAC_SCOPING_ENABLED=true to enforce per-tenant filtering'') []
      | Some r \<Rightarrow>
          slog_info ''sse-proxy'' ''rbac namespace scoping ENABLED (SubjectAccessReview-derived, fail-closed)''
            (rule_attrs (h ! r) @ [str_attr ''cache_ttl'' (duration_text (rs_ttl (h ! r)))]))"

definition audit_disabled_msg :: string where
  "audit_disabled_msg = ''audit scoping DISABLED (rbac scoping is off)''"

definition audit_shares_msg :: string where
  "audit_shares_msg = ''audit scoping SHARES the events permission '' @ em_dash @ '' anyone who can ''
     @ ''RBAC_SCOPING_VERB RBAC_SCOPING_RESOURCE can read the audit trail; set ''
     @ ''AUDIT_SCOPING_VERB/AUDIT_SCOPING_RESOURCE/AUDIT_SCOPING_APIGROUP to separate them''"

definition audit_own_msg :: string where
  "audit_own_msg = ''audit scoping ENABLED with its OWN permission (SubjectAccessReview-derived, fail-closed)''"

definition audit_status :: "scoper_ref option \<Rightarrow> scoper_ref option \<Rightarrow> scoper_heap \<Rightarrow> log_line" where
  "audit_status audit events h =
     (case audit of
        None \<Rightarrow> slog_info ''sse-proxy'' audit_disabled_msg []
      | Some a \<Rightarrow>
          if audit = events then slog_info ''sse-proxy'' audit_shares_msg (rule_attrs (h ! a))
          else slog_info ''sse-proxy'' audit_own_msg
                 (rule_attrs (h ! a) @ [str_attr ''cache_ttl'' (duration_text (rs_ttl (h ! a)))]))"

definition otel_status :: "environ \<Rightarrow> telemetry \<Rightarrow> log_line" where
  "otel_status g t =
     slog_info ''telemetry'' ''otel status''
       [Attr ''enabled'' (LBool (env_enabled g ''OTEL_ENABLED'')),
        Attr ''tracing_enabled'' (LBool (tracing_enabled t)),
        Attr ''metrics_enabled'' (LBool (metrics_enabled t)),
        str_attr ''endpoint'' (g ''OTEL_EXPORTER_OTLP_ENDPOINT'')]"

text \<open>What \<open>setupTelemetry\<close> logs: an exporter that was asked for and could not be created.\<close>

definition exporter_errors :: "environ \<Rightarrow> go_error option \<Rightarrow> go_error option \<Rightarrow> log_line list" where
  "exporter_errors g trace_err metric_err =
     (let master = env_enabled g ''OTEL_ENABLED''
      in (if env_enabled_or g ''OTEL_TRACING_ENABLED'' master \<and> trace_err \<noteq> None
          then [slog_error ''telemetry'' ''otlp trace exporter init failed'' trace_err] else [])
       @ (if env_enabled_or g ''OTEL_METRICS_ENABLED'' master \<and> metric_err \<noteq> None
          then [slog_error ''telemetry'' ''otlp metric exporter init failed'' metric_err] else []))"

text \<open>The lines of \<open>main\<close> up to the listener, or up to the exit of a start that fails.\<close>

definition start_log ::
  "'w env \<Rightarrow> environ \<Rightarrow> (string \<Rightarrow> bool) \<Rightarrow> (string \<Rightarrow> string)
     \<Rightarrow> (string \<Rightarrow> duration \<Rightarrow> duration \<Rightarrow> duration \<Rightarrow> 'k) \<Rightarrow> (string \<Rightarrow> go_error option)
     \<Rightarrow> go_error option \<Rightarrow> go_error option \<Rightarrow> 'w \<Rightarrow> log_line list" where
  "start_log env g pem_ok jwks_url_of new_keys register trace_err metric_err w =
     (case load_auth_config jwks_url_of new_keys g of
        Inl e \<Rightarrow> [slog_error ''sse-proxy''
          (''auth configuration failed '' @ em_dash @ '' token verification is mandatory'') (Some e)]
      | Inr auth \<Rightarrow> auth_status auth #
          (case load_rbac_scoper env g pem_ok [] w of
             (Inl e, h, w1) \<Rightarrow> [slog_error ''sse-proxy'' ''rbac scoping init failed'' (Some e)]
           | (Inr scoper, h, w1) \<Rightarrow>
               let (audit_scoper, h1) = load_audit_scoper g scoper h;
                   (tel, shutdowns) = setup_telemetry g trace_err metric_err
               in [scoper_status scoper h, audit_status audit_scoper scoper h1]
                  @ exporter_errors g trace_err metric_err @ [otel_status g tel]
                  @ (case init_metrics register of
                       Inl e \<Rightarrow> [slog_error ''telemetry'' ''metric instrument init failed'' (Some e)]
                     | Inr m \<Rightarrow> [])
                  @ [slog_info ''sse-proxy'' ''listening'' [str_attr ''addr'' (listen_addr (load_config g))]]))"

text \<open>The default logger of \<open>initLogging\<close> writes the lines of its level and above.\<close>

definition emitted :: "environ \<Rightarrow> log_line list \<Rightarrow> log_line list" where
  "emitted g ls = filter (\<lambda>l. init_logging g \<le> ll_level l) ls"

section \<open>The refusal of a token in the URL\<close>

definition refusal_log :: "span \<Rightarrow> http_request \<Rightarrow> log_line option" where
  "refusal_log span r =
     (let param = query_token_param r
      in if param \<noteq> []
         then Some (slog_warn_ctx span ''sse-proxy'' ''refused a token in the query string''
                [str_attr ''param'' param, str_attr ''route'' (rq_pattern r),
                 str_attr ''user_agent'' (truncate_text (header_get ''User-Agent'' (rq_headers r)) 120)])
         else None)"

text \<open>The line for a request as the mux routes it.\<close>

definition routed_refusal :: "span \<Rightarrow> http_request \<Rightarrow> log_line option" where
  "routed_refusal span r =
     (if clean_path (rq_path r) \<noteq> rq_path r then None
      else (case match_route (rq_path r) of
              None \<Rightarrow> None
            | Some (pat, rt) \<Rightarrow> if rt = Health_Route then None else refusal_log span (r\<lparr>rq_pattern := pat\<rparr>)))"

section \<open>Laws\<close>

lemma slog_info_simps [simp]:
  "ll_level (slog_info c m as) = Level_Info" "ll_msg (slog_info c m as) = m"
  "ll_attrs (slog_info c m as) = Attr ''component'' (LStr c) # only_attrs as"
  by (simp_all add: slog_info_def slog_info_ctx_def merge_attrs_def trace_attrs_def)

lemma slog_error_simps:
  "ll_level (slog_error c m err) = Level_Error"
  "ll_attrs (slog_error c m (Some e)) = [Attr ''component'' (LStr c), Attr ''error'' (LErr e)]"
  by (simp_all add: slog_error_def slog_error_ctx_def slog_error_attrs_def merge_attrs_def trace_attrs_def)

lemma only_rule_attrs [simp]:
  "only_attrs (rule_attrs s @ as) = rule_attrs s @ only_attrs as" "only_attrs (rule_attrs s) = rule_attrs s"
  by (simp_all add: rule_attrs_def str_attr_def)

lemma audit_messages_differ:
  "audit_disabled_msg \<noteq> audit_shares_msg" "audit_disabled_msg \<noteq> audit_own_msg" "audit_shares_msg \<noteq> audit_own_msg"
  "audit_shares_msg \<noteq> audit_disabled_msg" "audit_own_msg \<noteq> audit_disabled_msg" "audit_own_msg \<noteq> audit_shares_msg"
  by (simp_all add: audit_disabled_msg_def audit_shares_msg_def audit_own_msg_def)

lemma audit_status_msg:
  "ll_msg (audit_status audit events h)
     = (if audit = None then audit_disabled_msg else if audit = events then audit_shares_msg else audit_own_msg)"
  by (simp add: audit_status_def split: option.split)

lemma audit_status_rule:
  "audit = Some a \<Longrightarrow> \<exists>rest. ll_attrs (audit_status audit events h)
     = Attr ''component'' (LStr ''sse-proxy'') # rule_attrs (h ! a) @ rest"
  by (simp add: audit_status_def)

lemma load_audit_scoper_shares:
  assumes "load_audit_scoper g (Some r) h = (a, h')" "r < length h"
  shows "a = Some r \<longleftrightarrow> g ''AUDIT_SCOPING_VERB'' = [] \<and> g ''AUDIT_SCOPING_RESOURCE'' = [] \<and> g ''AUDIT_SCOPING_APIGROUP'' = []"
  using assms by (auto simp: load_audit_scoper_def Let_def get_env_def split: if_splits)

text \<open>A start that succeeds, taken apart.\<close>

lemma start_proxy_parts:
  assumes "start_proxy env g pem_ok jwks_url_of new_keys register trace_err metric_err w = (Inr (px, h), w')"
  obtains auth h0 w1 where "load_auth_config jwks_url_of new_keys g = Inr auth"
    "load_rbac_scoper env g pem_ok [] w = (Inr (px_scoper px), h0, w1)"
    "load_audit_scoper g (px_scoper px) h0 = (px_audit_scoper px, h)"
proof -
  obtain auth where a: "load_auth_config jwks_url_of new_keys g = Inr auth"
    using assms by (cases "load_auth_config jwks_url_of new_keys g") (auto simp: start_proxy_def Let_def)
  obtain scoper h0 w1 where s: "load_rbac_scoper env g pem_ok [] w = (Inr scoper, h0, w1)"
    using assms a by (auto simp: start_proxy_def Let_def split: prod.splits sum.splits)
  with assms a have "px_scoper px = scoper" "load_audit_scoper g scoper h0 = (px_audit_scoper px, h)"
    by (auto simp: start_proxy_def Let_def split: prod.splits)
  with a s that show ?thesis by blast
qed

lemma find_token_name_value: "find_token_name ps \<noteq> [] \<Longrightarrow> find_token_name ps \<in> {''access_token'', ''token''}"
  by (induction ps) (auto simp: Let_def)

text \<open>A start that fails ends its log with an error that carries the cause.\<close>

lemma failed_start_log:
  assumes "start_proxy env g pem_ok jwks_url_of new_keys register trace_err metric_err w = (Inl e, w')"
  shows "\<exists>pre l cause. start_log env g pem_ok jwks_url_of new_keys register trace_err metric_err w = pre @ [l]
     \<and> ll_level l = Level_Error \<and> Attr ''error'' (LErr cause) \<in> set (ll_attrs l)
     \<and> (e = ''auth configuration failed: '' @ cause \<or> e = ''rbac scoping init failed: '' @ cause)"
proof (cases "load_auth_config jwks_url_of new_keys g")
  case (Inl c)
  with assms show ?thesis
    by (auto simp: start_proxy_def start_log_def slog_error_simps Let_def)
next
  case (Inr auth)
  obtain r h w1 where s: "load_rbac_scoper env g pem_ok [] w = (r, h, w1)"
    by (cases "load_rbac_scoper env g pem_ok [] w") auto
  with assms Inr obtain c where c: "r = Inl c" "e = ''rbac scoping init failed: '' @ c"
    by (cases r) (auto simp: start_proxy_def Let_def split: prod.splits)
  let ?l = "slog_error ''sse-proxy'' ''rbac scoping init failed'' (Some c)"
  have "start_log env g pem_ok jwks_url_of new_keys register trace_err metric_err w = [auth_status auth] @ [?l]"
    using Inr s c by (simp add: start_log_def)
  with c show ?thesis
    by (intro exI [of _ "[auth_status auth]"] exI [of _ ?l] exI [of _ c]) (simp add: slog_error_simps)
qed

section \<open>Properties of the log\<close>

text \<open>
  The log of a start tells who may read the audit trail, and tells the truth: among its lines is
  one that says audit scoping is off exactly when no endpoint is scoped, that the events permission
  is shared exactly when scoping is on and none of the three audit variables is set, and that audit
  has its own permission otherwise; and the rule it names is the one the audit scoper asks about.
\<close>

theorem audit_posture_logged:
  assumes "start_proxy env g pem_ok jwks_url_of new_keys register trace_err metric_err w = (Inr (px, h), w')"
  shows "\<exists>l \<in> set (start_log env g pem_ok jwks_url_of new_keys register trace_err metric_err w).
     (let none_set = g ''AUDIT_SCOPING_VERB'' = [] \<and> g ''AUDIT_SCOPING_RESOURCE'' = [] \<and> g ''AUDIT_SCOPING_APIGROUP'' = []
      in ll_msg l = (if px_scoper px = None then audit_disabled_msg
                     else if none_set then audit_shares_msg else audit_own_msg))
     \<and> (\<forall>a. px_audit_scoper px = Some a \<longrightarrow>
          (\<exists>rest. ll_attrs l = Attr ''component'' (LStr ''sse-proxy'') # rule_attrs (h ! a) @ rest))"
proof -
  from start_proxy_parts [OF assms] obtain auth h0 w1 where p:
    "load_auth_config jwks_url_of new_keys g = Inr auth"
    "load_rbac_scoper env g pem_ok [] w = (Inr (px_scoper px), h0, w1)"
    "load_audit_scoper g (px_scoper px) h0 = (px_audit_scoper px, h)" by blast
  let ?l = "audit_status (px_audit_scoper px) (px_scoper px) h"
  have "?l \<in> set (start_log env g pem_ok jwks_url_of new_keys register trace_err metric_err w)"
    using p by (cases "setup_telemetry g trace_err metric_err") (simp add: start_log_def)
  moreover have "px_audit_scoper px = px_scoper px \<longleftrightarrow> px_scoper px = None \<or>
      g ''AUDIT_SCOPING_VERB'' = [] \<and> g ''AUDIT_SCOPING_RESOURCE'' = [] \<and> g ''AUDIT_SCOPING_APIGROUP'' = []"
  proof (cases "px_scoper px")
    case None
    with load_audit_scoper_None [OF p(3)] show ?thesis by simp
  next
    case (Some r)
    with load_rbac_scoper_enabled(2) [OF p(2)] load_audit_scoper_shares [of g r h0 "px_audit_scoper px" h] p(3)
    show ?thesis by simp
  qed
  ultimately show ?thesis
    using load_audit_scoper_None [OF p(3)] audit_status_rule [of "px_audit_scoper px" _ "px_scoper px" h]
    by (intro bexI [of _ ?l]) (auto simp: audit_status_msg Let_def)
qed

theorem audit_posture_logged_witness:
  "\<exists>l \<in> set (start_log sample_api sample_environ (\<lambda>_. True) (\<lambda>b. b) (\<lambda>u a b c. u) (\<lambda>_. None) None None 0).
     ll_msg l = audit_shares_msg"
proof -
  obtain px h w' where st: "start_proxy sample_api sample_environ (\<lambda>_. True) (\<lambda>b. b)
      (\<lambda>u a b c. u) (\<lambda>_. None) None None 0 = (Inr (px, h), w')" by (rule sample_start)
  from start_proxy_parts [OF st] load_rbac_scoper_enabled(1) sample_scoping_on
  have "px_scoper px \<noteq> None" by metis
  with audit_posture_logged [OF st] show ?thesis
    by (auto simp: Let_def sample_environ_def)
qed

text \<open>
  A start that fails says why, whatever LOG_LEVEL is: the last line the process writes before it
  exits is an error that carries the error which stopped it.
\<close>

theorem failed_start_reported:
  assumes "start_proxy env g pem_ok jwks_url_of new_keys register trace_err metric_err w = (Inl e, w')"
  shows "\<exists>pre l cause. emitted g (start_log env g pem_ok jwks_url_of new_keys register trace_err metric_err w) = pre @ [l]
     \<and> ll_level l = Level_Error \<and> Attr ''error'' (LErr cause) \<in> set (ll_attrs l)
     \<and> (e = ''auth configuration failed: '' @ cause \<or> e = ''rbac scoping init failed: '' @ cause)"
proof -
  from failed_start_log [OF assms] obtain pre l cause where l:
    "start_log env g pem_ok jwks_url_of new_keys register trace_err metric_err w = pre @ [l]"
    "ll_level l = Level_Error" "Attr ''error'' (LErr cause) \<in> set (ll_attrs l)"
    "e = ''auth configuration failed: '' @ cause \<or> e = ''rbac scoping init failed: '' @ cause" by blast
  then have "emitted g (start_log env g pem_ok jwks_url_of new_keys register trace_err metric_err w) = emitted g pre @ [l]"
    by (simp add: emitted_def Level_Error_top)
  with l(2-4) show ?thesis by blast
qed

theorem failed_start_reported_witness:
  "\<exists>pre l. emitted (\<lambda>v. if v = ''RBAC_SCOPING_ENABLED'' then ''true'' else if v = ''LOG_LEVEL'' then ''error'' else [])
       (start_log sample_api (\<lambda>v. if v = ''RBAC_SCOPING_ENABLED'' then ''true'' else if v = ''LOG_LEVEL'' then ''error'' else [])
          (\<lambda>_. True) (\<lambda>b. b) (\<lambda>u a b c. u) (\<lambda>_. None) None None 0) = pre @ [l]
     \<and> ll_level l = Level_Error"
proof -
  let ?g = "\<lambda>v. if v = ''RBAC_SCOPING_ENABLED'' then ''true'' else if v = ''LOG_LEVEL'' then ''error'' else []"
  have "trim_space default_url_authn \<noteq> []"
    by (simp add: default_url_authn_def trim_space_def ascii_space_def space2_def space3_def byte_def)
  then obtain auth where a: "load_auth_config (\<lambda>b. b) (\<lambda>u a b c. u) ?g = Inr auth"
    by (simp add: load_auth_config_def Let_def trim_space_def)
  have "equal_fold (get_env ?g ''RBAC_SCOPING_ENABLED'' ''false'') ''true''"
    by (simp add: get_env_def equal_fold_def)
  then obtain c h w1 where s: "load_rbac_scoper sample_api ?g (\<lambda>_. True) [] 0 = (Inl c, h, w1)"
    by (simp add: load_rbac_scoper_def new_in_cluster_kube_client_def Let_def)
  have "\<exists>e w'. start_proxy sample_api ?g (\<lambda>_. True) (\<lambda>b. b) (\<lambda>u a b c. u) (\<lambda>_. None) None None 0 = (Inl e, w')"
    using a s by (simp add: start_proxy_def Let_def)
  then obtain e w' where "start_proxy sample_api ?g (\<lambda>_. True) (\<lambda>b. b) (\<lambda>u a b c. u) (\<lambda>_. None) None None 0 = (Inl e, w')"
    by blast
  from failed_start_reported [OF this] show ?thesis by blast
qed



end
