(* ===== verification/Lifecycle.thy ===== *)
theory Lifecycle
  imports Status_Log
begin

text \<open>
  The life of the process: \<open>main\<close> of \<open>main.go\<close> from its start to its exit, with the goroutine that waits
  for a signal, the HTTP server's connections and the deferred calls. Of \<open>http.Server\<close> the model has
  what its documentation promises: after \<open>Shutdown\<close> no connection is accepted and \<open>ListenAndServe\<close>
  returns \<open>ErrServerClosed\<close> at once; \<open>Shutdown\<close> itself closes idle connections, waits for the others
  without interrupting them, and gives up when its context is done.
\<close>

section \<open>The inbound handler\<close>

text \<open>
  With tracing on the router is wrapped by \<open>otelhttp.NewHandler\<close>, a parameter, whose filter leaves the
  health probe alone.
\<close>

definition server_handler :: "('s handler \<Rightarrow> 's handler) \<Rightarrow> telemetry \<Rightarrow> 's handler \<Rightarrow> 's handler" where
  "server_handler otel t router =
     (if tracing_enabled t
      then (\<lambda>r. if rq_path r \<noteq> ''/health'' then otel router r else router r)
      else router)"

lemma served_as_routed:
  "rq_path r = ''/health'' \<Longrightarrow> server_handler otel t router r = router r"
  "(\<forall>h. otel h = h) \<Longrightarrow> server_handler otel t router = router"
  by (simp_all add: server_handler_def fun_eq_iff)

section \<open>The process\<close>

datatype os_signal = SIGTERM | SIGINT

fun signal_text :: "os_signal \<Rightarrow> string" where
  "signal_text SIGTERM = ''terminated''"
| "signal_text SIGINT = ''interrupt''"

text \<open>
  Where the two goroutines are: \<open>main\<close> in \<open>ListenAndServe\<close>, about to run its deferred calls, or the whole
  process gone with an exit status; the signal goroutine waiting, after \<open>cancel()\<close>, in \<open>Shutdown\<close> with
  the deadline of its context, or finished.
\<close>

datatype main_pc = Main_Serving | Main_Returning | Main_Exited nat

datatype signal_pc = Sig_Waiting | Sig_Received | Sig_Draining time | Sig_Done

text \<open>
  \<open>ps_busy\<close> holds the connections that are new or in the middle of a request, an event stream for all
  its life; \<open>ps_idle\<close> those kept alive between requests. \<open>ps_stopping\<close> is set once \<open>Shutdown\<close> was called,
  \<open>ps_cancelled\<close> is the state of the context the poller runs under, and \<open>ps_flushed\<close> says that the
  telemetry was shut down.
\<close>

record process =
  ps_main :: main_pc
  ps_signal :: signal_pc
  ps_signals :: "os_signal chan"
  ps_cancelled :: bool
  ps_stopping :: bool
  ps_busy :: "nat list"
  ps_idle :: "nat list"
  ps_clock :: time
  ps_flushed :: bool
  ps_log :: "log_line list"

definition log_line_out :: "log_line \<Rightarrow> process \<Rightarrow> process" where
  "log_line_out l s = s\<lparr>ps_log := ps_log s @ [l]\<rparr>"

definition os_exit :: "nat \<Rightarrow> process \<Rightarrow> process" where
  "os_exit code s = s\<lparr>ps_main := Main_Exited code\<rparr>"

text \<open>The process when \<open>main\<close> enters \<open>ListenAndServe\<close>.\<close>

definition serving :: "time \<Rightarrow> log_line list \<Rightarrow> process" where
  "serving now log =
     \<lparr>ps_main = Main_Serving, ps_signal = Sig_Waiting, ps_signals = make_chan 1, ps_cancelled = False,
      ps_stopping = False, ps_busy = [], ps_idle = [], ps_clock = now, ps_flushed = False, ps_log = log\<rparr>"

text \<open>A start that fails exits with status 1 before anything is served.\<close>

definition launch ::
  "'w env \<Rightarrow> environ \<Rightarrow> (string \<Rightarrow> bool) \<Rightarrow> (string \<Rightarrow> string)
     \<Rightarrow> (string \<Rightarrow> duration \<Rightarrow> duration \<Rightarrow> duration \<Rightarrow> 'k) \<Rightarrow> (string \<Rightarrow> go_error option)
     \<Rightarrow> go_error option \<Rightarrow> go_error option \<Rightarrow> 'w \<Rightarrow> time \<Rightarrow> process" where
  "launch env g pem_ok jwks_url_of new_keys register trace_err metric_err w now =
     (let s = serving now (start_log env g pem_ok jwks_url_of new_keys register trace_err metric_err w)
      in case start_proxy env g pem_ok jwks_url_of new_keys register trace_err metric_err w of
           (Inl e, w') \<Rightarrow> os_exit 1 s
         | (Inr px, w') \<Rightarrow> s)"

section \<open>Signals and shutdown\<close>

text \<open>\<open>signal.Notify\<close> never waits: a signal that finds the buffer full is dropped.\<close>

definition deliver_signal :: "os_signal \<Rightarrow> process \<Rightarrow> process" where
  "deliver_signal sig s =
     (case chan_try_send sig (ps_signals s) of
        Inl p \<Rightarrow> s
      | Inr (ch, sent) \<Rightarrow> s\<lparr>ps_signals := ch\<rparr>)"

definition signal_line :: "os_signal \<Rightarrow> log_line" where
  "signal_line sig =
     slog_info ''sse-proxy'' ''received signal, shutting down gracefully'' [str_attr ''signal'' (signal_text sig)]"

definition receive_signal :: "os_signal \<Rightarrow> process \<Rightarrow> process" where
  "receive_signal sig s = (log_line_out (signal_line sig) s)\<lparr>ps_cancelled := True, ps_signal := Sig_Received\<rparr>"

definition shutdown_timeout :: duration where
  "shutdown_timeout = 10 * second"

definition begin_shutdown :: "process \<Rightarrow> process" where
  "begin_shutdown s = s\<lparr>ps_stopping := True, ps_signal := Sig_Draining (ps_clock s + shutdown_timeout)\<rparr>"

definition shutdown_returns :: "go_error option \<Rightarrow> process \<Rightarrow> process" where
  "shutdown_returns err s =
     (case err of
        None \<Rightarrow> s
      | Some e \<Rightarrow> log_line_out (slog_error ''sse-proxy'' ''http shutdown error'' err) s)\<lparr>ps_signal := Sig_Done\<rparr>"

section \<open>The end of main\<close>

definition stopped_line :: log_line where
  "stopped_line = slog_info ''sse-proxy'' ''stopped'' []"

text \<open>What \<open>main\<close> does with the error of \<open>ListenAndServe\<close>; \<open>None\<close> stands for \<open>http.ErrServerClosed\<close>.\<close>

definition serve_returns :: "go_error option \<Rightarrow> process \<Rightarrow> process" where
  "serve_returns err s =
     (case err of
        Some e \<Rightarrow> os_exit 1 (log_line_out (slog_error ''sse-proxy'' ''fatal server error'' err) s)
      | None \<Rightarrow> (log_line_out stopped_line s)\<lparr>ps_main := Main_Returning\<rparr>)"

text \<open>The deferred calls in reverse order: the telemetry shutdown with its error, then \<open>cancel\<close>.\<close>

definition run_defers :: "go_error option \<Rightarrow> process \<Rightarrow> process" where
  "run_defers err s =
     os_exit 0
       ((case err of
           None \<Rightarrow> s
         | Some e \<Rightarrow> log_line_out (slog_error ''telemetry'' ''shutdown error'' err) s)
        \<lparr>ps_flushed := True, ps_cancelled := True\<rparr>)"

section \<open>Steps\<close>

definition alive :: "process \<Rightarrow> bool" where
  "alive s \<longleftrightarrow> (\<forall>code. ps_main s \<noteq> Main_Exited code)"

text \<open>
  What comes from outside: signals, new connections, time. A connection is accepted while \<open>main\<close> is in
  \<open>ListenAndServe\<close> and the server is not stopping.
\<close>

inductive outside_step :: "process \<Rightarrow> process \<Rightarrow> bool" where
  signal: "alive s \<Longrightarrow> outside_step s (deliver_signal sig s)"
| accept: "ps_main s = Main_Serving \<Longrightarrow> \<not> ps_stopping s \<Longrightarrow> c \<notin> set (ps_busy s @ ps_idle s) \<Longrightarrow>
     outside_step s (s\<lparr>ps_busy := c # ps_busy s\<rparr>)"
| time: "alive s \<Longrightarrow> 0 < d \<Longrightarrow> outside_step s (s\<lparr>ps_clock := ps_clock s + d\<rparr>)"

text \<open>
  What the process does: the signal goroutine, \<open>main\<close>, and the goroutines of the connections. A request
  that ends leaves its connection idle, or closes it when the client left or the server is stopping;
  an idle connection takes a request or is closed.
\<close>

inductive proc_step :: "process \<Rightarrow> process \<Rightarrow> bool" where
  receive: "alive s \<Longrightarrow> ps_signal s = Sig_Waiting \<Longrightarrow> chan_recv (ps_signals s) = (Got sig, ch) \<Longrightarrow>
     proc_step s (receive_signal sig (s\<lparr>ps_signals := ch\<rparr>))"
| shutdown: "alive s \<Longrightarrow> ps_signal s = Sig_Received \<Longrightarrow> proc_step s (begin_shutdown s)"
| drained: "alive s \<Longrightarrow> ps_signal s = Sig_Draining d \<Longrightarrow> ps_busy s = [] \<Longrightarrow>
     proc_step s (shutdown_returns err (s\<lparr>ps_idle := []\<rparr>))"
| timed_out: "alive s \<Longrightarrow> ps_signal s = Sig_Draining d \<Longrightarrow> ps_busy s \<noteq> [] \<Longrightarrow> d \<le> ps_clock s \<Longrightarrow>
     proc_step s (shutdown_returns (Some ''context deadline exceeded'') s)"
| server_failed: "ps_main s = Main_Serving \<Longrightarrow> \<not> ps_stopping s \<Longrightarrow> proc_step s (serve_returns (Some e) s)"
| server_closed: "ps_main s = Main_Serving \<Longrightarrow> ps_stopping s \<Longrightarrow> proc_step s (serve_returns None s)"
| defers: "ps_main s = Main_Returning \<Longrightarrow> proc_step s (run_defers err s)"
| kept_alive: "alive s \<Longrightarrow> \<not> ps_stopping s \<Longrightarrow> c \<in> set (ps_busy s) \<Longrightarrow>
     proc_step s (s\<lparr>ps_busy := remove1 c (ps_busy s), ps_idle := c # ps_idle s\<rparr>)"
| closed: "alive s \<Longrightarrow> c \<in> set (ps_busy s) \<Longrightarrow> proc_step s (s\<lparr>ps_busy := remove1 c (ps_busy s)\<rparr>)"
| next_request: "alive s \<Longrightarrow> c \<in> set (ps_idle s) \<Longrightarrow>
     proc_step s (s\<lparr>ps_busy := c # ps_busy s, ps_idle := remove1 c (ps_idle s)\<rparr>)"
| idle_closed: "alive s \<Longrightarrow> c \<in> set (ps_idle s) \<Longrightarrow> proc_step s (s\<lparr>ps_idle := remove1 c (ps_idle s)\<rparr>)"

inductive lifecycle :: "process \<Rightarrow> process \<Rightarrow> bool" for start :: process where
  begins: "lifecycle start start"
| outside: "lifecycle start s \<Longrightarrow> outside_step s t \<Longrightarrow> lifecycle start t"
| inside: "lifecycle start s \<Longrightarrow> proc_step s t \<Longrightarrow> lifecycle start t"

inductive_cases outside_stepE: "outside_step s t"
inductive_cases proc_stepE: "proc_step s t"

section \<open>The invariant\<close>

definition signal_logged :: "log_line list \<Rightarrow> bool" where
  "signal_logged log \<longleftrightarrow> (\<exists>a sig b. log = a @ signal_line sig # b)"

definition stop_logged :: "log_line list \<Rightarrow> bool" where
  "stop_logged log \<longleftrightarrow> (\<exists>a sig b c. log = a @ signal_line sig # b @ stopped_line # c)"

definition ends_with_error :: "log_line list \<Rightarrow> bool" where
  "ends_with_error log \<longleftrightarrow>
     (\<exists>pre l cause. log = pre @ [l] \<and> ll_level l = Level_Error \<and> Attr ''error'' (LErr cause) \<in> set (ll_attrs l))"

lemma logged_append:
  "signal_logged log \<Longrightarrow> signal_logged (log @ tail)" "stop_logged log \<Longrightarrow> stop_logged (log @ tail)"
  unfolding signal_logged_def stop_logged_def by (metis append.assoc append_Cons)+

lemma signal_logged_now: "signal_logged (log @ [signal_line sig])"
  unfolding signal_logged_def by blast

lemma stop_logged_now: "signal_logged log \<Longrightarrow> stop_logged (log @ [stopped_line])"
  unfolding signal_logged_def stop_logged_def by (metis append.assoc append_Cons)

lemma error_now: "ends_with_error (log @ [slog_error component msg (Some e)])"
  by (auto simp: ends_with_error_def slog_error_simps)

fun exit_inv :: "main_pc \<Rightarrow> process \<Rightarrow> bool" where
  "exit_inv Main_Serving s \<longleftrightarrow> \<not> ps_flushed s"
| "exit_inv Main_Returning s \<longleftrightarrow> ps_stopping s \<and> stop_logged (ps_log s) \<and> \<not> ps_flushed s"
| "exit_inv (Main_Exited code) s \<longleftrightarrow>
     (if code = 0 then ps_stopping s \<and> stop_logged (ps_log s) \<and> ps_flushed s
      else code = 1 \<and> \<not> ps_flushed s \<and> ends_with_error (ps_log s))"

definition process_inv :: "process \<Rightarrow> bool" where
  "process_inv s \<longleftrightarrow>
     exit_inv (ps_main s) s
     \<and> (ps_stopping s \<longleftrightarrow> (\<exists>d. ps_signal s = Sig_Draining d) \<or> ps_signal s = Sig_Done)
     \<and> (ps_signal s \<noteq> Sig_Waiting \<longrightarrow> ps_cancelled s \<and> signal_logged (ps_log s))
     \<and> chan_ok (ps_signals s) \<and> ch_cap (ps_signals s) = 1"

lemma process_inv_serving: "process_inv (serving now log)"
  by (simp add: process_inv_def serving_def) (simp add: make_chan_def)

lemma process_inv_launch:
  "process_inv (launch env g pem_ok jwks_url_of new_keys register trace_err metric_err w now)"
proof -
  obtain r w' where st: "start_proxy env g pem_ok jwks_url_of new_keys register trace_err metric_err w = (r, w')"
    by (cases "start_proxy env g pem_ok jwks_url_of new_keys register trace_err metric_err w")
  let ?log = "start_log env g pem_ok jwks_url_of new_keys register trace_err metric_err w"
  show ?thesis
  proof (cases r)
    case (Inl e)
    with st have "ends_with_error ?log"
      using failed_start_log [of env g pem_ok jwks_url_of new_keys register trace_err metric_err w e w']
      unfolding ends_with_error_def by blast
    with st Inl process_inv_serving [of now ?log] show ?thesis
      by (simp add: launch_def Let_def process_inv_def os_exit_def serving_def)
  next
    case (Inr px)
    with st process_inv_serving [of now ?log] show ?thesis by (simp add: launch_def Let_def)
  qed
qed

lemma alive_main: "alive s \<longleftrightarrow> ps_main s = Main_Serving \<or> ps_main s = Main_Returning"
  by (cases "ps_main s") (auto simp: alive_def)

lemma chan_recv_shape: "chan_recv ch = (Got x, ch') \<Longrightarrow> chan_ok ch \<Longrightarrow> chan_ok ch' \<and> ch_cap ch' = ch_cap ch"
  by (auto simp: chan_recv_def chan_ok_def split: list.splits if_splits)

lemma deliver_signal_shape:
  assumes "chan_ok (ps_signals s)"
  obtains ch where "deliver_signal sig s = s\<lparr>ps_signals := ch\<rparr>" "chan_ok ch" "ch_cap ch = ch_cap (ps_signals s)"
proof (cases rule: chan_try_send_cases [OF assms, of sig])
  case (1 ch')
  with that show ?thesis by (simp add: deliver_signal_def)
next
  case 2
  with that [of "ps_signals s"] assms show ?thesis by (simp add: deliver_signal_def)
qed

lemmas process_ops = log_line_out_def os_exit_def receive_signal_def begin_shutdown_def shutdown_returns_def
  serve_returns_def run_defers_def

lemma process_inv_outside:
  assumes "outside_step s t" "process_inv s"
  shows "process_inv t"
  using assms(1)
proof (cases rule: outside_step.cases)
  case (signal sig)
  from assms(2) have "chan_ok (ps_signals s)" by (simp add: process_inv_def)
  then obtain ch where "deliver_signal sig s = s\<lparr>ps_signals := ch\<rparr>" "chan_ok ch" "ch_cap ch = ch_cap (ps_signals s)"
    by (rule deliver_signal_shape)
  with signal assms(2) show ?thesis by (auto simp: process_inv_def alive_main)
qed (use assms(2) in \<open>auto simp: process_inv_def alive_main\<close>)

lemma process_inv_step:
  assumes "proc_step s t" "process_inv s"
  shows "process_inv t"
  using assms(1)
proof (cases rule: proc_step.cases)
  case (receive sig ch)
  from chan_recv_shape [OF receive(4)] assms(2) have "chan_ok ch" "ch_cap ch = 1" by (auto simp: process_inv_def)
  with receive assms(2) signal_logged_now show ?thesis
    by (auto simp: process_inv_def alive_main process_ops)
next
  case (shutdown)
  with assms(2) show ?thesis by (auto simp: process_inv_def alive_main process_ops)
next
  case (drained d err)
  with assms(2) logged_append show ?thesis
    by (auto simp: process_inv_def alive_main process_ops split: option.splits)
next
  case (timed_out d)
  with assms(2) logged_append show ?thesis by (auto simp: process_inv_def alive_main process_ops)
next
  case (server_failed e)
  with assms(2) logged_append error_now show ?thesis by (auto simp: process_inv_def process_ops)
next
  case (server_closed)
  with assms(2) logged_append stop_logged_now show ?thesis by (auto simp: process_inv_def process_ops)
next
  case (defers err)
  with assms(2) logged_append show ?thesis by (auto simp: process_inv_def process_ops split: option.splits)
qed (use assms(2) in \<open>auto simp: process_inv_def alive_main\<close>)

lemma lifecycle_inv:
  assumes "lifecycle start s" "process_inv start"
  shows "process_inv s"
  using assms(1)
  by (induction rule: lifecycle.induct) (use assms(2) process_inv_outside process_inv_step in blast)+

section \<open>What is left to do\<close>

text \<open>The work of a stopping process: the rest of \<open>main\<close>, of the signal goroutine and of every connection.\<close>

fun main_work :: "main_pc \<Rightarrow> nat" where
  "main_work Main_Serving = 2"
| "main_work Main_Returning = 1"
| "main_work (Main_Exited code) = 0"

fun signal_work :: "signal_pc \<Rightarrow> nat" where
  "signal_work (Sig_Draining d) = 1"
| "signal_work p = 0"

definition stop_work :: "process \<Rightarrow> nat" where
  "stop_work s = main_work (ps_main s) + signal_work (ps_signal s) + length (ps_busy s) + 2 * length (ps_idle s)"

lemma work_remove1: "c \<in> set cs \<Longrightarrow> length cs = Suc (length (remove1 c cs))"
  by (induction cs) auto

lemma stopping_process: "process_inv s \<Longrightarrow> ps_stopping s \<Longrightarrow> (\<exists>d. ps_signal s = Sig_Draining d) \<or> ps_signal s = Sig_Done"
  by (simp add: process_inv_def)

lemma stop_work_step:
  assumes "proc_step s t" "process_inv s" "ps_stopping s"
  shows "stop_work t < stop_work s"
  using assms(1) stopping_process [OF assms(2,3)] assms(3)
  by (cases rule: proc_step.cases)
    (auto simp: stop_work_def process_ops dest!: work_remove1 split: option.splits)

lemma stop_work_outside:
  assumes "outside_step s t" "process_inv s" "ps_stopping s"
  shows "stop_work t = stop_work s"
  using assms(1)
proof (cases rule: outside_step.cases)
  case (signal sig)
  from assms(2) have "chan_ok (ps_signals s)" by (simp add: process_inv_def)
  then show ?thesis
    by (rule deliver_signal_shape [of s sig]) (simp add: signal stop_work_def)
qed (use assms(3) in \<open>simp_all add: stop_work_def\<close>)

lemma stopping_kept:
  assumes "proc_step s t \<or> outside_step s t" "process_inv s" "ps_stopping s"
  shows "ps_stopping t"
  using assms(1)
proof
  assume "proc_step s t"
  then show ?thesis
    using assms(3) by (cases rule: proc_step.cases) (auto simp: process_ops split: option.splits)
next
  assume "outside_step s t"
  then show ?thesis
    using assms(3) by (cases rule: outside_step.cases) (auto simp: deliver_signal_def split: sum.splits)
qed

text \<open>The signal goroutine and \<open>main\<close> alone, from a waiting signal to the exit.\<close>

lemma run_receive:
  assumes "ps_main s = Main_Serving" "ps_signal s = Sig_Waiting" "ch_buf (ps_signals s) = sig # rest"
  shows "proc_step s (receive_signal sig (s\<lparr>ps_signals := (ps_signals s)\<lparr>ch_buf := rest\<rparr>\<rparr>))"
  using assms by (intro proc_step.receive) (simp_all add: alive_main chan_recv_def)

section \<open>A sample process\<close>

text \<open>One event stream is open when SIGTERM comes; a shutdown follows.\<close>

definition sample_process :: process where
  "sample_process = (serving 0 [])\<lparr>ps_busy := [1], ps_signals := (make_chan 1)\<lparr>ch_buf := [SIGTERM]\<rparr>\<rparr>"

definition sample_stopping :: process where
  "sample_stopping = begin_shutdown (receive_signal SIGTERM (sample_process\<lparr>ps_signals := make_chan 1\<rparr>))"

lemma sample_process_reached: "lifecycle (serving 0 []) sample_process"
proof -
  have "outside_step (serving 0 []) ((serving 0 [])\<lparr>ps_busy := [1]\<rparr>)"
    using outside_step.accept [of "serving 0 []" 1] by (simp add: serving_def)
  moreover have "outside_step ((serving 0 [])\<lparr>ps_busy := [1]\<rparr>) (deliver_signal SIGTERM ((serving 0 [])\<lparr>ps_busy := [1]\<rparr>))"
    by (rule outside_step.signal) (simp add: alive_main serving_def)
  moreover have "deliver_signal SIGTERM ((serving 0 [])\<lparr>ps_busy := [1]\<rparr>) = sample_process"
    by (simp add: deliver_signal_def serving_def sample_process_def chan_try_send_def make_chan_def)
  ultimately show ?thesis by (metis lifecycle.begins lifecycle.outside)
qed

lemma sample_pending:
  "ps_main sample_process = Main_Serving" "ps_signal sample_process = Sig_Waiting"
  "ch_buf (ps_signals sample_process) = [SIGTERM]"
  by (simp_all add: sample_process_def serving_def)

lemma sample_stopping_reached: "lifecycle (serving 0 []) sample_stopping"
proof -
  have "(ps_signals sample_process)\<lparr>ch_buf := []\<rparr> = make_chan 1" by (simp add: sample_process_def make_chan_def)
  with run_receive [OF sample_pending]
  have "proc_step sample_process (receive_signal SIGTERM (sample_process\<lparr>ps_signals := make_chan 1\<rparr>))" by simp
  moreover have "proc_step (receive_signal SIGTERM (sample_process\<lparr>ps_signals := make_chan 1\<rparr>)) sample_stopping"
    unfolding sample_stopping_def
    by (rule proc_step.shutdown) (simp_all add: alive_main process_ops sample_pending)
  ultimately show ?thesis by (meson lifecycle.inside sample_process_reached)
qed

section \<open>Properties of the lifecycle\<close>



text \<open>
  C39: once the server was told to stop the process cannot hang: whatever the connections do and whatever
  further signals come, until it has exited some goroutine can move, no step from outside adds work, a
  second signal or a new connection included, and each move leaves strictly less of it; the server
  stays told to stop, so every schedule that lets the process move ends in its exit.
\<close>

theorem shutdown_terminates:
  assumes "lifecycle (serving now log) s" "ps_stopping s"
  shows "((\<exists>code. ps_main s = Main_Exited code) \<or> (\<exists>t. proc_step s t))
     \<and> (\<forall>t. proc_step s t \<longrightarrow> stop_work t < stop_work s \<and> ps_stopping t)
     \<and> (\<forall>t. outside_step s t \<longrightarrow> stop_work t = stop_work s \<and> ps_stopping t)"
proof -
  have inv: "process_inv s" using assms(1) process_inv_serving by (rule lifecycle_inv)
  have "(\<exists>code. ps_main s = Main_Exited code) \<or> (\<exists>t. proc_step s t)"
    using assms(2) proc_step.server_closed proc_step.defers by (cases "ps_main s") blast+
  with stop_work_step stop_work_outside stopping_kept inv assms(2) show ?thesis by blast
qed

theorem shutdown_terminates_witness:
  "\<exists>t. proc_step sample_stopping t \<and> stop_work t < 4 \<and> ps_stopping t"
proof -
  have "ps_stopping sample_stopping" "ps_main sample_stopping = Main_Serving" "stop_work sample_stopping = 4"
    by (simp_all add: sample_stopping_def process_ops sample_process_def serving_def stop_work_def)
  with shutdown_terminates [OF sample_stopping_reached] show ?thesis by auto
qed

text \<open>
  C40: the shutdown does not wait for anybody: from any state in which \<open>main\<close> serves and a signal is
  pending, the process can exit with status 0 without a moment passing and with every request and
  every event stream still open, \<open>Shutdown\<close> still waiting with its ten seconds untouched, because
  \<open>main\<close> returns as soon as \<open>ListenAndServe\<close> does.
\<close>

theorem drain_not_awaited:
  assumes "ps_main s = Main_Serving" "ps_signal s = Sig_Waiting" "ch_buf (ps_signals s) = sig # rest"
  shows "\<exists>t. proc_step\<^sup>*\<^sup>* s t \<and> ps_main t = Main_Exited 0 \<and> ps_busy t = ps_busy s \<and> ps_clock t = ps_clock s
     \<and> ps_signal t = Sig_Draining (ps_clock s + shutdown_timeout)
     \<and> ps_log t = ps_log s @ [signal_line sig, stopped_line]"
proof -
  let ?a = "receive_signal sig (s\<lparr>ps_signals := (ps_signals s)\<lparr>ch_buf := rest\<rparr>\<rparr>)"
  let ?b = "begin_shutdown ?a"
  let ?c = "serve_returns None ?b"
  let ?d = "run_defers None ?c"
  have "proc_step s ?a" using assms by (rule run_receive)
  moreover have "proc_step ?a ?b" by (rule proc_step.shutdown) (simp_all add: alive_main process_ops assms(1))
  moreover have "proc_step ?b ?c" by (rule proc_step.server_closed) (simp_all add: process_ops assms(1))
  moreover have "proc_step ?c ?d" by (rule proc_step.defers) (simp add: process_ops)
  ultimately have "proc_step\<^sup>*\<^sup>* s ?d"
    by (rule converse_rtranclp_into_rtranclp [OF _ converse_rtranclp_into_rtranclp
          [OF _ converse_rtranclp_into_rtranclp [OF _ r_into_rtranclp]]])
  moreover have "ps_main ?d = Main_Exited 0" "ps_busy ?d = ps_busy s" "ps_clock ?d = ps_clock s"
      "ps_signal ?d = Sig_Draining (ps_clock s + shutdown_timeout)"
      "ps_log ?d = ps_log s @ [signal_line sig, stopped_line]"
    by (simp_all add: process_ops)
  ultimately show ?thesis by blast
qed

theorem drain_not_awaited_witness:
  "\<exists>t. lifecycle (serving 0 []) sample_process \<and> proc_step\<^sup>*\<^sup>* sample_process t
     \<and> ps_main t = Main_Exited 0 \<and> ps_busy t = [1] \<and> ps_clock t = 0"
proof -
  have "ps_busy sample_process = [1]" "ps_clock sample_process = 0" by (simp_all add: sample_process_def serving_def)
  with drain_not_awaited [OF sample_pending] sample_process_reached show ?thesis by auto
qed

end
