(* ===== verification/Service.thy ===== *)
theory Service
  imports End_To_End Lifecycle
begin

text \<open>
  What \<open>main\<close> serves: the router over the parts the start built, and what a caller of \<open>/events\<close> gets
  from a proxy started with scoping on, in terms of its environment variables.
\<close>

section \<open>What the server is wired to\<close>

text \<open>
  With tracing on the client that talks to ClickHouse sends its requests through \<open>otelhttp.NewTransport\<close>,
  a parameter; the scoper's client is its own.
\<close>

definition outbound_client ::
  "((out_request \<Rightarrow> 'w \<Rightarrow> out_reply result \<times> 'w) \<Rightarrow> out_request \<Rightarrow> 'w \<Rightarrow> out_reply result \<times> 'w)
     \<Rightarrow> telemetry \<Rightarrow> 'w env \<Rightarrow> 'w env" where
  "outbound_client transport t env =
     (if tracing_enabled t then env\<lparr>env_http := transport (env_http env)\<rparr> else env)"

definition main_handler ::
  "('k, 'w proxy_state) auth_lib \<Rightarrow> ('w proxy_state handler \<Rightarrow> 'w proxy_state handler)
     \<Rightarrow> ((out_request \<Rightarrow> 'w \<Rightarrow> out_reply result \<times> 'w) \<Rightarrow> out_request \<Rightarrow> 'w \<Rightarrow> out_reply result \<times> 'w)
     \<Rightarrow> 'w env \<Rightarrow> (string list \<Rightarrow> string list) \<Rightarrow> cid \<Rightarrow> stream_event list \<Rightarrow> 'k proxy \<Rightarrow> 'w proxy_state handler" where
  "main_handler lib otel transport env sched c es px =
     server_handler otel (px_telemetry px)
       (new_router lib (px_auth px) c es
          \<lparr>dp_env = env, dp_client = outbound_client transport (px_telemetry px) env, dp_sched = sched,
           dp_cfg = px_config px\<rparr>
          (px_scoper px) (px_audit_scoper px))"

lemma outbound_client_same: "\<forall>send. transport send = send \<Longrightarrow> outbound_client transport t env = env"
  by (simp add: outbound_client_def)

section \<open>The scoper of a started proxy\<close>

text \<open>The check an environment asks for.\<close>

definition asks_rule :: "environ \<Rightarrow> rbac_scoper \<Rightarrow> bool" where
  "asks_rule g s \<longleftrightarrow> rs_verb s = get_env g ''RBAC_SCOPING_VERB'' ''list''
     \<and> rs_api_group s = get_env g ''RBAC_SCOPING_APIGROUP'' []
     \<and> rs_resource s = get_env g ''RBAC_SCOPING_RESOURCE'' ''events''"

lemma load_rbac_scoper_rule:
  assumes "load_rbac_scoper env g pem_ok [] w = (Inr (Some r), h, w')"
  shows "r = 0 \<and> length h = 1 \<and> asks_rule g (h ! 0) \<and> rs_cache (h ! 0) = (\<lambda>_. None)"
  using assms by (auto simp: load_rbac_scoper_def asks_rule_def split: if_splits prod.splits sum.splits)

lemma started_scoper:
  assumes "start_proxy env g pem_ok jwks_url_of new_keys register trace_err metric_err w = (Inr (px, h), w')"
    and "equal_fold (get_env g ''RBAC_SCOPING_ENABLED'' ''false'') ''true''"
  shows "px_scoper px = Some 0 \<and> asks_rule g (h ! 0) \<and> rs_cache (h ! 0) = (\<lambda>_. None)"
proof -
  from start_proxy_parts [OF assms(1)] obtain auth h0 w1 where p:
    "load_rbac_scoper env g pem_ok [] w = (Inr (px_scoper px), h0, w1)"
    "load_audit_scoper g (px_scoper px) h0 = (px_audit_scoper px, h)" by blast
  from load_rbac_scoper_enabled(1) [OF p(1)] assms(2) obtain r where r: "px_scoper px = Some r" by auto
  have s: "r = 0 \<and> length h0 = 1 \<and> asks_rule g (h0 ! 0) \<and> rs_cache (h0 ! 0) = (\<lambda>_. None)"
    using p(1) unfolding r by (rule load_rbac_scoper_rule)
  moreover have "h ! 0 = h0 ! 0"
    using p(2) r s by (auto simp: load_audit_scoper_def Let_def nth_append split: if_splits)
  ultimately show ?thesis using r by simp
qed

text \<open>The check of the audit trail: every audit variable that is not set inherits the events rule.\<close>

definition asks_audit_rule :: "environ \<Rightarrow> rbac_scoper \<Rightarrow> bool" where
  "asks_audit_rule g s \<longleftrightarrow>
     rs_verb s = get_env g ''AUDIT_SCOPING_VERB'' (get_env g ''RBAC_SCOPING_VERB'' ''list'')
     \<and> rs_api_group s = get_env g ''AUDIT_SCOPING_APIGROUP'' (get_env g ''RBAC_SCOPING_APIGROUP'' [])
     \<and> rs_resource s = get_env g ''AUDIT_SCOPING_RESOURCE'' (get_env g ''RBAC_SCOPING_RESOURCE'' ''events'')"

lemma started_audit_scoper:
  assumes "start_proxy env g pem_ok jwks_url_of new_keys register trace_err metric_err w = (Inr (px, h), w')"
    and "px_audit_scoper px = Some ref"
  shows "asks_audit_rule g (h ! ref) \<and> rs_cache (h ! ref) = (\<lambda>_. None)"
proof -
  from start_proxy_parts [OF assms(1)] obtain auth h0 w1 where p:
    "load_rbac_scoper env g pem_ok [] w = (Inr (px_scoper px), h0, w1)"
    "load_audit_scoper g (px_scoper px) h0 = (px_audit_scoper px, h)" by blast
  from load_audit_scoper_None [OF p(2)] assms(2) obtain r where r: "px_scoper px = Some r" by auto
  have e: "r = 0" "length h0 = 1" "asks_rule g (h0 ! 0)" "rs_cache (h0 ! 0) = (\<lambda>_. None)"
    using load_rbac_scoper_rule [OF p(1) [unfolded r]] by simp_all
  let ?unset = "g ''AUDIT_SCOPING_VERB'' = [] \<and> g ''AUDIT_SCOPING_RESOURCE'' = [] \<and> g ''AUDIT_SCOPING_APIGROUP'' = []"
  show ?thesis
  proof (cases ?unset)
    case True
    with p(2) r assms(2) have "ref = r" "h = h0" by (simp_all add: load_audit_scoper_def Let_def)
    with e True show ?thesis by (simp add: asks_audit_rule_def asks_rule_def)
  next
    case False
    then have "\<not> (get_env g ''AUDIT_SCOPING_VERB'' [] = [] \<and> get_env g ''AUDIT_SCOPING_RESOURCE'' [] = []
        \<and> get_env g ''AUDIT_SCOPING_APIGROUP'' [] = [])" by (auto simp: get_env_def)
    with p(2) r assms(2) e(1,2) have "h ! ref = \<lparr>rs_kube = rs_kube (h0 ! 0),
        rs_verb = get_env g ''AUDIT_SCOPING_VERB'' (rs_verb (h0 ! 0)),
        rs_api_group = get_env g ''AUDIT_SCOPING_APIGROUP'' (rs_api_group (h0 ! 0)),
        rs_resource = get_env g ''AUDIT_SCOPING_RESOURCE'' (rs_resource (h0 ! 0)),
        rs_ttl = rs_ttl (h0 ! 0), rs_cache = (\<lambda>_. None)\<rparr>"
      by (simp only: load_audit_scoper_def Let_def option.case if_False prod.inject option.inject)
        (auto simp: get_env_def nth_append)
    with e(3) show ?thesis by (simp add: asks_audit_rule_def asks_rule_def)
  qed
qed

section \<open>A sample cluster\<close>

text \<open>
  One environment for both servers: a request with credentials goes to a ClickHouse that honours the
  namespace parameter over one row, any other to the API server of the samples.
\<close>

definition sample_served :: "out_request \<Rightarrow> ch_row list" where
  "sample_served rq = filter (\<lambda>row. obj_namespace row \<in> set (read_array_literal (request_param ''namespaces'' rq)))
     [sample_row\<lparr>obj_namespace := ''team-a''\<rparr>]"

definition sample_cluster :: "time env" where
  "sample_cluster = sample_api\<lparr>env_http := (\<lambda>rq w.
     if or_basic_auth rq = None then env_http sample_api rq w else (Inr (rows_reply (sample_served rq)), w))\<rparr>"

lemma cluster_kube: "kube_do sample_cluster k m p b w = kube_do sample_api k m p b w"
proof -
  have x: "kube_exchange sample_cluster m p (kube_request k m p b auth) w
      = kube_exchange sample_api m p (kube_request k m p b auth) w" for auth w
    by (simp add: kube_exchange_def kube_request_def sample_cluster_def)
  have f: "env_read_file sample_cluster = env_read_file sample_api" by (simp add: sample_cluster_def)
  show ?thesis by (simp only: kube_do_def x f)
qed

lemma cluster_resolve:
  "resolve sample_cluster id sample_scoper sample_user w
     = Some (Inr \<lparr>allow_all = False, namespaces = [''team-a'']\<rparr>, w)"
proof -
  have r: "review sample_cluster sample_scoper sample_user ns w = (sample_review ns, w)" for ns w
    using sample_review_step [of ns w] by (simp add: review_def subject_access_review_def cluster_kube)
  have "fetch_page sample_cluster k cont w = fetch_page sample_api k cont w" for k cont w
    by (simp add: fetch_page_def cluster_kube)
  moreover obtain x where "parse_url (kc_base_url sample_kube @ page_path []) = Inr x" using sample_kube_urls by blast
  then have "fetch_page sample_api sample_kube [] w = (Inr \<lparr>pg_continue = [], pg_items = [''team-b'', ''team-a'']\<rparr>, w)"
    using decode_page_json [of "\<lparr>pg_continue = [], pg_items = [''team-b'', ''team-a'']\<rparr>"] sample_utf8
    by (simp add: fetch_page_def kube_do_def kube_exchange_def kube_request_def sample_api_def api_server_def
        valid_utf8_def) (simp add: sample_kube_def)
  ultimately have "list_namespaces sample_cluster (rs_kube sample_scoper) w = Some (Inr [''team-b'', ''team-a''], w)"
    by (simp add: list_namespaces_def list_pages.simps sample_scoper_def)
  then show ?thesis
    by (simp add: resolve_def r sample_review_values record_review_def finish_reviews_def)
qed

lemma cluster_exchange:
  "clickhouse_exchange sample_cluster sample_config q params w
     = (Inr (rows_body (sample_served (clickhouse_request sample_config (bound_url sample_config params) q))), w)"
  using clickhouse_endpoint_plain [OF sample_plain, of params]
  by (simp add: clickhouse_exchange_def sample_cluster_def rows_reply_def clickhouse_request_def)
    (simp add: sample_config_def)

lemma cluster_query:
  "query_clickhouse sample_cluster sample_config q params w
     = (Inr (sample_served (clickhouse_request sample_config (bound_url sample_config params) q)), w)"
proof -
  have "\<forall>row \<in> set (sample_served rq). wire_row row" for rq
    using sample_row_wire sample_utf8(5) by (simp add: sample_served_def wire_row_def)
  then show ?thesis
    by (simp add: query_clickhouse_def cluster_exchange decode_rows_body)
qed

definition cluster_deps :: "time deps" where
  "cluster_deps = \<lparr>dp_env = sample_cluster, dp_client = sample_cluster, dp_sched = id, dp_cfg = sample_config\<rparr>"

lemma cluster_honours: "honours_events (dp_client cluster_deps) (dp_cfg cluster_deps)"
  by (auto simp: honours_events_def cluster_deps_def cluster_query arrived_namespaces_def sample_served_def)

lemma cluster_windowed:
  assumes "events_request_ok q scope"
  shows "\<exists>rows. query_events_windowed sample_cluster sample_config q scope now w = (Inr rows, w)"
  using build_events_result [OF assms]
  by (simp add: query_events_windowed_def events_windows_def cluster_query split: prod.split)

definition cluster_request :: http_request where
  "cluster_request = sample_request []"

lemma cluster_answered:
  "\<exists>w' s'. new_router (sample_lib ''good'' sample_user) a 7 [] cluster_deps (Some 0) audit_scoper
     cluster_request (new_writer True) (([sample_scoper], 0), new_hub) = Some (w', s') \<and> status_of w' = Some 200"
proof -
  let ?sc = "\<lparr>allow_all = False, namespaces = [''team-a'']\<rparr>"
  let ?w = "header_set ''Access-Control-Allow-Origin'' ''*'' (new_writer True)"
  let ?r = "cluster_request\<lparr>rq_pattern := ''/events'', rq_user := Some sample_user\<rparr>"
  have t: "query_token_param cluster_request = []" "token_from_request a cluster_request = Some ''good''"
    by (rule sample_token; simp add: cluster_request_def sample_request_def)+
  have f: "scope_for sample_cluster id 0 sample_user [sample_scoper] 0
      = Some (Inr ?sc, cache_store 0 (cache_key sample_user) ?sc 0 [sample_scoper], 0)"
    using cluster_resolve [of 0]
    by (simp add: scope_for_def Let_def sample_cluster_def sample_api_def api_server_def cache_lookup_def sample_scoper_def)
  have q: "url_query ?r = []"
    by (simp add: cluster_request_def sample_request_def url_query_def)
  have ok: "events_request_ok [] (Some ?sc)"
    by (simp add: events_request_ok_def values_get_def dns_label_def label_edge_def label_inner_def is_lower_def
        is_digit_def byte_def)
  obtain b where b: "build_events_query [] (Some ?sc) = Inr b"
    using build_events_result [OF ok, of 0] by (auto simp: build_events_query_def)
  obtain rows where rows: "query_events_windowed sample_cluster sample_config [] (Some ?sc) 0 0 = (Inr rows, 0)"
    using cluster_windowed [OF ok] by blast
  have fl: "rw_sent ?w = None" by (simp add: http_simps new_writer_def)
  have now: "env_now sample_cluster w = (w, w)" for w by (simp add: sample_cluster_def sample_api_def api_server_def)
  obtain st where h: "handle_events cluster_deps (Some 0) ?r ?w ([sample_scoper], 0)
      = Some (json_reply (events_body rows) ?w, st)"
    using f b rows q now by (simp add: handle_events_def resolve_request_scope_def cluster_deps_def cluster_request_def)
  have "new_router (sample_lib ''good'' sample_user) a 7 [] cluster_deps (Some 0) audit_scoper
     cluster_request (new_writer True) (([sample_scoper], 0), new_hub) = Some (json_reply (events_body rows) ?w, (st, new_hub))"
    using t h by (simp add: new_router_def with_cors_def Let_def serve_mux_def match_route_def proxy_endpoints_def
        require_bearer_def pattern_kept_token sample_lib_def with_user_info_def clean_path_def on_state_def)
      (simp add: cluster_request_def sample_request_def clean_path_def)
  moreover have "status_of (json_reply (events_body rows) ?w) = Some 200"
    using fl by (simp add: json_reply_def status_of_def http_simps)
  ultimately show ?thesis by blast
qed

lemma cluster_audit_answered:
  "\<exists>w' s'. new_router (sample_lib ''good'' sample_user) a 7 [] cluster_deps scoper (Some 0)
     (cluster_request\<lparr>rq_path := ''/audit''\<rparr>) (new_writer True) (([sample_scoper], 0), new_hub) = Some (w', s')
     \<and> status_of w' = Some 200"
proof -
  let ?sc = "\<lparr>allow_all = False, namespaces = [''team-a'']\<rparr>"
  let ?w = "header_set ''Access-Control-Allow-Origin'' ''*'' (new_writer True)"
  let ?q = "cluster_request\<lparr>rq_path := ''/audit''\<rparr>"
  let ?r = "?q\<lparr>rq_pattern := ''/audit'', rq_user := Some sample_user\<rparr>"
  let ?v = "announce_scope (Some ?sc) (header_set ''Content-Type'' ''application/json'' ?w)"
  have t: "query_token_param (?q\<lparr>rq_pattern := ''/audit''\<rparr>) = []"
      "token_from_request a (?q\<lparr>rq_pattern := ''/audit''\<rparr>) = Some ''good''"
    by (rule sample_token; simp add: cluster_request_def sample_request_def)+
  have f: "scope_for sample_cluster id 0 sample_user [sample_scoper] 0
      = Some (Inr ?sc, cache_store 0 (cache_key sample_user) ?sc 0 [sample_scoper], 0)"
    using cluster_resolve [of 0]
    by (simp add: scope_for_def Let_def sample_cluster_def sample_api_def api_server_def cache_lookup_def sample_scoper_def)
  have "\<forall>ns \<in> set (scope_list (Some ?sc)). dns_label ns"
    by (simp add: scope_list_def dns_label_def label_edge_def label_inner_def is_lower_def is_digit_def byte_def)
  then obtain sql ps where b: "build_audit_query [] (Some ?sc) 0 = Inr (sql, ps)"
    using build_audit_result [of "Some ?sc" "[]" 0] by (auto simp: restricted_def)
  obtain rows where rows: "query_audit_records sample_cluster sample_config sql ps 0 = (Inr rows, 0)"
    by (simp add: query_audit_records_def cluster_exchange)
  have "url_query ?r = []" by (simp add: cluster_request_def sample_request_def url_query_def)
  with f b rows have h: "\<exists>st. handle_audit cluster_deps (Some 0) ?r ?w ([sample_scoper], 0)
      = Some (write_body (audit_body rows) ?v, st)"
    by (simp add: handle_audit_def resolve_request_scope_def cluster_deps_def cluster_request_def Let_def scope_list_def)
  then obtain st where h: "handle_audit cluster_deps (Some 0) ?r ?w ([sample_scoper], 0)
      = Some (write_body (audit_body rows) ?v, st)" by blast
  have p: "rq_path ?q = ''/audit''" "clean_path ''/audit'' = ''/audit''"
      "match_route ''/audit'' = Some (''/audit'', Audit_Route)"
    by (simp_all add: clean_path_def match_route_def)
  have g: "rq_method ?q = ''GET''" by (simp add: cluster_request_def sample_request_def)
  have "new_router (sample_lib ''good'' sample_user) a 7 [] cluster_deps scoper (Some 0)
     ?q (new_writer True) (([sample_scoper], 0), new_hub) = Some (write_body (audit_body rows) ?v, (st, new_hub))"
    by (simp add: new_router_def with_cors_def Let_def g serve_mux_def p proxy_endpoints_def
        require_bearer_def t sample_lib_def with_user_info_def on_state_def h)
  moreover have "rw_sent ?v = None" by (simp add: announce_scope_simps http_simps new_writer_def)
  then have "status_of (write_body (audit_body rows) ?v) = Some 200" by (simp add: status_of_def http_simps)
  ultimately show ?thesis by blast
qed

section \<open>A sample service\<close>

text \<open>Started against the sample cluster, the proxy has the configuration and the scoper of the samples.\<close>

definition cluster_environ :: environ where
  "cluster_environ = sample_environ(''CLICKHOUSE_URL'' := ''http://ch:8123'')"

lemma cluster_scoping_on: "equal_fold (get_env cluster_environ ''RBAC_SCOPING_ENABLED'' ''false'') ''true''"
  using sample_scoping_on by (simp add: cluster_environ_def get_env_def cong: if_cong)

lemma cluster_start:
  obtains px w' where "start_proxy sample_cluster cluster_environ (\<lambda>_. True) (\<lambda>b. b) (\<lambda>u a b c. ()) (\<lambda>_. None)
     None None 0 = (Inr (px, [sample_scoper]), w')" "px_scoper px = Some 0" "px_audit_scoper px = Some 0"
     "px_config px = sample_config"
proof -
  have "trim_space default_url_authn \<noteq> []"
    by (simp add: default_url_authn_def trim_space_def ascii_space_def space2_def space3_def byte_def)
  then obtain auth where a: "load_auth_config (\<lambda>b. b) (\<lambda>u a b c. ()) cluster_environ = Inr auth"
    by (simp add: load_auth_config_def Let_def cluster_environ_def sample_environ_def trim_space_def)
  have k: "trim_right_char CHR ''/'' ''http://k8s/'' = ''http://k8s''" by (simp add: trim_right_char_def)
  have s: "load_rbac_scoper sample_cluster cluster_environ (\<lambda>_. True) [] 0 = (Inr (Some 0), [sample_scoper], 0)"
    using cluster_scoping_on
    by (simp add: load_rbac_scoper_def new_in_cluster_kube_client_def Let_def)
      (simp add: cluster_environ_def sample_environ_def scoping_ttl_def default_scoping_cache_ttl_def
        sample_scoper_def sample_kube_def k get_env_def)
  have au: "load_audit_scoper cluster_environ (Some 0) [sample_scoper] = (Some 0, [sample_scoper])"
    by (simp add: load_audit_scoper_def Let_def cluster_environ_def sample_environ_def get_env_def)
  have c: "load_config cluster_environ = sample_config"
    by (simp add: load_config_def cluster_environ_def sample_environ_def sample_config_def get_env_def)
  have "\<exists>px w'. start_proxy sample_cluster cluster_environ (\<lambda>_. True) (\<lambda>b. b) (\<lambda>u a b c. ()) (\<lambda>_. None) None None 0
       = (Inr (px, [sample_scoper]), w') \<and> px_scoper px = Some 0 \<and> px_audit_scoper px = Some 0
       \<and> px_config px = sample_config"
    using a s au c by (simp add: start_proxy_def Let_def split: prod.split)
  with that show ?thesis by blast
qed

section \<open>Properties of the service\<close>





end
