(* ===== verification/Proxy_System.thy ===== *)
theory Proxy_System
  imports End_To_End Hub_Refinement Poller
begin

text \<open>
  The whole proxy at work with scoping on: any number of requests, each with its check of the token
  and its call of \<open>scopeFor\<close>, the streams that come out of them, and the poller, interleaved at the
  grain of the locks. Its two shared data structures are the ones of \<open>Scope_Cache\<close> and \<open>Hub_System\<close>,
  and each run of the proxy is a run of both.
\<close>

section \<open>Requests and the poller\<close>

text \<open>A request that was let through: what it asked for, the token it carried and whose that is.\<close>

record ticket =
  tk_request :: http_request
  tk_token :: string
  tk_user :: user_info

definition stream_topic :: "http_request \<Rightarrow> string" where
  "stream_topic r = values_get ''composition_id'' (url_query r)"

text \<open>
  Where the poller's goroutine is: waiting for a tick, in the query, or in the loop of broadcasts with
  the messages still to send, the rows it read and its two counts.
\<close>

datatype poll_pc = Between_Ticks | Querying | Broadcasting "sse_message list" "ch_row list" int int

text \<open>What follows the loop: the cursor and the counters.\<close>

definition poll_finish :: "ch_row list \<Rightarrow> int \<Rightarrow> int \<Rightarrow> poller \<Rightarrow> poller" where
  "poll_finish rows delivered dropped p =
     (let max_ts = foldl max (last_seen p) (map ts_unix rows);
          p' = (if max_ts > last_seen p then p\<lparr>last_seen := max_ts\<rparr> else p)
      in if length rows > 0
         then p'\<lparr>po_metrics := add_events_dropped dropped (add_events_delivered delivered (po_metrics p'))\<rparr>
         else p')"

text \<open>
  Requests, calls of \<open>scopeFor\<close> and connections share their numbers. \<open>xs_rows\<close> records the rows the
  poller has read.
\<close>

record 'w proxy_system =
  xs_cache :: "'w cache_system"
  xs_hub :: hub_system
  xs_tickets :: "nat \<Rightarrow> ticket option"
  xs_poller :: poller
  xs_pc :: poll_pc
  xs_rows :: "ch_row list"

definition proxy_start :: "rbac_scoper \<Rightarrow> poller \<Rightarrow> 'w \<Rightarrow> 'w proxy_system" where
  "proxy_start s0 p w =
     \<lparr>xs_cache = cache_start s0 w, xs_hub = hub_start, xs_tickets = (\<lambda>_. None), xs_poller = p,
      xs_pc = Between_Ticks, xs_rows = []\<rparr>"

section \<open>Steps\<close>

text \<open>
  \<open>env\<close> is the environment as the scoper reaches it, \<open>client\<close> as the poller does; \<open>lib\<close> and \<open>a\<close> check
  tokens. A request starts its call of \<open>scopeFor\<close> when the bearer wrapper has let it through; a call
  does what \<open>Scope_Cache\<close> says; a stream opens when its call was answered. The requests that query
  ClickHouse do nothing more to the shared state: what they do to the world is a step of the cache
  system, as is every other change outside.
\<close>

inductive proxy_step ::
  "'w env \<Rightarrow> 'w env \<Rightarrow> ('k, 'w) auth_lib \<Rightarrow> 'k auth_config \<Rightarrow> 'w proxy_system \<Rightarrow> 'w proxy_system \<Rightarrow> bool"
  for env :: "'w env" and client :: "'w env" and lib :: "('k, 'w) auth_lib" and a :: "'k auth_config" where
  admit: "xs_tickets s i = None \<Longrightarrow> query_token_param r = [] \<Longrightarrow> token_from_request a r = Some token \<Longrightarrow>
     al_verify lib (ac_keys a) token (cs_world (xs_cache s)) = (Inr u, w) \<Longrightarrow>
     proxy_step env client lib a s
       (s\<lparr>xs_tickets := (xs_tickets s)(i \<mapsto> \<lparr>tk_request = r, tk_token = token, tk_user = u\<rparr>),
          xs_cache := (xs_cache s)\<lparr>cs_world := w, cs_calls := (cs_calls (xs_cache s))(i \<mapsto> Asked u)\<rparr>\<rparr>)"
| scoping: "cache_step env (xs_cache s) cs \<Longrightarrow>
     \<forall>i. cs_calls (xs_cache s) i = None \<longrightarrow> cs_calls cs i = None \<Longrightarrow>
     proxy_step env client lib a s (s\<lparr>xs_cache := cs\<rparr>)"
| open_stream: "xs_tickets s c = Some t \<Longrightarrow> cs_calls (xs_cache s) c = Some (Answered u now scope) \<Longrightarrow>
     hs_phase (xs_hub s) c = Fresh \<Longrightarrow>
     proxy_step env client lib a s (s\<lparr>xs_hub := (xs_hub s)\<lparr>
        hs_hub := hub_register c (alloc_client c (new_client (stream_topic (tk_request t)) (Some scope)) (hs_hub (xs_hub s))),
        hs_phase := (hs_phase (xs_hub s))(c := Streaming)\<rparr>\<rparr>)"
| deliver: "hs_phase (xs_hub s) c = Streaming \<Longrightarrow> client_recv c (hs_hub (xs_hub s)) = (Got m, h) \<Longrightarrow>
     proxy_step env client lib a s (s\<lparr>xs_hub := (xs_hub s)\<lparr>
        hs_hub := h, hs_out := (hs_out (xs_hub s))(c := hs_out (xs_hub s) c @ [m])\<rparr>\<rparr>)"
| close_stream: "hs_phase (xs_hub s) c = Streaming \<Longrightarrow> hub_unregister c (hs_hub (xs_hub s)) = Inr h \<Longrightarrow>
     proxy_step env client lib a s (s\<lparr>xs_hub := (xs_hub s)\<lparr>
        hs_hub := h, hs_phase := (hs_phase (xs_hub s))(c := Ended)\<rparr>\<rparr>)"
| idle_tick: "xs_pc s = Between_Ticks \<Longrightarrow> hub_count (hs_hub (xs_hub s)) = 0 \<Longrightarrow>
     proxy_step env client lib a s (s\<lparr>xs_poller :=
        (if live_cursor now > last_seen (xs_poller s) then (xs_poller s)\<lparr>last_seen := live_cursor now\<rparr> else xs_poller s)\<rparr>)"
| poll_tick: "xs_pc s = Between_Ticks \<Longrightarrow> hub_count (hs_hub (xs_hub s)) \<noteq> 0 \<Longrightarrow>
     proxy_step env client lib a s (s\<lparr>xs_pc := Querying\<rparr>)"
| fetched: "xs_pc s = Querying \<Longrightarrow>
     query_clickhouse client (po_cfg (xs_poller s)) (poll_query (last_seen (xs_poller s))) [] (cs_world (xs_cache s))
       = (Inr rows, w) \<Longrightarrow>
     proxy_step env client lib a s (s\<lparr>xs_cache := (xs_cache s)\<lparr>cs_world := w\<rparr>,
        xs_pc := Broadcasting (poll_messages rows) rows 0 0, xs_rows := xs_rows s @ rows\<rparr>)"
| not_fetched: "xs_pc s = Querying \<Longrightarrow>
     query_clickhouse client (po_cfg (xs_poller s)) (poll_query (last_seen (xs_poller s))) [] (cs_world (xs_cache s))
       = (Inl e, w) \<Longrightarrow>
     proxy_step env client lib a s (s\<lparr>xs_cache := (xs_cache s)\<lparr>cs_world := w\<rparr>, xs_pc := Between_Ticks,
        xs_poller := (xs_poller s)\<lparr>po_metrics := inc_poll_error (po_metrics (xs_poller s))\<rparr>\<rparr>)"
| publish: "xs_pc s = Broadcasting (m # ms) rows delivered dropped \<Longrightarrow>
     broadcast m (hs_hub (xs_hub s)) = Inr (h, n, d) \<Longrightarrow>
     proxy_step env client lib a s (s\<lparr>xs_hub := (record_publish m (xs_hub s))\<lparr>hs_hub := h\<rparr>,
        xs_pc := Broadcasting ms rows (i64 (delivered + n)) (i64 (dropped + d))\<rparr>)"
| polled_all: "xs_pc s = Broadcasting [] rows delivered dropped \<Longrightarrow>
     proxy_step env client lib a s (s\<lparr>xs_pc := Between_Ticks,
        xs_poller := poll_finish rows delivered dropped (xs_poller s)\<rparr>)"

inductive_cases proxy_stepE: "proxy_step env client lib a s t"

definition proxy_run ::
  "'w env \<Rightarrow> 'w env \<Rightarrow> ('k, 'w) auth_lib \<Rightarrow> 'k auth_config \<Rightarrow> 'w proxy_system \<Rightarrow> 'w proxy_system \<Rightarrow> bool" where
  "proxy_run env client lib a = (proxy_step env client lib a)\<^sup>*\<^sup>*"

section \<open>The two parts\<close>

text \<open>Each step of the proxy is a run of the cache system and at most one step of the hub system.\<close>

lemma step_cache:
  assumes "proxy_step env client lib a s t"
    and "\<forall>i. cs_calls (xs_cache s) i \<noteq> None \<longrightarrow> xs_tickets s i \<noteq> None"
  shows "cache_run env (xs_cache s) (xs_cache t)"
  using assms(1)
proof (cases rule: proxy_step.cases)
  case (admit i r token u w)
  let ?c = "xs_cache s"
  have "cs_calls ?c i = None" using assms(2) admit(2) by blast
  then have "cache_step env (?c\<lparr>cs_world := w\<rparr>)
      ((?c\<lparr>cs_world := w\<rparr>)\<lparr>cs_calls := (cs_calls (?c\<lparr>cs_world := w\<rparr>))(i \<mapsto> Asked u)\<rparr>)"
    by (intro cache_step.arrive) simp
  with cache_step.outside [of env ?c w] have "cache_run env ?c
      ((?c\<lparr>cs_world := w\<rparr>)\<lparr>cs_calls := (cs_calls (?c\<lparr>cs_world := w\<rparr>))(i \<mapsto> Asked u)\<rparr>)"
    unfolding cache_run_def by (meson converse_rtranclp_into_rtranclp r_into_rtranclp)
  with admit(1) show ?thesis by simp
next
  case (scoping cs)
  then show ?thesis by (simp add: cache_run_def)
next
  case (fetched rows w)
  then show ?thesis using cache_step.outside [of env "xs_cache s" w] by (simp add: cache_run_def)
next
  case (not_fetched e w)
  then show ?thesis using cache_step.outside [of env "xs_cache s" w] by (simp add: cache_run_def)
qed (simp_all add: cache_run_def)

lemma step_hub:
  assumes "proxy_step env client lib a s t"
  shows "xs_hub t = xs_hub s \<or> hub_step (xs_hub s) (xs_hub t)"
  using assms by (cases rule: proxy_step.cases) (auto intro: hub_step.intros)

section \<open>The invariant\<close>

fun call_user :: "call \<Rightarrow> user_info option" where
  "call_user (Asked u) = Some u"
| "call_user (Resolving u now) = Some u"
| "call_user (Storing u now scope) = Some u"
| "call_user (Answered u now scope) = Some u"
| "call_user (Failed e) = None"

lemma cache_step_user:
  assumes "cache_step env s t" "cs_calls t i = Some k" "cs_calls s i \<noteq> None"
  shows "\<exists>k'. cs_calls s i = Some k' \<and> (\<forall>u. call_user k = Some u \<longrightarrow> call_user k' = Some u)"
  using assms by (cases rule: cache_step.cases) (auto split: if_splits)

text \<open>What a connection subscribed to; nothing changes it.\<close>

definition subscribed :: "cid \<Rightarrow> hub \<Rightarrow> (string \<times> ns_scope option) option" where
  "subscribed c h = map_option (\<lambda>cl. (cl_topic cl, cl_scope cl)) (hub_store h c)"

lemma subscribed_recv: "client_recv c h = (r, h') \<Longrightarrow> subscribed d h' = subscribed d h"
  by (auto simp: client_recv_def subscribed_def split: option.splits prod.splits)

lemma subscribed_unregister: "hub_unregister c h = Inr h' \<Longrightarrow> subscribed d h' = subscribed d h"
  by (auto simp: hub_unregister_def subscribed_def Let_def split: option.splits sum.splits)

lemma subscribed_broadcast:
  assumes "hub_inv h" "broadcast m h = Inr (h', n, x)"
  shows "subscribed d h' = subscribed d h"
proof -
  have "h' = after_message m h" using broadcast_result [OF assms(1), of m] assms(2) by simp
  then show ?thesis by (cases "hub_store h d") (auto simp: subscribed_def receive_def)
qed

definition ticket_ok :: "('k, 'w) auth_lib \<Rightarrow> 'k auth_config \<Rightarrow> ticket \<Rightarrow> bool" where
  "ticket_ok lib a t \<longleftrightarrow> query_token_param (tk_request t) = [] \<and> token_from_request a (tk_request t) = Some (tk_token t)
     \<and> (\<exists>w w'. al_verify lib (ac_keys a) (tk_token t) w = (Inr (tk_user t), w'))"

definition tickets_ok :: "('k, 'w) auth_lib \<Rightarrow> 'k auth_config \<Rightarrow> 'w proxy_system \<Rightarrow> bool" where
  "tickets_ok lib a s \<longleftrightarrow> (\<forall>i t. xs_tickets s i = Some t \<longrightarrow> ticket_ok lib a t)
     \<and> (\<forall>i k. cs_calls (xs_cache s) i = Some k \<longrightarrow>
          (\<exists>t. xs_tickets s i = Some t \<and> (\<forall>u. call_user k = Some u \<longrightarrow> tk_user t = u)))"

definition streams_ok :: "'w env \<Rightarrow> rbac_scoper \<Rightarrow> 'w proxy_system \<Rightarrow> bool" where
  "streams_ok env s0 s \<longleftrightarrow> (\<forall>c. hs_phase (xs_hub s) c \<noteq> Fresh \<longrightarrow> (\<exists>t scope v. xs_tickets s c = Some t
     \<and> subscribed c (hs_hub (xs_hub s)) = Some (stream_topic (tk_request t), Some scope)
     \<and> cache_key v = cache_key (tk_user t) \<and> resolved_scope env s0 v scope))"

definition published_ok :: "'w proxy_system \<Rightarrow> bool" where
  "published_ok s \<longleftrightarrow> (\<forall>c. set (hs_published (xs_hub s) c) \<subseteq> set (poll_messages (xs_rows s)))
     \<and> (\<forall>ms rows n d. xs_pc s = Broadcasting ms rows n d \<longrightarrow> set ms \<subseteq> set (poll_messages (xs_rows s)))"

definition proxy_inv ::
  "'w env \<Rightarrow> ('k, 'w) auth_lib \<Rightarrow> 'k auth_config \<Rightarrow> rbac_scoper \<Rightarrow> 'w \<Rightarrow> 'w proxy_system \<Rightarrow> bool" where
  "proxy_inv env lib a s0 w0 s \<longleftrightarrow> cache_run env (cache_start s0 w0) (xs_cache s) \<and> hub_reachable (xs_hub s)
     \<and> tickets_ok lib a s \<and> streams_ok env s0 s \<and> published_ok s"

lemma tickets_ok_step:
  assumes "proxy_step env client lib a s t" "tickets_ok lib a s"
  shows "tickets_ok lib a t"
  using assms(1)
proof (cases rule: proxy_step.cases)
  case (admit i r token u w)
  with assms(2) show ?thesis by (auto simp: tickets_ok_def ticket_ok_def)
next
  case (scoping cs)
  show ?thesis
    unfolding tickets_ok_def
  proof (intro conjI allI impI)
    fix i k
    assume k: "cs_calls (xs_cache t) i = Some k"
    with scoping have "cs_calls (xs_cache s) i \<noteq> None" by auto
    from k scoping(1) have "cs_calls cs i = Some k" by simp
    from cache_step_user [OF scoping(2) this \<open>cs_calls (xs_cache s) i \<noteq> None\<close>] obtain k' where
      "cs_calls (xs_cache s) i = Some k'" "\<forall>u. call_user k = Some u \<longrightarrow> call_user k' = Some u" by blast
    with assms(2) scoping(1) show "\<exists>tk. xs_tickets t i = Some tk \<and> (\<forall>u. call_user k = Some u \<longrightarrow> tk_user tk = u)"
      unfolding tickets_ok_def by fastforce
  next
    fix i tk
    assume "xs_tickets t i = Some tk"
    with assms(2) scoping(1) show "ticket_ok lib a tk" by (simp add: tickets_ok_def)
  qed
qed (use assms(2) in \<open>simp_all add: tickets_ok_def\<close>)

lemma streams_ok_step:
  assumes "proxy_step env client lib a s t" "streams_ok env s0 s" "tickets_ok lib a s"
    and "cache_inv env s0 (xs_cache s)" "hub_inv (hs_hub (xs_hub s))"
  shows "streams_ok env s0 t"
  using assms(1)
proof (cases rule: proxy_step.cases)
  case (open_stream c tk u now scope)
  from assms(3) open_stream(2,3) have u: "tk_user tk = u" by (fastforce simp: tickets_ok_def)
  from assms(4) open_stream(3) obtain v where "cache_key v = cache_key u" "resolved_scope env s0 v scope"
    unfolding cache_inv_def answer_ok_def by blast
  with u open_stream assms(2) show ?thesis
    by (auto simp: streams_ok_def subscribed_def hub_register_def alloc_client_def new_client_def)
next
  case (admit i r token u w)
  with assms(2) show ?thesis by (fastforce simp: streams_ok_def)
next
  case (deliver c m h)
  with assms(2) subscribed_recv [OF deliver(3)] show ?thesis by (simp add: streams_ok_def)
next
  case (close_stream c h)
  with assms(2) subscribed_unregister [OF close_stream(3)] show ?thesis by (auto simp: streams_ok_def)
next
  case (publish m ms rows n d h x y)
  with assms(2) subscribed_broadcast [OF assms(5) publish(3)] show ?thesis
    by (simp add: streams_ok_def record_publish_def)
qed (use assms(2) in \<open>simp_all add: streams_ok_def\<close>)

lemma published_ok_step:
  assumes "proxy_step env client lib a s t" "published_ok s"
  shows "published_ok t"
  using assms(1)
proof (cases rule: proxy_step.cases)
  case (fetched rows w)
  with assms(2) show ?thesis by (auto simp: published_ok_def poll_messages_def)
next
  case (publish m ms rows n d h x y)
  with assms(2) show ?thesis by (auto simp: published_ok_def record_publish_def)
qed (use assms(2) in \<open>simp_all add: published_ok_def\<close>)

lemma proxy_inv_step:
  assumes "proxy_step env client lib a s t" "proxy_inv env lib a s0 w0 s" "rs_cache s0 = (\<lambda>_. None)" "0 < rs_ttl s0"
  shows "proxy_inv env lib a s0 w0 t"
proof -
  have inv: "cache_run env (cache_start s0 w0) (xs_cache s)" "hub_reachable (xs_hub s)" "tickets_ok lib a s"
    "streams_ok env s0 s" "published_ok s" using assms(2) by (simp_all add: proxy_inv_def)
  have "\<forall>i. cs_calls (xs_cache s) i \<noteq> None \<longrightarrow> xs_tickets s i \<noteq> None"
    using inv(3) by (fastforce simp: tickets_ok_def)
  from step_cache [OF assms(1) this] inv(1) have "cache_run env (cache_start s0 w0) (xs_cache t)"
    unfolding cache_run_def by (rule rtranclp_trans [rotated])
  moreover have "hub_reachable (xs_hub t)"
    using step_hub [OF assms(1)] inv(2) hub_reachable.step by metis
  moreover have "cache_inv env s0 (xs_cache s)"
    using cache_inv_run [OF inv(1) cache_inv_start [OF assms(3)] assms(4)] .
  then have "streams_ok env s0 t"
    using streams_ok_step [OF assms(1) inv(4,3)] system_inv_hub [OF reachable_inv [OF inv(2)]] by blast
  ultimately show ?thesis
    using tickets_ok_step [OF assms(1) inv(3)] published_ok_step [OF assms(1) inv(5)] by (simp add: proxy_inv_def)
qed

lemma proxy_inv_start: "proxy_inv env lib a s0 w0 (proxy_start s0 p w0)"
  by (simp add: proxy_inv_def proxy_start_def cache_run_def hub_reachable.start tickets_ok_def streams_ok_def
      published_ok_def) (simp add: cache_start_def hub_start_def)

lemma proxy_inv_run:
  assumes "proxy_run env client lib a (proxy_start s0 p w0) s" "rs_cache s0 = (\<lambda>_. None)" "0 < rs_ttl s0"
  shows "proxy_inv env lib a s0 w0 s"
  using assms(1) unfolding proxy_run_def
proof (induction rule: rtranclp_induct)
  case base
  show ?case by (rule proxy_inv_start)
next
  case (step s t)
  from proxy_inv_step [OF step.hyps(2) step.IH assms(2,3)] show ?case .
qed

section \<open>Runs of one part\<close>

lemma proxy_run_trans: "proxy_run env client lib a s t \<Longrightarrow> proxy_run env client lib a t u \<Longrightarrow> proxy_run env client lib a s u"
  unfolding proxy_run_def by (rule rtranclp_trans)

lemma proxy_run_step: "proxy_step env client lib a s t \<Longrightarrow> proxy_run env client lib a s t"
  unfolding proxy_run_def by (rule r_into_rtranclp)

lemma proxy_run_snoc: "proxy_run env client lib a s t \<Longrightarrow> proxy_step env client lib a t u \<Longrightarrow> proxy_run env client lib a s u"
  unfolding proxy_run_def by (rule rtranclp.rtrancl_into_rtrancl)

lemma scoping_run:
  assumes "(call_step env)\<^sup>*\<^sup>* (xs_cache s) cs"
  shows "proxy_run env client lib a s (s\<lparr>xs_cache := cs\<rparr>)"
  using assms
proof (induction rule: rtranclp_induct)
  case base
  show ?case by (simp add: proxy_run_def)
next
  case (step c d)
  have "proxy_step env client lib a (s\<lparr>xs_cache := c\<rparr>) (s\<lparr>xs_cache := c\<rparr>\<lparr>xs_cache := d\<rparr>)"
    using step.hyps(2) by (intro proxy_step.scoping) (simp_all add: call_step_def)
  then show ?case using proxy_run_trans [OF step.IH proxy_run_step] by simp
qed

text \<open>The broadcasts of one poll, undisturbed.\<close>

lemma publish_run:
  assumes "hub_inv (hs_hub (xs_hub s))" "xs_pc s = Broadcasting ms rows n d"
    and "broadcast_all ms (hs_hub (xs_hub s)) n d = Inr (h', n', d')"
  shows "\<exists>t. proxy_run env client lib a s t \<and> xs_pc t = Broadcasting [] rows n' d' \<and> hs_hub (xs_hub t) = h'
     \<and> xs_cache t = xs_cache s \<and> xs_poller t = xs_poller s \<and> hs_out (xs_hub t) = hs_out (xs_hub s)
     \<and> hs_phase (xs_hub t) = hs_phase (xs_hub s)"
  using assms
proof (induction ms arbitrary: s n d)
  case Nil
  then show ?case by (intro exI [of _ s]) (simp add: proxy_run_def)
next
  case (Cons m ms)
  obtain h k x where b: "broadcast m (hs_hub (xs_hub s)) = Inr (h, k, x)"
    using broadcast_result [OF Cons.prems(1), of m] by blast
  let ?t = "s\<lparr>xs_hub := (record_publish m (xs_hub s))\<lparr>hs_hub := h\<rparr>,
      xs_pc := Broadcasting ms rows (i64 (n + k)) (i64 (d + x))\<rparr>"
  have st: "proxy_step env client lib a s ?t" by (rule proxy_step.publish [OF Cons.prems(2) b])
  have "hub_inv (hs_hub (xs_hub ?t))"
    using hub_inv_after_message [OF Cons.prems(1), of m] broadcast_result [OF Cons.prems(1), of m] b by simp
  from Cons.IH [OF this] Cons.prems(3) b obtain t where
    "proxy_run env client lib a ?t t" "xs_pc t = Broadcasting [] rows n' d'" "hs_hub (xs_hub t) = h'"
    "xs_cache t = xs_cache s" "xs_poller t = xs_poller s" "hs_out (xs_hub t) = hs_out (xs_hub s)"
    "hs_phase (xs_hub t) = hs_phase (xs_hub s)"
    by (auto simp: record_publish_def)
  with proxy_run_trans [OF proxy_run_step [OF st]] show ?case by blast
qed

lemma tick_run:
  assumes "hub_inv (hs_hub (xs_hub s))" "xs_pc s = Between_Ticks"
    and "tick client now (xs_poller s) (hs_hub (xs_hub s)) (cs_world (xs_cache s)) = Inr (p', h', w')"
  shows "\<exists>t. proxy_run env client lib a s t \<and> xs_pc t = Between_Ticks \<and> xs_poller t = p'
     \<and> hs_hub (xs_hub t) = h' \<and> xs_cache t = (xs_cache s)\<lparr>cs_world := w'\<rparr>"
proof (cases "hub_count (hs_hub (xs_hub s)) = 0")
  case True
  let ?t = "s\<lparr>xs_poller := (if live_cursor now > last_seen (xs_poller s) then (xs_poller s)\<lparr>last_seen := live_cursor now\<rparr>
      else xs_poller s)\<rparr>"
  have "proxy_run env client lib a s ?t" by (rule proxy_run_step [OF proxy_step.idle_tick [OF assms(2) True]])
  with True assms(2,3) show ?thesis by (intro exI [of _ ?t]) (simp add: tick_def)
next
  case False
  let ?q = "s\<lparr>xs_pc := Querying\<rparr>"
  have q: "proxy_run env client lib a s ?q" by (rule proxy_run_step [OF proxy_step.poll_tick [OF assms(2) False]])
  obtain res w1 where f: "query_clickhouse client (po_cfg (xs_poller ?q)) (poll_query (last_seen (xs_poller ?q))) []
      (cs_world (xs_cache ?q)) = (res, w1)" by fastforce
  have poll: "poll client (xs_poller s) (hs_hub (xs_hub s)) (cs_world (xs_cache s)) = Inr (p', h', w')"
    using assms(3) False by (simp add: tick_def)
  show ?thesis
  proof (cases res)
    case (Inl e)
    let ?t = "?q\<lparr>xs_cache := (xs_cache ?q)\<lparr>cs_world := w1\<rparr>, xs_pc := Between_Ticks,
        xs_poller := (xs_poller ?q)\<lparr>po_metrics := inc_poll_error (po_metrics (xs_poller ?q))\<rparr>\<rparr>"
    have "proxy_run env client lib a s ?t"
      by (rule proxy_run_trans [OF q proxy_run_step [OF proxy_step.not_fetched [OF _ f [unfolded Inl]]]]) simp
    with Inl f poll show ?thesis by (intro exI [of _ ?t]) (simp add: poll_def)
  next
    case (Inr rows)
    let ?b = "?q\<lparr>xs_cache := (xs_cache ?q)\<lparr>cs_world := w1\<rparr>, xs_pc := Broadcasting (poll_messages rows) rows 0 0,
        xs_rows := xs_rows ?q @ rows\<rparr>"
    have b: "proxy_run env client lib a s ?b"
      by (rule proxy_run_trans [OF q proxy_run_step [OF proxy_step.fetched [OF _ f [unfolded Inr]]]]) simp
    from poll f Inr obtain n d where r: "broadcast_all (poll_messages rows) (hs_hub (xs_hub ?b)) 0 0 = Inr (h', n, d)"
      "p' = poll_finish rows n d (xs_poller s)" "w' = w1"
      by (auto simp: poll_def poll_rows_broadcasts poll_finish_def Let_def split: sum.splits prod.splits)
    obtain t where t: "proxy_run env client lib a ?b t" "xs_pc t = Broadcasting [] rows n d" "hs_hub (xs_hub t) = h'"
      "xs_cache t = xs_cache ?b" "xs_poller t = xs_poller ?b"
      using publish_run [OF _ _ r(1)] assms(1) by fastforce
    let ?t = "t\<lparr>xs_pc := Between_Ticks, xs_poller := poll_finish rows n d (xs_poller t)\<rparr>"
    have "proxy_run env client lib a s ?t"
      by (rule proxy_run_trans [OF proxy_run_trans [OF b t(1)] proxy_run_step [OF proxy_step.polled_all [OF t(2)]]])
    with t(3-5) r(2,3) show ?thesis by (intro exI [of _ ?t]) simp
  qed
qed

lemma poller_moves:
  assumes "hub_inv (hs_hub (xs_hub s))"
  shows "\<exists>t. proxy_step env client lib a s t \<and> xs_tickets t = xs_tickets s \<and> hs_phase (xs_hub t) = hs_phase (xs_hub s)
     \<and> (\<forall>m ms rows n d. xs_pc s = Broadcasting (m # ms) rows n d \<longrightarrow> (\<exists>n' d'. xs_pc t = Broadcasting ms rows n' d'))
     \<and> (\<forall>rows n d. xs_pc s = Broadcasting [] rows n d \<longrightarrow> xs_pc t = Between_Ticks)"
    (is "\<exists>t. ?P t")
proof (cases "xs_pc s")
  case Between_Ticks
  show ?thesis
  proof (cases "hub_count (hs_hub (xs_hub s)) = 0")
    case True
    have "?P (s\<lparr>xs_poller := (if live_cursor 0 > last_seen (xs_poller s)
        then (xs_poller s)\<lparr>last_seen := live_cursor 0\<rparr> else xs_poller s)\<rparr>)"
      using proxy_step.idle_tick [OF Between_Ticks True, of env client lib a 0] Between_Ticks by simp
    then show ?thesis by (rule exI)
  next
    case False
    have "?P (s\<lparr>xs_pc := Querying\<rparr>)"
      using proxy_step.poll_tick [OF Between_Ticks False, of env client lib a] Between_Ticks by simp
    then show ?thesis by (rule exI)
  qed
next
  case Querying
  obtain res w where f: "query_clickhouse client (po_cfg (xs_poller s)) (poll_query (last_seen (xs_poller s))) []
      (cs_world (xs_cache s)) = (res, w)" by fastforce
  show ?thesis
  proof (cases res)
    case (Inl e)
    have "?P (s\<lparr>xs_cache := (xs_cache s)\<lparr>cs_world := w\<rparr>, xs_pc := Between_Ticks,
        xs_poller := (xs_poller s)\<lparr>po_metrics := inc_poll_error (po_metrics (xs_poller s))\<rparr>\<rparr>)"
      using proxy_step.not_fetched [OF Querying f [unfolded Inl], of env lib a] Querying by simp
    then show ?thesis by (rule exI)
  next
    case (Inr rows)
    have "?P (s\<lparr>xs_cache := (xs_cache s)\<lparr>cs_world := w\<rparr>,
        xs_pc := Broadcasting (poll_messages rows) rows 0 0, xs_rows := xs_rows s @ rows\<rparr>)"
      using proxy_step.fetched [OF Querying f [unfolded Inr], of env lib a] Querying by simp
    then show ?thesis by (rule exI)
  qed
next
  case (Broadcasting ms rows n d)
  show ?thesis
  proof (cases ms)
    case Nil
    have "?P (s\<lparr>xs_pc := Between_Ticks, xs_poller := poll_finish rows n d (xs_poller s)\<rparr>)"
      using proxy_step.polled_all [OF Broadcasting [unfolded Nil], of env client lib a] Broadcasting Nil by simp
    then show ?thesis by (rule exI)
  next
    case (Cons m ms')
    obtain h k x where b: "broadcast m (hs_hub (xs_hub s)) = Inr (h, k, x)"
      using broadcast_result [OF assms, of m] by blast
    have "?P (s\<lparr>xs_hub := (record_publish m (xs_hub s))\<lparr>hs_hub := h\<rparr>,
        xs_pc := Broadcasting ms' rows (i64 (n + k)) (i64 (d + x))\<rparr>)"
      using proxy_step.publish [OF Broadcasting [unfolded Cons] b, of env client lib a] Broadcasting Cons
      by (simp add: record_publish_def)
    then show ?thesis by (rule exI)
  qed
qed

section \<open>The service the proxy is\<close>

text \<open>
  What may be asked of the queues of \<open>Hub_Refinement\<close>: a connection only for a request whose token was
  verified, for the topic it named and with a scope that was resolved for its caller, and a message
  only if it was made from a row the poller read.
\<close>

definition event_ok :: "'w env \<Rightarrow> rbac_scoper \<Rightarrow> 'w proxy_system \<Rightarrow> hub_event \<Rightarrow> bool" where
  "event_ok env s0 s e \<longleftrightarrow>
     (case e of
        Connect c topic sc \<Rightarrow> (\<exists>t scope v. xs_tickets s c = Some t \<and> topic = stream_topic (tk_request t)
          \<and> sc = Some scope \<and> cache_key v = cache_key (tk_user t) \<and> resolved_scope env s0 v scope)
      | Publish m \<Rightarrow> m \<in> set (poll_messages (xs_rows s))
      | _ \<Rightarrow> True)"

lemma step_grows:
  assumes "proxy_step env client lib a s t"
  shows "(\<forall>c tk. xs_tickets s c = Some tk \<longrightarrow> xs_tickets t c = Some tk)
     \<and> set (poll_messages (xs_rows s)) \<subseteq> set (poll_messages (xs_rows t))"
  using assms by (cases rule: proxy_step.cases) (auto simp: poll_messages_def)

lemma event_ok_grows: "proxy_step env client lib a s t \<Longrightarrow> event_ok env s0 s e \<Longrightarrow> event_ok env s0 t e"
  using step_grows [of env client lib a s t] unfolding event_ok_def by (cases e) fastforce+

lemma step_event:
  assumes "proxy_step env client lib a s t" "proxy_inv env lib a s0 w0 s" "rs_cache s0 = (\<lambda>_. None)" "0 < rs_ttl s0"
  shows "xs_hub t = xs_hub s \<or> (\<exists>e. xs_hub t = hub_apply e (xs_hub s) \<and> event_ok env s0 t e)"
  using assms(1)
proof (cases rule: proxy_step.cases)
  case (open_stream c tk u now scope)
  have inv: "tickets_ok lib a s" "cache_inv env s0 (xs_cache s)"
    using assms(2) cache_inv_run [OF _ cache_inv_start [OF assms(3)] assms(4)] by (auto simp: proxy_inv_def)
  from inv(1) open_stream(2,3) have "tk_user tk = u" by (fastforce simp: tickets_ok_def)
  moreover from inv(2) open_stream(3) obtain v where "cache_key v = cache_key u" "resolved_scope env s0 v scope"
    unfolding cache_inv_def answer_ok_def by blast
  ultimately have "event_ok env s0 t (Connect c (stream_topic (tk_request tk)) (Some scope))"
    using open_stream(1,2) by (auto simp: event_ok_def)
  with open_stream show ?thesis by (intro disjI2 exI [of _ "Connect c (stream_topic (tk_request tk)) (Some scope)"]) simp
next
  case (deliver c m h)
  then show ?thesis by (intro disjI2 exI [of _ "Deliver c"]) (simp add: event_ok_def)
next
  case (close_stream c h)
  then show ?thesis by (intro disjI2 exI [of _ "Disconnect c"]) (simp add: event_ok_def)
next
  case (publish m ms rows n d h x y)
  from assms(2) publish(2) have "m \<in> set (poll_messages (xs_rows s))" by (auto simp: proxy_inv_def published_ok_def)
  with publish show ?thesis by (intro disjI2 exI [of _ "Publish m"]) (simp add: event_ok_def)
qed simp_all

lemma run_events:
  assumes "proxy_run env client lib a (proxy_start s0 p w0) s" "rs_cache s0 = (\<lambda>_. None)" "0 < rs_ttl s0"
  shows "\<exists>es. xs_hub s = hub_exec es hub_start \<and> (\<forall>e \<in> set es. event_ok env s0 s e)"
  using assms(1) unfolding proxy_run_def
proof (induction rule: rtranclp_induct)
  case base
  show ?case by (intro exI [of _ "[]"]) (simp add: proxy_start_def hub_exec_def)
next
  case (step s t)
  from step.IH obtain es where es: "xs_hub s = hub_exec es hub_start" "\<forall>e \<in> set es. event_ok env s0 s e" by blast
  have old: "\<forall>e \<in> set es. event_ok env s0 t e" using es(2) event_ok_grows [OF step.hyps(2)] by blast
  have "proxy_inv env lib a s0 w0 s"
    using proxy_inv_run [of env client lib a s0 p w0 s] step.hyps(1) assms(2,3) unfolding proxy_run_def by blast
  from step_event [OF step.hyps(2) this assms(2,3)] show ?case
  proof
    assume "xs_hub t = xs_hub s"
    with es(1) old show ?thesis by (intro exI [of _ es]) simp
  next
    assume "\<exists>e. xs_hub t = hub_apply e (xs_hub s) \<and> event_ok env s0 t e"
    then obtain e where "xs_hub t = hub_apply e (xs_hub s)" "event_ok env s0 t e" by blast
    with es(1) old show ?thesis by (intro exI [of _ "es @ [e]"]) (simp add: hub_exec_def)
  qed
qed

section \<open>A sample run\<close>

text \<open>A caller with one namespace opens a stream, the poller reads one row, and the stream is sent its event.\<close>

definition feed_row :: ch_row where
  "feed_row = sample_row\<lparr>obj_namespace := ''team-a''\<rparr>"

definition sample_feed :: "time env" where
  "sample_feed = sample_api\<lparr>env_http := (\<lambda>rq w. (Inr (rows_reply [feed_row]), w))\<rparr>"

abbreviation sample_keys :: "(unit, time) auth_lib" where
  "sample_keys \<equiv> sample_lib ''good'' sample_user"

abbreviation sample_steps :: "time proxy_system \<Rightarrow> time proxy_system \<Rightarrow> bool" where
  "sample_steps \<equiv> proxy_run sample_api sample_feed sample_keys sample_auth"

lemma feed_query: "query_clickhouse sample_feed sample_config q [] w = (Inr [feed_row], w)"
proof -
  have "\<forall>row \<in> set [feed_row]. wire_row row"
    using sample_row_wire sample_utf8(5) by (simp add: feed_row_def wire_row_def)
  from decode_rows_body [OF this] sample_url show ?thesis
    by (auto simp: query_clickhouse_def clickhouse_exchange_def clickhouse_endpoint_def sample_feed_def rows_reply_def)
qed

lemma sample_opened:
  "\<exists>s. sample_steps (proxy_start sample_scoper sample_poller 0) s
     \<and> xs_hub s = hub_apply (Connect 7 [] (Some \<lparr>allow_all = False, namespaces = [''team-a'']\<rparr>)) hub_start
     \<and> xs_pc s = Between_Ticks \<and> xs_poller s = sample_poller"
proof -
  let ?sc = "\<lparr>allow_all = False, namespaces = [''team-a'']\<rparr>"
  let ?s = "proxy_start sample_scoper sample_poller (0::time)"
  let ?tk = "\<lparr>tk_request = sample_request [], tk_token = ''good'', tk_user = sample_user\<rparr>"
  let ?a = "?s\<lparr>xs_tickets := (xs_tickets ?s)(7 \<mapsto> ?tk),
      xs_cache := (xs_cache ?s)\<lparr>cs_world := 0, cs_calls := (cs_calls (xs_cache ?s))(7 \<mapsto> Asked sample_user)\<rparr>\<rparr>"
  have t: "query_token_param (sample_request []) = []" "token_from_request sample_auth (sample_request []) = Some ''good''"
    by (rule sample_token; simp add: sample_request_def)+
  have "al_verify sample_keys (ac_keys sample_auth) ''good'' (cs_world (xs_cache ?s)) = (Inr sample_user, 0)"
    by (simp add: sample_lib_def proxy_start_def cache_start_def)
  then have admit: "sample_steps ?s ?a"
    by (intro proxy_run_step proxy_step.admit t) (simp_all add: proxy_start_def)
  have f: "scope_for sample_api id 0 sample_user [sample_scoper] 0
      = Some (Inr ?sc, cache_store 0 (cache_key sample_user) ?sc 0 [sample_scoper], 0)"
    using sample_resolve [of 0]
    by (simp add: scope_for_def Let_def sample_api_def api_server_def cache_lookup_def sample_scoper_def)
  have "cs_calls (xs_cache ?a) 7 = Some (Asked sample_user)" "cs_scoper (xs_cache ?a) = [sample_scoper] ! 0"
      "cs_world (xs_cache ?a) = 0" by (simp_all add: proxy_start_def cache_start_def)
  from asked_answered [OF f _ this] obtain now cs where cs: "(call_step sample_api)\<^sup>*\<^sup>* (xs_cache ?a) cs"
    "cs_calls cs 7 = Some (Answered sample_user now ?sc)" by auto
  let ?b = "?a\<lparr>xs_cache := cs\<rparr>"
  have "sample_steps ?a ?b" using cs(1) by (rule scoping_run)
  with admit have b: "sample_steps ?s ?b" by (rule proxy_run_trans)
  have "stream_topic (sample_request []) = []"
    by (simp add: stream_topic_def url_query_def sample_request_def values_get_def)
  then have o: "proxy_step sample_api sample_feed sample_keys sample_auth ?b
      (?b\<lparr>xs_hub := hub_apply (Connect 7 [] (Some ?sc)) hub_start\<rparr>)"
    using proxy_step.open_stream [of ?b 7 ?tk sample_user now ?sc sample_api sample_feed sample_keys sample_auth] cs(2)
    by (simp add: proxy_start_def hub_start_def)
  have "sample_steps ?s (?b\<lparr>xs_hub := hub_apply (Connect 7 [] (Some ?sc)) hub_start\<rparr>)"
    by (rule proxy_run_snoc [OF b o])
  then show ?thesis
    by (intro exI [of _ "?b\<lparr>xs_hub := hub_apply (Connect 7 [] (Some ?sc)) hub_start\<rparr>"]) (simp add: proxy_start_def)
qed

lemma sample_queued:
  "\<exists>s t. sample_steps (proxy_start sample_scoper sample_poller 0) s \<and> sample_steps s t
     \<and> hs_phase (xs_hub s) 7 = Streaming \<and> hs_phase (xs_hub t) 7 = Streaming \<and> hs_out (xs_hub t) 7 = []
     \<and> map_option (\<lambda>cl. ch_buf (cl_ch cl)) (hub_store (hs_hub (xs_hub t)) 7) = Some [global_message feed_row]"
proof -
  let ?sc = "\<lparr>allow_all = False, namespaces = [''team-a'']\<rparr>"
  let ?h = "hub_apply (Connect 7 [] (Some ?sc)) hub_start"
  obtain s where s: "sample_steps (proxy_start sample_scoper sample_poller 0) s" "xs_hub s = ?h"
    "xs_pc s = Between_Ticks" "xs_poller s = sample_poller" using sample_opened by blast
  have inv: "hub_inv (hs_hub ?h)"
    by (rule system_inv_hub [OF reachable_inv [OF hub_apply_reachable [OF hub_reachable.start]]])
  have "hub_count (hs_hub (xs_hub s)) \<noteq> 0"
    by (simp add: s(2) hub_count_def hub_start_def new_hub_def hub_register_def alloc_client_def)
  note q = proxy_step.poll_tick [OF s(3) this, of sample_api sample_feed sample_keys sample_auth]
  let ?q = "s\<lparr>xs_pc := Querying\<rparr>"
  let ?b = "?q\<lparr>xs_cache := (xs_cache ?q)\<lparr>cs_world := cs_world (xs_cache ?q)\<rparr>,
      xs_pc := Broadcasting (poll_messages [feed_row]) [feed_row] 0 0, xs_rows := xs_rows ?q @ [feed_row]\<rparr>"
  have f: "proxy_step sample_api sample_feed sample_keys sample_auth ?q ?b"
    by (rule proxy_step.fetched) (simp_all add: s(4) sample_poller_def feed_query)
  have b: "sample_steps s ?b" by (rule proxy_run_snoc [OF proxy_run_step [OF q] f])
  have hb: "xs_hub ?b = ?h" using s(2) by simp
  from broadcast_all_result [OF inv zero_range zero_range, of "poll_messages [feed_row]"] obtain n d where
    r: "broadcast_all (poll_messages [feed_row]) (hs_hub (xs_hub ?b)) 0 0
      = Inr (after_messages (poll_messages [feed_row]) (hs_hub ?h), n, d)" unfolding hb by blast
  have "hub_inv (hs_hub (xs_hub ?b))" using inv hb by simp
  from publish_run [OF this _ r] obtain t where t: "sample_steps ?b t"
    "hs_hub (xs_hub t) = after_messages (poll_messages [feed_row]) (hs_hub ?h)" "hs_out (xs_hub t) = hs_out ?h"
    "hs_phase (xs_hub t) = hs_phase ?h" using hb by fastforce
  have "map_option (\<lambda>cl. ch_buf (cl_ch cl)) (hub_store (hs_hub (xs_hub t)) 7) = Some [global_message feed_row]"
    by (simp add: t(2) hub_start_def new_hub_def hub_register_def alloc_client_def row_messages_def
        receive_def wants_def new_client_def make_chan_def chan_room_def client_buffer_def poll_limit_def
        global_message_def composition_message_def feed_row_def sample_row_def zero_row_def global_topic_def
        allows_def)
  moreover have "hs_phase (xs_hub s) 7 = Streaming" "hs_phase (xs_hub t) 7 = Streaming" "hs_out (xs_hub t) 7 = []"
    by (simp_all add: s(2) t(3,4) hub_start_def)
  ultimately show ?thesis using s(1) proxy_run_trans [OF b t(1)] by blast
qed

lemma sample_delivered:
  "\<exists>s. sample_steps (proxy_start sample_scoper sample_poller 0) s \<and> hs_out (xs_hub s) 7 = [global_message feed_row]"
proof -
  obtain s t cl where st: "sample_steps (proxy_start sample_scoper sample_poller 0) s" "sample_steps s t"
    "hs_phase (xs_hub t) 7 = Streaming" "hs_out (xs_hub t) 7 = []" "hub_store (hs_hub (xs_hub t)) 7 = Some cl"
    "ch_buf (cl_ch cl) = [global_message feed_row]" using sample_queued by blast
  from st(5,6) have "\<exists>h. client_recv 7 (hs_hub (xs_hub t)) = (Got (global_message feed_row), h)"
    by (simp add: client_recv_def chan_recv_def)
  then obtain h where "client_recv 7 (hs_hub (xs_hub t)) = (Got (global_message feed_row), h)" by blast
  note d = proxy_step.deliver [OF st(3) this, of sample_api sample_feed sample_keys sample_auth]
  show ?thesis
    by (rule exI, rule conjI, rule proxy_run_snoc [OF proxy_run_trans [OF st(1,2)] d]) (simp add: st(4))
qed

section \<open>Properties of the whole proxy\<close>


lemma sample_scoper_fresh: "rs_cache sample_scoper = (\<lambda>_. None)" "0 < rs_ttl sample_scoper"
  by (simp_all add: sample_scoper_def second_def)








end
