(* ===== verification/Row_Types.thy ===== *)
theory Row_Types
  imports Clickhouse
begin

text \<open>
  The types of \<open>chRow\<close> and what \<open>encoding/json\<close> makes of them: which lines of a ClickHouse reply become
  rows, and that a line with one value of another type is no row at all, whatever else it holds.
\<close>

section \<open>Fields that check a type\<close>

text \<open>Whether a field takes a value does not depend on the struct.\<close>

definition accepts :: "(json \<Rightarrow> 'r \<Rightarrow> 'r \<times> bool) \<Rightarrow> json \<Rightarrow> bool" where
  "accepts st v \<longleftrightarrow> (\<forall>r. snd (st v r))"

definition steady :: "(json \<Rightarrow> 'r \<Rightarrow> 'r \<times> bool) \<Rightarrow> bool" where
  "steady st \<longleftrightarrow> (\<forall>v r. snd (st v r) = accepts st v)"

lemma set_string_accepts: "accepts (set_string upd) v \<longleftrightarrow> v = JNull \<or> (\<exists>s. v = JStr s)" "steady (set_string upd)"
  by (cases v; simp add: accepts_def set_string_def)
    (auto simp: steady_def accepts_def set_string_def split: json.split)

lemma set_int64_accepts:
  "accepts (set_int64 upd) v \<longleftrightarrow> v = JNull \<or> (\<exists>l i. v = JNum l \<and> atoi l = Some i)" "steady (set_int64 upd)"
  by (cases v; simp add: accepts_def set_int64_def split: option.split)
    (auto simp: steady_def accepts_def set_int64_def split: json.split option.split)

lemma find_field_in: "find_field fs k = Some st \<Longrightarrow> st \<in> snd ` set fs"
  by (auto simp: find_field_def find_Some_iff image_iff split: option.splits dest!: map_of_SomeD)
    (metis nth_mem snd_conv)+

lemma decode_members_ok:
  assumes "\<forall>st \<in> snd ` set fs. steady st"
  shows "snd (decode_members fs ms (r, ok)) \<longleftrightarrow>
     ok \<and> (\<forall>(k, v) \<in> set ms. \<forall>st. find_field fs k = Some st \<longrightarrow> accepts st v)"
proof (induction ms arbitrary: r ok)
  case (Cons m ms)
  obtain k v where m: "m = (k, v)" by (cases m)
  show ?case
  proof (cases "find_field fs k")
    case None
    with m show ?thesis by (simp add: Cons.IH)
  next
    case (Some st)
    with find_field_in assms have "steady st" by blast
    then have "snd (st v r) = accepts st v" by (simp add: steady_def)
    then obtain r' where "st v r = (r', accepts st v)" by (cases "st v r") simp
    with m Some show ?thesis by (auto simp: Cons.IH)
  qed
qed simp

lemma unmarshal_ok:
  assumes "\<forall>st \<in> snd ` set fs. steady st"
  shows "(\<exists>row. unmarshal fs text r = Inr row) \<longleftrightarrow>
     json_parse text = Some JNull \<or> (\<exists>ms. json_parse text = Some (JObj ms)
       \<and> (\<forall>(k, v) \<in> set ms. \<forall>st. find_field fs k = Some st \<longrightarrow> accepts st v))"
proof (cases "json_parse text")
  case (Some j)
  then show ?thesis
  proof (cases j)
    case (JObj ms)
    obtain r' ok where d: "decode_members fs ms (r, True) = (r', ok)" by (cases "decode_members fs ms (r, True)")
    with decode_members_ok [OF assms, of ms r True]
    have "ok \<longleftrightarrow> (\<forall>(k, v) \<in> set ms. \<forall>st. find_field fs k = Some st \<longrightarrow> accepts st v)" by simp
    with Some JObj d show ?thesis by (auto simp: unmarshal_def set_struct_def)
  qed (simp_all add: unmarshal_def set_struct_def)
qed (simp add: unmarshal_def)

section \<open>The columns\<close>

datatype column = Int_Column | Text_Column

text \<open>The columns of \<open>chRow\<close> with the types of their fields.\<close>

definition row_columns :: "(string \<times> column) list" where
  "row_columns =
     [(''ts_unix'', Int_Column), (''composition_id'', Text_Column), (''obj_apiversion'', Text_Column),
      (''obj_name'', Text_Column), (''obj_namespace'', Text_Column), (''obj_uid'', Text_Column),
      (''obj_kind'', Text_Column), (''reason'', Text_Column), (''message'', Text_Column), (''type'', Text_Column),
      (''event_time'', Text_Column), (''source_component'', Text_Column)]"

text \<open>A member belongs to the column of its name, or to the first column that differs from it only in case.\<close>

definition column_of :: "string \<Rightarrow> column option" where
  "column_of k =
     (case map_of row_columns k of
        Some t \<Rightarrow> Some t
      | None \<Rightarrow> map_option snd (find (\<lambda>(n, _). fold_name n = fold_name k) row_columns))"

fun inhabits :: "json \<Rightarrow> column \<Rightarrow> bool" where
  "inhabits JNull t = True"
| "inhabits (JStr s) t = (t = Text_Column)"
| "inhabits (JNum l) t = (t = Int_Column \<and> atoi l \<noteq> None)"
| "inhabits _ t = False"

definition typed_members :: "(string \<times> json) list \<Rightarrow> bool" where
  "typed_members ms \<longleftrightarrow> list_all (\<lambda>(k, v). case column_of k of None \<Rightarrow> True | Some t \<Rightarrow> inhabits v t) ms"

definition field_type :: "(json \<Rightarrow> 'r \<Rightarrow> 'r \<times> bool) \<Rightarrow> column \<Rightarrow> bool" where
  "field_type st t \<longleftrightarrow> steady st \<and> (\<forall>v. accepts st v = inhabits v t)"

lemma field_types: "field_type (set_string upd) Text_Column" "field_type (set_int64 upd2) Int_Column"
proof -
  have "accepts (set_string upd) v = inhabits v Text_Column" for v
    by (cases v) (simp_all add: set_string_accepts)
  then show "field_type (set_string upd) Text_Column" by (simp add: field_type_def set_string_accepts(2))
  have "accepts (set_int64 upd2) v = inhabits v Int_Column" for v
    by (cases v) (auto simp: set_int64_accepts)
  then show "field_type (set_int64 upd2) Int_Column" by (simp add: field_type_def set_int64_accepts(2))
qed

lemma row_field_types: "list_all2 (\<lambda>(n, st) (n', t). n = n' \<and> field_type st t) row_fields row_columns"
  by (simp add: row_fields_def row_columns_def field_types)

lemma find_field_column:
  assumes "list_all2 (\<lambda>(n, st) (n', t). n = n' \<and> field_type st t) fs cs"
  shows "rel_option field_type (map_of fs k) (map_of cs k)"
    and "rel_option field_type (map_option snd (find (\<lambda>(n, _). P n) fs)) (map_option snd (find (\<lambda>(n, _). P n) cs))"
  using assms by (induction fs cs rule: list_all2_induct) auto

lemma row_column: "rel_option field_type (find_field row_fields k) (column_of k)"
proof -
  note r = find_field_column(1) [OF row_field_types, of k]
    find_field_column(2) [OF row_field_types, of "\<lambda>n. fold_name n = fold_name k"]
  show ?thesis
  proof (cases "map_of row_fields k")
    case None
    with r(1) have "map_of row_columns k = None" by (cases "map_of row_columns k") simp_all
    with None r(2) show ?thesis by (simp add: find_field_def column_of_def)
  next
    case (Some st)
    with r(1) obtain t where "map_of row_columns k = Some t" by (cases "map_of row_columns k") simp_all
    with Some r(1) show ?thesis by (simp add: find_field_def column_of_def)
  qed
qed

section \<open>Property of the decoder\<close>

text \<open>
  C30: the lines that become rows are exactly the well-typed ones: JSON texts of an object (or null) in
  which every member that names a column, in any case, has that column's type: a string, for
  \<open>ts_unix\<close> an integer literal in the range of \<open>int64\<close>, or null. Members of other names may hold
  anything. A quoted number is no \<open>ts_unix\<close>, and one ill-typed member makes the whole line be skipped.
\<close>

theorem row_typing:
  "(\<exists>row. decode_row line = Inr row) \<longleftrightarrow>
     json_parse line = Some JNull \<or> (\<exists>ms. json_parse line = Some (JObj ms) \<and> typed_members ms)"
proof -
  have st: "\<forall>st \<in> snd ` set row_fields. steady st"
    by (simp add: row_fields_def set_string_accepts(2) set_int64_accepts(2))
  have eq: "(\<forall>st. find_field row_fields k = Some st \<longrightarrow> accepts st v)
      \<longleftrightarrow> (case column_of k of None \<Rightarrow> True | Some t \<Rightarrow> inhabits v t)" for k v
    using row_column [of k] by (cases "find_field row_fields k"; cases "column_of k") (auto simp: field_type_def)
  show ?thesis
    unfolding decode_row_def unmarshal_ok [OF st] eq typed_members_def list_all_iff by blast
qed

end
