(* ===== verification/Poller_Bounds.thy ===== *)
theory Poller_Bounds
  imports Poller Row_Types
begin

text \<open>
  The range of the poller's cursor. \<open>lastSeenUnix\<close> and \<open>TsUnix\<close> are \<open>int64\<close>, and what a reply holds for
  \<open>ts_unix\<close> is not trusted: this theory bounds the cursor over every run of the loop and says where
  \<open>lastSeenUnix+1\<close> wraps around.
\<close>

section \<open>Rows in range\<close>

lemma decode_members_keeps:
  assumes "\<And>st v r. st \<in> snd ` set fs \<Longrightarrow> P r \<Longrightarrow> P (fst (st v r))" "P r"
  shows "P (fst (decode_members fs ms (r, ok)))"
  using assms(2)
proof (induction ms arbitrary: r ok)
  case (Cons m ms)
  obtain k v where m: "m = (k, v)" by (cases m)
  show ?case
  proof (cases "find_field fs k")
    case None
    with m Cons show ?thesis by simp
  next
    case (Some st)
    obtain r' ok' where st: "st v r = (r', ok')" by (cases "st v r")
    have "P r'" using assms(1) [OF find_field_in [OF Some] Cons.prems, of v] st by simp
    with m Some st Cons.IH show ?thesis by simp
  qed
qed simp

lemma unmarshal_keeps:
  assumes "\<And>st v r. st \<in> snd ` set fs \<Longrightarrow> P r \<Longrightarrow> P (fst (st v r))" "P r" "unmarshal fs text r = Inr r'"
  shows "P r'"
proof -
  from assms(3) obtain j where j: "json_parse text = Some j" "set_struct fs id (\<lambda>s _. s) j r = (r', True)"
    by (auto simp: unmarshal_def split: option.splits prod.splits if_splits)
  show ?thesis
  proof (cases j)
    case (JObj ms)
    with j(2) decode_members_keeps [of fs P r ms True] assms(1,2) show ?thesis
      by (auto simp: set_struct_def split: prod.splits)
  qed (use j(2) assms(2) in \<open>auto simp: set_struct_def\<close>)
qed

lemma set_string_keeps:
  assumes "\<And>s r. ts_unix (upd s r) = ts_unix r"
  shows "ts_unix (fst (set_string upd v r)) = ts_unix r"
  using assms by (simp add: set_string_def split: json.split)

lemma set_int64_range:
  assumes "\<And>i r. ts_unix (upd i r) = i" "int64_range (ts_unix r)"
  shows "int64_range (ts_unix (fst (set_int64 upd v r)))"
  using assms atoi_range by (auto simp: set_int64_def split: json.split option.split)

lemma decode_row_range:
  assumes "decode_row line = Inr row"
  shows "int64_range (ts_unix row)"
proof (rule unmarshal_keeps [of row_fields "\<lambda>r. int64_range (ts_unix r)"])
  show "int64_range (ts_unix (fst (st v r)))" if "st \<in> snd ` set row_fields" "int64_range (ts_unix r)" for st v r
    using that by (auto simp: row_fields_def set_string_keeps set_int64_range)
  show "int64_range (ts_unix zero_row)" by (simp add: zero_row_def int64_range_def)
  show "unmarshal row_fields line zero_row = Inr row" using assms by (simp add: decode_row_def)
qed

lemma decode_lines_range: "\<forall>row \<in> set (decode_lines decode_row ls). int64_range (ts_unix row)"
  by (induction "decode_row" ls rule: decode_lines.induct) (auto dest: decode_row_range split: sum.splits)

lemma query_range:
  assumes "query_clickhouse env cfg q ps w = (Inr rows, w')"
  shows "\<forall>row \<in> set rows. int64_range (ts_unix row)"
  using assms decode_lines_range by (auto simp: query_clickhouse_def split: prod.splits sum.splits)

section \<open>The cursor over a run\<close>

lemma foldl_max_range: "int64_range m \<Longrightarrow> \<forall>x \<in> set xs. int64_range x \<Longrightarrow> int64_range (foldl max m xs)"
  by (metis foldl_max_in)

lemma live_cursor_range: "int64_range (live_cursor now)"
  by (simp add: live_cursor_def unix_def i64_range)

lemma tick_range:
  assumes "hub_inv h" "int64_range (last_seen p)" "tick env now p h w = Inr (p', h', w')"
  shows "int64_range (last_seen p')"
proof (cases "hub_count h = 0")
  case True
  with assms(2,3) live_cursor_range show ?thesis by (auto simp: tick_def split: if_splits)
next
  case False
  obtain r v where q: "query_clickhouse env (po_cfg p) (poll_query (last_seen p)) [] w = (r, v)" by fastforce
  show ?thesis
  proof (cases r)
    case (Inl e)
    with q False assms(2,3) show ?thesis by (auto simp: tick_def poll_error)
  next
    case (Inr rows)
    with q query_range have "\<forall>x \<in> set (map ts_unix rows). int64_range x" by fastforce
    from foldl_max_range [OF assms(2) this] Inr q False assms(1,3) show ?thesis by (auto simp: tick_def poll_result)
  qed
qed

lemma run_poller_range:
  assumes "hub_inv h" "\<forall>h'. HubBecomes h' \<in> set es \<longrightarrow> hub_inv h'" "int64_range (last_seen p)"
  shows "\<exists>p' h' w'. run_poller env es p h w = Inr (p', h', w') \<and> hub_inv h' \<and> po_cfg p' = po_cfg p
      \<and> last_seen p \<le> last_seen p' \<and> int64_range (last_seen p')"
  using assms
proof (induction env es p h w rule: run_poller.induct)
  case (4 env now es p h w)
  from tick_safe [OF "4.prems"(1), of env now p w] obtain p1 h1 w1 where
    t: "tick env now p h w = Inr (p1, h1, w1)" "hub_inv h1" "last_seen p \<le> last_seen p1" "po_cfg p1 = po_cfg p" by blast
  have "int64_range (last_seen p1)" by (rule tick_range [OF "4.prems"(1,3) t(1)])
  then have "\<exists>p' h' w'. run_poller env es p1 h1 w1 = Inr (p', h', w') \<and> hub_inv h' \<and> po_cfg p' = po_cfg p1
      \<and> last_seen p1 \<le> last_seen p' \<and> int64_range (last_seen p')"
    using "4.IH" [OF t(1)] t(2) "4.prems"(2) by auto
  with t show ?case by (auto intro: order_trans)
qed auto

lemma poll_query_bound:
  assumes "int64_range seen"
  shows "poll_query seen = sprintf poll_sql [if seen = 2 ^ 63 - 1 then - (2 ^ 63) else seen + 1, int poll_limit]"
  using assms i64_max_wraps by (auto simp: poll_query_def int64_range_def)

section \<open>Property of the cursor\<close>

text \<open>
  C28: whatever ClickHouse answers, however many ticks fire and however the connection handlers change
  the hub in between, the poller's loop returns without a panic, leaves the hub well formed, and its
  cursor never moves back and never leaves the range of \<open>int64\<close>. The lower bound of the next query is
  one above the cursor, but for one value: a row that claims the greatest \<open>int64\<close> makes the bound wrap
  around to the least, and from then on the cursor never moves again.
\<close>

theorem cursor_bounds:
  assumes "hub_inv h" "\<forall>h'. HubBecomes h' \<in> set es \<longrightarrow> hub_inv h'" "int64_range (last_seen p)"
  shows "\<exists>p' h' w'. run_poller env es p h w = Inr (p', h', w') \<and> hub_inv h' \<and> po_cfg p' = po_cfg p
      \<and> last_seen p \<le> last_seen p' \<and> last_seen p' < 2 ^ 63
      \<and> poll_query (last_seen p')
          = sprintf poll_sql [if last_seen p' = 2 ^ 63 - 1 then - (2 ^ 63) else last_seen p' + 1, int poll_limit]
      \<and> (last_seen p = 2 ^ 63 - 1 \<longrightarrow> last_seen p' = 2 ^ 63 - 1)"
proof -
  obtain p' h' w' where r: "run_poller env es p h w = Inr (p', h', w')" "hub_inv h'" "po_cfg p' = po_cfg p"
    "last_seen p \<le> last_seen p'" "int64_range (last_seen p')"
    using run_poller_range [OF assms, of env w] by blast
  from r(5) have "last_seen p' < 2 ^ 63" by (simp add: int64_range_def)
  with r poll_query_bound [OF r(5)] show ?thesis by (intro exI [of _ p'] exI [of _ h'] exI [of _ w']) simp
qed

theorem cursor_bounds_witness:
  "\<exists>p' h' w'. run_poller (fixed_env (\<lambda>_. [sample_row]) 0) [Ticked 0, HubBecomes sample_hub, Ticked 5, CtxDone]
       sample_poller new_hub () = Inr (p', h', w') \<and> 90 \<le> last_seen p' \<and> last_seen p' < 2 ^ 63"
proof -
  have i: "\<forall>h'. HubBecomes h' \<in> set [Ticked 0, HubBecomes sample_hub, Ticked 5, CtxDone] \<longrightarrow> hub_inv h'"
    by (simp add: sample_hub_inv)
  have r: "int64_range (last_seen sample_poller)" "90 \<le> last_seen sample_poller"
    by (simp_all add: sample_poller_def int64_range_def)
  from cursor_bounds [OF hub_inv_new i r(1), of "fixed_env (\<lambda>_. [sample_row]) 0" "()"] r(2) show ?thesis
    by (blast intro: order_trans)
qed

end
