(* ===== verification/Request_Log.thy ===== *)
theory Request_Log
  imports Status_Log
begin

text \<open>
  What the handlers and the poller log: the calls of \<open>slogErrorCtx\<close> and \<open>slogInfoCtx\<close> in
  \<open>handleEvents\<close>, \<open>handleAudit\<close>, \<open>handleSSE\<close>, \<open>poll\<close> and the two readers of ClickHouse replies. Each
  definition takes what the operation takes and gives the lines it writes, in order. The texts of the
  errors of \<open>encoding/json\<close> are abbreviated.
\<close>

section \<open>Lines\<close>

definition undecoded_msg :: string where "undecoded_msg = ''row unmarshal failed''"

definition undecoded_lines :: "span \<Rightarrow> string \<Rightarrow> (string \<Rightarrow> 'r result) \<Rightarrow> string list \<Rightarrow> log_line list" where
  "undecoded_lines span component dec ls =
     concat (map (\<lambda>line. if line = [] then []
       else (case dec line of
               Inl e \<Rightarrow> [slog_error_ctx span component undecoded_msg (Some e) [str_attr ''line'' line]]
             | Inr _ \<Rightarrow> [])) ls)"

text \<open>One query: the lines of a reply that was read whole.\<close>

definition query_log ::
  "span \<Rightarrow> string \<Rightarrow> (string \<Rightarrow> 'r result) \<Rightarrow> 'w env \<Rightarrow> config \<Rightarrow> string \<Rightarrow> ch_params \<Rightarrow> 'w \<Rightarrow> log_line list" where
  "query_log span component dec env cfg query params w =
     (case clickhouse_exchange env cfg query params w of
        (Inl e, w') \<Rightarrow> []
      | (Inr body, w') \<Rightarrow> undecoded_lines span component dec (body_lines body))"

fun windows_log ::
  "span \<Rightarrow> 'w env \<Rightarrow> config \<Rightarrow> url_values \<Rightarrow> ns_scope option \<Rightarrow> time \<Rightarrow> duration list \<Rightarrow> 'w \<Rightarrow> log_line list" where
  "windows_log span env cfg q scope now [] w = []"
| "windows_log span env cfg q scope now (win # wins) w =
     (case build_events_query_window q scope (window_since now win) of
        Inl e \<Rightarrow> []
      | Inr (query, params) \<Rightarrow>
          query_log span ''query'' decode_row env cfg query params w
          @ (case query_clickhouse env cfg query params w of
               (Inl e, w') \<Rightarrow> []
             | (Inr rows, w') \<Rightarrow>
                 if win = 0 \<or> int (length rows) \<ge> parse_limit (values_get ''limit'' q) then []
                 else windows_log span env cfg q scope now wins w'))"

text \<open>
  \<open>write_err\<close> is what \<open>Encode\<close> returns when it writes an answer to the connection, an error when the
  caller is gone. It goes to the log and nowhere else.
\<close>

definition encode_msg :: string where "encode_msg = ''response encode failed''"

definition encode_log :: "span \<Rightarrow> string \<Rightarrow> go_error option \<Rightarrow> log_line list" where
  "encode_log span component err =
     (case err of None \<Rightarrow> [] | Some e \<Rightarrow> [slog_error_ctx span component encode_msg (Some e) []])"

definition events_log ::
  "span \<Rightarrow> (string \<Rightarrow> go_error option) \<Rightarrow> 'w deps \<Rightarrow> scoper_ref option \<Rightarrow> http_request \<Rightarrow> 'w state \<Rightarrow> log_line list" where
  "events_log span write_err d scoper r s =
     (case resolve_request_scope d scoper r s of
        None \<Rightarrow> []
      | Some (Inl e, s1) \<Rightarrow> [slog_error_ctx span ''events'' ''rbac scope resolution failed'' (Some e) []]
      | Some (Inr scope, s1) \<Rightarrow>
          if restricted scope \<and> length (scope_list scope) = 0 then []
          else (case build_events_query (url_query r) scope of
                  Inl e \<Rightarrow> []
                | Inr _ \<Rightarrow>
                    (case env_now (dp_env d) (snd s1) of
                       (now, w1) \<Rightarrow>
                         windows_log span (dp_client d) (dp_cfg d) (url_query r) scope now events_windows w1
                         @ (case query_events_windowed (dp_client d) (dp_cfg d) (url_query r) scope now w1 of
                              (Inl e, w2) \<Rightarrow> [slog_error_ctx span ''events'' ''clickhouse query failed'' (Some e) []]
                            | (Inr rows, w2) \<Rightarrow> encode_log span ''events'' (write_err (events_body rows))))))"

definition audit_log ::
  "span \<Rightarrow> (string \<Rightarrow> go_error option) \<Rightarrow> 'w deps \<Rightarrow> scoper_ref option \<Rightarrow> http_request \<Rightarrow> 'w state \<Rightarrow> log_line list" where
  "audit_log span write_err d scoper r s =
     (case scoper of
        None \<Rightarrow> []
      | Some _ \<Rightarrow>
          (case resolve_request_scope d scoper r s of
             None \<Rightarrow> []
           | Some (Inl e, s1) \<Rightarrow> [slog_error_ctx span ''audit'' ''rbac scope resolution failed'' (Some e) []]
           | Some (Inr scope, s1) \<Rightarrow>
               if restricted scope \<and> length (scope_list scope) = 0 then []
               else (case build_audit_query (url_query r) scope 0 of
                       Inl e \<Rightarrow> []
                     | Inr (query, params) \<Rightarrow>
                         query_log span ''audit'' decode_audit (dp_client d) (dp_cfg d) query params (snd s1)
                         @ (case query_audit_records (dp_client d) (dp_cfg d) query params (snd s1) of
                              (Inl e, w2) \<Rightarrow> [slog_error_ctx span ''audit'' ''clickhouse query failed'' (Some e) []]
                            | (Inr rows, w2) \<Rightarrow> encode_log span ''audit'' (write_err (audit_body rows))))))"

definition stream_log ::
  "span \<Rightarrow> 'w deps \<Rightarrow> scoper_ref option \<Rightarrow> http_request \<Rightarrow> response_writer \<Rightarrow> 'w state \<Rightarrow> log_line list" where
  "stream_log span d scoper r w s =
     (if \<not> rw_flusher w then []
      else (case resolve_request_scope d scoper r s of
              Some (Inl e, s1) \<Rightarrow> [slog_error_ctx span ''sse'' ''rbac scope resolution failed'' (Some e) []]
            | _ \<Rightarrow> []))"

text \<open>The context of the poller carries no span.\<close>

definition poll_log :: "'w env \<Rightarrow> poller \<Rightarrow> hub \<Rightarrow> 'w \<Rightarrow> log_line list" where
  "poll_log env p h w =
     query_log None ''query'' decode_row env (po_cfg p) (poll_query (last_seen p)) [] w
     @ (case query_clickhouse env (po_cfg p) (poll_query (last_seen p)) [] w of
          (Inl e, w') \<Rightarrow> [slog_error_ctx None ''poller'' ''clickhouse query failed'' (Some e) []]
        | (Inr rows, w') \<Rightarrow>
            (case poll_rows rows (last_seen p) h 0 0 of
               Inl pc \<Rightarrow> []
             | Inr (max_ts, h', delivered, dropped) \<Rightarrow>
                 if length rows > 0
                 then [slog_info_ctx None ''poller'' ''broadcasted events''
                         [Attr ''count'' (LInt (int (length rows))), Attr ''delivered'' (LInt delivered),
                          Attr ''dropped'' (LInt dropped), Attr ''last_seen'' (LInt (max max_ts (last_seen p)))]]
                 else []))"

section \<open>Laws\<close>

definition failure_line :: "log_line \<Rightarrow> bool" where
  "failure_line l \<longleftrightarrow> ll_level l = Level_Error \<and> ll_msg l \<notin> {undecoded_msg, encode_msg}"

lemma slog_error_ctx_simps [simp]:
  "ll_level (slog_error_ctx span c m err as) = Level_Error" "ll_msg (slog_error_ctx span c m err as) = m"
  by (simp_all add: slog_error_ctx_def)

lemma undecoded_no_failure: "l \<in> set (undecoded_lines span c dec ls) \<Longrightarrow> \<not> failure_line l"
  by (auto simp: undecoded_lines_def failure_line_def split: if_splits sum.splits)

lemma query_no_failure: "l \<in> set (query_log span c dec env cfg q ps w) \<Longrightarrow> \<not> failure_line l"
  by (auto simp: query_log_def dest: undecoded_no_failure split: prod.splits sum.splits)

lemma windows_no_failure: "l \<in> set (windows_log span env cfg q scope now wins w) \<Longrightarrow> \<not> failure_line l"
proof (induction wins arbitrary: w)
  case (Cons win wins)
  then show ?case by (auto dest: query_no_failure split: sum.splits prod.splits if_splits)
qed simp

lemma encode_no_failure: "l \<in> set (encode_log span c err) \<Longrightarrow> \<not> failure_line l"
  by (auto simp: encode_log_def failure_line_def split: option.splits)

lemma no_failures [simp]:
  "list_all (\<lambda>l. \<not> failure_line l) (query_log span c dec env cfg q ps w)"
  "list_all (\<lambda>l. \<not> failure_line l) (windows_log span env cfg vs scope now wins w)"
  "list_all (\<lambda>l. \<not> failure_line l) (encode_log span c err)"
  by (auto simp: list_all_iff dest: query_no_failure windows_no_failure encode_no_failure)

lemma failure_msgs: "''clickhouse query failed'' \<notin> {undecoded_msg, encode_msg}"
  "''rbac scope resolution failed'' \<notin> {undecoded_msg, encode_msg}"
  by (simp_all add: undecoded_msg_def encode_msg_def)

lemma failure_here: "m \<notin> {undecoded_msg, encode_msg} \<Longrightarrow> failure_line (slog_error_ctx span c m err as)"
  by (simp add: failure_line_def)

text \<open>The lines a reader logs are the lines it does not return.\<close>

lemma undecoded_count:
  "length (undecoded_lines span c dec ls) + length (decode_lines dec ls) = length (filter (\<lambda>l. l \<noteq> []) ls)"
  by (induction dec ls rule: decode_lines.induct) (auto simp: undecoded_lines_def split: sum.split)

text \<open>
  What a handler owes the operator: an answer of status 500 and a line about the failure come together,
  and the answer says nothing of the cause.
\<close>

definition reported :: "response_writer \<Rightarrow> response_writer \<Rightarrow> log_line list \<Rightarrow> bool" where
  "reported w w' ls \<longleftrightarrow> (status_of w' = Some 500 \<longleftrightarrow> (\<exists>l \<in> set ls. failure_line l))
     \<and> (status_of w' = Some 500 \<longrightarrow> rw_body w' = rw_body w @ ''internal error'' @ [nl])"

lemma reported_error:
  assumes "rw_sent w = None" "rw_body w = rw_body v" "failure_line l" "l \<in> set ls"
  shows "reported v (http_error ''internal error'' 500 w) ls"
  using assms by (auto simp: reported_def http_simps)

lemma reported_quiet:
  assumes "status_of w' \<noteq> Some 500" "\<forall>l \<in> set ls. \<not> failure_line l"
  shows "reported w w' ls"
  using assms by (auto simp: reported_def)

lemma announce_scope_writer [simp]:
  "rw_sent (announce_scope sc w) = rw_sent w" "rw_body (announce_scope sc w) = rw_body w"
  by (simp_all add: announce_scope_def header_set_def split: option.split)

lemma answers_not_500:
  assumes "rw_sent w = None"
  shows "status_of (json_reply body w) \<noteq> Some 500" "status_of (write_body body w) \<noteq> Some 500"
    "status_of (http_error e 400 w) \<noteq> Some 500" "status_of (write_body body (write_header 503 w)) \<noteq> Some 500"
  using assms by (simp_all add: json_reply_def status_of_def http_simps http_error_def Let_def)

lemma reported_500:
  assumes "rw_sent w = None" "rw_body w = rw_body v" "m \<notin> {undecoded_msg, encode_msg}"
  shows "reported v (http_error ''internal error'' 500 w) (ls @ [slog_error_ctx span c m err as])"
  by (rule reported_error [OF assms(1,2) failure_here [OF assms(3), of span c err as]]) simp

lemma reported_answers:
  assumes "rw_sent v = None" "list_all (\<lambda>l. \<not> failure_line l) ls"
  shows "reported w (json_reply body v) ls" "reported w (write_body body v) ls" "reported w (http_error e 400 v) ls"
  using assms by (simp_all add: reported_quiet answers_not_500 list_all_iff)

lemma events_reported:
  assumes h: "handle_events d scoper r w s = Some (w', s')" and n: "rw_sent w = None"
  shows "reported w w' (events_log span write_err d scoper r s)"
proof -
  note e500 = reported_500 [OF n refl failure_msgs(2), where ls = "[]", simplified]
  note q500 = reported_500 [OF n refl failure_msgs(1)]
  obtain res s1 where r: "resolve_request_scope d scoper r s = Some (res, s1)"
    using h by (cases "resolve_request_scope d scoper r s") (auto simp: handle_events_def)
  obtain now w1 where t: "env_now (dp_env d) (snd s1) = (now, w1)" by (cases "env_now (dp_env d) (snd s1)")
  show ?thesis
  proof (cases res)
    case (Inl e)
    with h r e500 show ?thesis by (auto simp: handle_events_def events_log_def)
  next
    case (Inr scope)
    obtain q w2 where q: "query_events_windowed (dp_client d) (dp_cfg d) (url_query r) scope now w1 = (q, w2)"
      by (cases "query_events_windowed (dp_client d) (dp_cfg d) (url_query r) scope now w1")
    note x = handle_events_def events_log_def r t q Inr
    show ?thesis
      by (cases "restricted scope \<and> length (scope_list scope) = 0"; cases "build_events_query (url_query r) scope"; cases q)
        (use h n in \<open>auto simp: x intro!: q500 reported_answers\<close>)
  qed
qed

lemma audit_reported:
  assumes h: "handle_audit d scoper r w s = Some (w', s')" and n: "rw_sent w = None"
  shows "reported w w' (audit_log span write_err d scoper r s)"
proof (cases scoper)
  case None
  have "rw_sent (header_set k v w) = None" for k v using n by (simp add: header_set_def)
  with None h show ?thesis by (auto simp: handle_audit_def audit_log_def answers_not_500 intro!: reported_quiet)
next
  case (Some ref)
  obtain res s1 where r: "resolve_request_scope d scoper r s = Some (res, s1)"
    using h Some by (cases "resolve_request_scope d scoper r s") (auto simp: handle_audit_def)
  show ?thesis
  proof (cases res)
    case (Inl e)
    with h r Some reported_500 [OF n refl failure_msgs(2), where ls = "[]", simplified] show ?thesis
      by (auto simp: handle_audit_def audit_log_def)
  next
    case (Inr scope)
    let ?v = "announce_scope scope (header_set ''Content-Type'' ''application/json'' w)"
    have v: "rw_sent ?v = None" "rw_body ?v = rw_body w" using n by (simp_all add: header_set_def)
    note q500 = reported_500 [OF v failure_msgs(1)]
    show ?thesis
    proof (cases "restricted scope \<and> length (scope_list scope) = 0")
      case True
      with h r Some Inr v show ?thesis
        by (auto simp: handle_audit_def audit_log_def Let_def intro!: reported_answers)
    next
      case go: False
      show ?thesis
      proof (cases "build_audit_query (url_query r) scope 0")
        case (Inl e)
        with h r Some Inr v go show ?thesis
          by (auto simp: handle_audit_def audit_log_def Let_def intro!: reported_answers)
      next
        case b: (Inr qp)
        obtain query ps where qp: "qp = (query, ps)" by (cases qp)
        obtain q w2 where "query_audit_records (dp_client d) (dp_cfg d) query ps (snd s1) = (q, w2)"
          by (cases "query_audit_records (dp_client d) (dp_cfg d) query ps (snd s1)")
        with h r Some Inr v go b qp show ?thesis
          by (cases q) (auto simp: handle_audit_def audit_log_def Let_def intro!: q500 reported_answers)
      qed
    qed
  qed
qed

section \<open>Property of the logs\<close>

text \<open>
  C31: an operator sees every failure of a request and the caller none of its cause: \<open>/events\<close> and
  \<open>/audit\<close> answer 500 exactly when they write an error line other than the ones about a row that does not
  decode and about an answer the caller is no longer there to take, and the body of that answer is the fixed text \<open>internal error\<close>.
\<close>

theorem failures_logged:
  assumes "rw_sent w = None"
    and "handle_events d scoper r w s = Some (w', s') \<and> ls = events_log span write_err d scoper r s
       \<or> handle_audit d scoper r w s = Some (w', s') \<and> ls = audit_log span write_err d scoper r s"
  shows "(status_of w' = Some 500 \<longleftrightarrow> (\<exists>l \<in> set ls. ll_level l = Level_Error \<and> ll_msg l \<notin> {''row unmarshal failed'', ''response encode failed''}))
     \<and> (status_of w' = Some 500 \<longrightarrow> rw_body w' = rw_body w @ ''internal error'' @ [nl])"
proof -
  have "reported w w' ls"
    using assms(2) events_reported [OF _ assms(1)] audit_reported [OF _ assms(1)] by (elim disjE conjE) simp_all
  then show ?thesis by (simp add: reported_def failure_line_def undecoded_msg_def encode_msg_def)
qed

theorem failures_logged_witness:
  "\<exists>w'. handle_events sample_deps (Some 0) (sample_request []) (new_writer True) ([sample_scoper], ())
       = Some (w', ([sample_scoper], ()))
     \<and> status_of w' = Some 500 \<and> rw_body w' = ''internal error'' @ [nl]
     \<and> (\<exists>l \<in> set (events_log None (\<lambda>_. None) sample_deps (Some 0) (sample_request []) ([sample_scoper], ())).
          ll_level l = Level_Error \<and> ll_msg l \<notin> {''row unmarshal failed'', ''response encode failed''})"
proof -
  have r: "resolve_request_scope sample_deps (Some 0) (sample_request []) ([sample_scoper], ())
      = Some (Inl ''rbac scoping enabled but no verified identity on request'', ([sample_scoper], ()))"
    by (simp add: resolve_request_scope_def sample_request_def)
  have n: "rw_sent (new_writer True) = None" "rw_body (new_writer True) = []" by (simp_all add: new_writer_def)
  let ?w = "http_error ''internal error'' 500 (new_writer True)"
  have h: "handle_events sample_deps (Some 0) (sample_request []) (new_writer True) ([sample_scoper], ())
      = Some (?w, ([sample_scoper], ()))"
    by (simp add: handle_events_def r)
  moreover have "status_of ?w = Some 500" using n by (simp add: http_simps)
  ultimately show ?thesis
    using failures_logged [OF n(1) disjI1 [OF conjI [OF h refl]], of None "\<lambda>_. None"] n by simp
qed

end
