(* ===== verification/Telemetry.thy ===== *)
theory Telemetry
  imports Startup
begin

text \<open>
  What \<open>setupTelemetry\<close> of \<open>telemetry.go\<close> does beside deciding the signals, which is \<open>setup_telemetry\<close> of
  \<open>Startup\<close>: the globals of OpenTelemetry it sets and the function it returns, which stops the
  providers. Creating a resource, an exporter or a provider and stopping one are calls of the SDK; what
  they return is a parameter.
\<close>

section \<open>What is installed\<close>

datatype propagator = Trace_Context | Baggage

text \<open>A resource is the detected one with the service's name, or the bare name when detection fails.\<close>

datatype otel_resource = Detected_Resource string | Schemaless_Resource string

definition service_name :: string where "service_name = ''sse-proxy''"

definition otel_resource_of :: "go_error option \<Rightarrow> otel_resource" where
  "otel_resource_of resource_err =
     (case resource_err of
        None \<Rightarrow> Detected_Resource service_name
      | Some e \<Rightarrow> Schemaless_Resource service_name)"

record otel_globals =
  og_propagators :: "propagator list"
  og_tracer :: "otel_resource option"
  og_meter :: "otel_resource option"

text \<open>The no-op globals the SDK starts with.\<close>

definition otel_default :: otel_globals where
  "otel_default = \<lparr>og_propagators = [], og_tracer = None, og_meter = None\<rparr>"

definition otel_installs ::
  "environ \<Rightarrow> go_error option \<Rightarrow> go_error option \<Rightarrow> go_error option \<Rightarrow> otel_globals \<Rightarrow> otel_globals" where
  "otel_installs g resource_err trace_exporter_err metric_exporter_err o0 =
     (let master = env_enabled g ''OTEL_ENABLED'';
          tracing = env_enabled_or g ''OTEL_TRACING_ENABLED'' master;
          metrics = env_enabled_or g ''OTEL_METRICS_ENABLED'' master
      in if \<not> tracing \<and> \<not> metrics then o0
         else
           let res = otel_resource_of resource_err;
               o1 = o0\<lparr>og_propagators := [Trace_Context, Baggage]\<rparr>;
               o2 = (if tracing
                     then (case trace_exporter_err of Some e \<Rightarrow> o1 | None \<Rightarrow> o1\<lparr>og_tracer := Some res\<rparr>)
                     else o1)
           in if metrics
              then (case metric_exporter_err of Some e \<Rightarrow> o2 | None \<Rightarrow> o2\<lparr>og_meter := Some res\<rparr>)
              else o2)"

section \<open>The shutdown function\<close>

text \<open>\<open>errors.Join\<close>: nil when both are, otherwise the messages of those that are not, a line each.\<close>

fun errors_join :: "go_error option \<Rightarrow> go_error option \<Rightarrow> go_error option" where
  "errors_join None e = e"
| "errors_join (Some e) None = Some e"
| "errors_join (Some e) (Some e') = Some (e @ [nl] @ e')"

text \<open>\<open>stop\<close> stops the provider of a name.\<close>

fun stop_all ::
  "(string \<Rightarrow> 'w \<Rightarrow> go_error option \<times> 'w) \<Rightarrow> string list \<Rightarrow> go_error option \<Rightarrow> 'w \<Rightarrow> go_error option \<times> 'w" where
  "stop_all stop [] err w = (err, w)"
| "stop_all stop (p # ps) err w = (case stop p w of (e, w') \<Rightarrow> stop_all stop ps (errors_join err e) w')"

definition shutdown_telemetry ::
  "(string \<Rightarrow> 'w \<Rightarrow> go_error option \<times> 'w) \<Rightarrow> string list \<Rightarrow> 'w \<Rightarrow> go_error option \<times> 'w" where
  "shutdown_telemetry stop shutdowns w = stop_all stop shutdowns None w"

section \<open>Laws\<close>

lemma errors_join_None [simp]: "errors_join e e' = None \<longleftrightarrow> e = None \<and> e' = None"
  by (cases e; cases e') simp_all

lemma errors_join_right [simp]: "errors_join e None = e"
  by (cases e) simp_all

lemma errors_join_assoc: "errors_join (errors_join a b) c = errors_join a (errors_join b c)"
  by (cases a; cases b; cases c) simp_all

lemma stop_all_worlds: "snd (stop_all stop ps err w) = fold (\<lambda>p w. snd (stop p w)) ps w"
  by (induction stop ps err w rule: stop_all.induct) (auto split: prod.split)

lemma stop_all_error: "fst (stop_all stop ps err w) = errors_join err (fst (stop_all stop ps None w))"
proof (induction ps arbitrary: err w)
  case (Cons p ps)
  obtain e w' where p: "stop p w = (e, w')" by (cases "stop p w")
  show ?case using Cons [of "errors_join err e" w'] Cons [of e w'] by (simp add: p errors_join_assoc)
qed simp

section \<open>Property of the shutdown\<close>

text \<open>
  What is installed is what is stopped. With both signals off the globals stay as they were and the
  shutdown does nothing; otherwise the propagators are set, a provider is installed exactly for the
  signals that are on, and the shutdown stops exactly the installed ones, the tracer first, the meter
  also when stopping the tracer failed, and fails exactly when one of them did.
\<close>

theorem telemetry_stops_installed:
  "let (t, shutdowns) = setup_telemetry g trace_err metric_err;
       o' = otel_installs g resource_err trace_err metric_err otel_default;
       (e1, w1) = (if og_tracer o' = None then (None, w) else stop ''tracer provider'' w);
       (e2, w2) = (if og_meter o' = None then (None, w1) else stop ''meter provider'' w1)
   in shutdown_telemetry stop shutdowns w = (errors_join e1 e2, w2)
      \<and> og_tracer o' = (if tracing_enabled t then Some (otel_resource_of resource_err) else None)
      \<and> og_meter o' = (if metrics_enabled t then Some (otel_resource_of resource_err) else None)
      \<and> (tracing_enabled t \<or> metrics_enabled t \<longrightarrow> og_propagators o' = [Trace_Context, Baggage])"
  by (cases "env_enabled_or g ''OTEL_TRACING_ENABLED'' (env_enabled g ''OTEL_ENABLED'')";
      cases "env_enabled_or g ''OTEL_METRICS_ENABLED'' (env_enabled g ''OTEL_ENABLED'')"; cases trace_err; cases metric_err)
    (simp_all add: setup_telemetry_def otel_installs_def otel_default_def shutdown_telemetry_def Let_def split_beta)

theorem telemetry_off_by_default:
  assumes "parse_bool (g ''OTEL_ENABLED'') \<noteq> Some True" "g ''OTEL_TRACING_ENABLED'' = []" "g ''OTEL_METRICS_ENABLED'' = []"
  shows "otel_installs g re te me o0 = o0 \<and> shutdown_telemetry stop (snd (setup_telemetry g te me)) w = (None, w)"
  using assms
  by (auto simp: otel_installs_def setup_telemetry_def shutdown_telemetry_def env_enabled_def env_enabled_or_def Let_def
      split: option.splits)

end
