(* ===== verification/Delivery.thy ===== *)
theory Delivery
  imports Proxy_System
begin

text \<open>
  What becomes of a message once it waits for a connection: with everything else of the proxy running
  next to it, it is neither lost nor overtaken, and the connection's handler alone can bring it out.
\<close>

section \<open>What was handed to a connection\<close>

definition backlog :: "hub_system \<Rightarrow> cid \<Rightarrow> sse_message list" where
  "backlog s c = (case hub_store (hs_hub s) c of None \<Rightarrow> [] | Some cl \<Rightarrow> ch_buf (cl_ch cl))"

text \<open>Written or waiting, in the order of arrival.\<close>

definition handed :: "hub_system \<Rightarrow> cid \<Rightarrow> sse_message list" where
  "handed s c = hs_out s c @ backlog s c"

definition asked_for :: "hub_system \<Rightarrow> cid \<Rightarrow> sse_message \<Rightarrow> bool" where
  "asked_for s c m = (case hub_store (hs_hub s) c of None \<Rightarrow> False | Some cl \<Rightarrow> wants cl m)"

text \<open>
  From \<open>s\<close> to \<open>t\<close> a connection only gains: what it was handed grows at the end, by a subsequence of the
  messages published meanwhile that it asked for, as many as there are but for those dropped.
\<close>

definition gains :: "cid \<Rightarrow> hub_system \<Rightarrow> hub_system \<Rightarrow> bool" where
  "gains c s t \<longleftrightarrow> asked_for t c = asked_for s c \<and> prefix (hs_out s c) (hs_out t c)
     \<and> (\<exists>ps new. hs_published t c = hs_published s c @ ps \<and> handed t c = handed s c @ new
          \<and> subseq new (filter (asked_for s c) ps)
          \<and> length new + hs_lost t c = length (filter (asked_for s c) ps) + hs_lost s c)"

lemma gains_same:
  assumes "asked_for t c = asked_for s c" "prefix (hs_out s c) (hs_out t c)" "hs_published t c = hs_published s c"
    "handed t c = handed s c" "hs_lost t c = hs_lost s c"
  shows "gains c s t"
  using assms by (simp add: gains_def)

lemma gains_trans:
  assumes "gains c s t" "gains c t u"
  shows "gains c s u"
proof -
  from assms(1) obtain ps xs where s: "asked_for t c = asked_for s c" "prefix (hs_out s c) (hs_out t c)"
    "hs_published t c = hs_published s c @ ps" "handed t c = handed s c @ xs" "subseq xs (filter (asked_for s c) ps)"
    "length xs + hs_lost t c = length (filter (asked_for s c) ps) + hs_lost s c" by (auto simp: gains_def)
  from assms(2) obtain qs ys where t: "asked_for u c = asked_for t c" "prefix (hs_out t c) (hs_out u c)"
    "hs_published u c = hs_published t c @ qs" "handed u c = handed t c @ ys" "subseq ys (filter (asked_for t c) qs)"
    "length ys + hs_lost u c = length (filter (asked_for t c) qs) + hs_lost t c" by (auto simp: gains_def)
  have "subseq (xs @ ys) (filter (asked_for s c) (ps @ qs))"
    using list_emb_append_mono [OF s(5) t(5)] s(1) by simp
  moreover have "length (xs @ ys) + hs_lost u c = length (filter (asked_for s c) (ps @ qs)) + hs_lost s c"
    using s(1,6) t(6) by simp
  moreover have "asked_for u c = asked_for s c" "prefix (hs_out s c) (hs_out u c)"
    "hs_published u c = hs_published s c @ ps @ qs" "handed u c = handed s c @ xs @ ys"
    using s(1-4) t(1-4) by (simp_all add: prefix_order.order_trans)
  ultimately show ?thesis unfolding gains_def by blast
qed

section \<open>One step\<close>

lemma gains_deliver:
  assumes "client_recv d (hs_hub s) = (Got m, h)" "hub_store (hs_hub s) d = Some cl"
  shows "gains c s (s\<lparr>hs_hub := h, hs_out := (hs_out s)(d := hs_out s d @ [m])\<rparr>)"
proof -
  from client_recv_Got [OF assms] obtain xs where "ch_buf (cl_ch cl) = m # xs"
    "h = (hs_hub s)\<lparr>hub_store := (hub_store (hs_hub s))(d \<mapsto> cl\<lparr>cl_ch := (cl_ch cl)\<lparr>ch_buf := xs\<rparr>\<rparr>)\<rparr>" by metis
  then show ?thesis
    using assms(2) by (intro gains_same) (auto simp: asked_for_def handed_def backlog_def fun_eq_iff)
qed

lemma gains_publish:
  assumes "hub_inv (hs_hub s)" "c \<in> set (hub_members (hs_hub s))" "broadcast m (hs_hub s) = Inr (h, n, d)"
  shows "gains c s ((record_publish m s)\<lparr>hs_hub := h\<rparr>)"
proof -
  obtain cl where cl: "hub_store (hs_hub s) c = Some cl" using hub_invD [OF assms(1,2)] by auto
  have h: "h = after_message m (hs_hub s)" using broadcast_result [OF assms(1), of m] assms(3) by simp
  let ?t = "(record_publish m s)\<lparr>hs_hub := h\<rparr>"
  let ?new = "if wants cl m \<and> 0 < chan_room (cl_ch cl) then [m] else []"
  have "asked_for ?t c = asked_for s c" using cl assms(2) h by (simp add: asked_for_def record_publish_def fun_eq_iff)
  moreover have "hs_out ?t c = hs_out s c" "hs_published ?t c = hs_published s c @ [m]" "handed ?t c = handed s c @ ?new"
    using cl assms(2) h by (simp_all add: handed_def backlog_def record_publish_def receive_def)
  moreover have "length ?new + hs_lost ?t c = length (filter (asked_for s c) [m]) + hs_lost s c"
    using cl assms(2) by (simp add: asked_for_def record_publish_def)
  moreover have "subseq ?new (filter (asked_for s c) [m])" using cl by (simp add: asked_for_def)
  ultimately show ?thesis unfolding gains_def by (intro conjI exI [of _ "[m]"] exI [of _ ?new]) simp_all
qed

lemma gains_step:
  assumes "hub_step s t" "system_inv s" "hs_phase s c = Streaming" "hs_phase t c = Streaming"
  shows "gains c s t"
  using assms(1)
proof (cases rule: hub_step.cases)
  case (connect d topic sc)
  with assms(3) have "d \<noteq> c" by auto
  with connect(1) show ?thesis
    by (intro gains_same) (simp_all add: asked_for_def handed_def backlog_def hub_register_def alloc_client_def fun_eq_iff)
next
  case (deliver d m h)
  from assms(2) deliver(2) obtain cl where "hub_store (hs_hub s) d = Some cl"
    by (auto simp: system_inv_def stream_inv_def)
  from gains_deliver [OF deliver(3) this] deliver(1) show ?thesis by simp
next
  case (disconnect d h)
  with assms(4) have "d \<noteq> c" by auto
  from disconnect(3) have "hub_store h = hub_store (hs_hub s) \<or> (\<exists>cl. hub_store h = (hub_store (hs_hub s))(d \<mapsto> cl))"
    by (auto simp: hub_unregister_def Let_def split: option.splits sum.splits)
  with \<open>d \<noteq> c\<close> disconnect(1) show ?thesis
    by (intro gains_same) (auto simp: asked_for_def handed_def backlog_def fun_eq_iff)
next
  case (publish m h n x)
  have "c \<in> set (hub_members (hs_hub s))" using assms(2,3) by (simp add: system_inv_def)
  from gains_publish [OF system_inv_hub [OF assms(2)] this publish(2)] publish(1) show ?thesis by simp
qed

lemma step_not_fresh: "hub_step s t \<Longrightarrow> hs_phase s c \<noteq> Fresh \<Longrightarrow> hs_phase t c \<noteq> Fresh"
  by (erule hub_stepE) (auto simp: record_publish_def)

lemma step_not_reopened: "hub_step s t \<Longrightarrow> hs_phase s c = Ended \<Longrightarrow> hs_phase t c = Ended"
  by (erule hub_stepE) (auto simp: record_publish_def)

section \<open>A run\<close>

lemma gains_run:
  assumes "proxy_run env client lib a s t" "hub_reachable (xs_hub s)" "hs_phase (xs_hub s) c = Streaming"
  shows "hub_reachable (xs_hub t) \<and> hs_phase (xs_hub t) c \<noteq> Fresh
     \<and> (hs_phase (xs_hub t) c = Streaming \<longrightarrow> gains c (xs_hub s) (xs_hub t))"
  using assms(1) unfolding proxy_run_def
proof (induction rule: rtranclp_induct)
  case base
  show ?case using assms(2,3) by (simp add: gains_same)
next
  case (step t u)
  from step_hub [OF step.hyps(2)] show ?case
  proof
    assume h: "hub_step (xs_hub t) (xs_hub u)"
    have "gains c (xs_hub s) (xs_hub u)" if u: "hs_phase (xs_hub u) c = Streaming"
    proof -
      have t: "hs_phase (xs_hub t) c = Streaming"
        using step.IH step_not_reopened [OF h] u by (cases "hs_phase (xs_hub t) c") auto
      with gains_step [OF h reachable_inv t u] step.IH show ?thesis by (blast intro: gains_trans)
    qed
    with step.IH h step_not_fresh [OF h] show ?thesis by (auto intro: hub_reachable.step)
  qed (use step.IH in simp)
qed

lemma gains_all:
  assumes "gains c s t" "hs_lost t c = hs_lost s c"
  shows "handed t c = handed s c @ filter (asked_for s c) (drop (length (hs_published s c)) (hs_published t c))"
  using assms subseq_same_length by (fastforce simp: gains_def)

text \<open>The handler of a connection alone empties its queue, a message a step.\<close>

lemma drain:
  assumes "hs_phase (xs_hub s) c = Streaming" "backlog (xs_hub s) c = q"
  shows "\<exists>u. (proxy_step env client lib a ^^ length q) s u \<and> hs_out (xs_hub u) c = hs_out (xs_hub s) c @ q
     \<and> backlog (xs_hub u) c = [] \<and> hs_phase (xs_hub u) = hs_phase (xs_hub s)
     \<and> (\<forall>d. d \<noteq> c \<longrightarrow> hs_out (xs_hub u) d = hs_out (xs_hub s) d \<and> backlog (xs_hub u) d = backlog (xs_hub s) d)
     \<and> xs_cache u = xs_cache s \<and> xs_poller u = xs_poller s \<and> xs_pc u = xs_pc s"
  using assms
proof (induction q arbitrary: s)
  case Nil
  then show ?case by (intro exI [of _ s]) simp
next
  case (Cons m q)
  from Cons.prems(2) obtain cl where cl: "hub_store (hs_hub (xs_hub s)) c = Some cl" "ch_buf (cl_ch cl) = m # q"
    by (auto simp: backlog_def split: option.splits)
  let ?h = "(hs_hub (xs_hub s))\<lparr>hub_store := (hub_store (hs_hub (xs_hub s)))(c \<mapsto> cl\<lparr>cl_ch := (cl_ch cl)\<lparr>ch_buf := q\<rparr>\<rparr>)\<rparr>"
  let ?t = "s\<lparr>xs_hub := (xs_hub s)\<lparr>hs_hub := ?h, hs_out := (hs_out (xs_hub s))(c := hs_out (xs_hub s) c @ [m])\<rparr>\<rparr>"
  have "client_recv c (hs_hub (xs_hub s)) = (Got m, ?h)" using cl by (simp add: client_recv_def chan_recv_def)
  from proxy_step.deliver [OF Cons.prems(1) this] have st: "proxy_step env client lib a s ?t" .
  have t: "hs_phase (xs_hub ?t) c = Streaming" "backlog (xs_hub ?t) c = q"
    "\<forall>d. d \<noteq> c \<longrightarrow> backlog (xs_hub ?t) d = backlog (xs_hub s) d"
    using Cons.prems(1) by (simp_all add: backlog_def)
  from Cons.IH [OF t(1,2)] obtain u where u: "(proxy_step env client lib a ^^ length q) ?t u"
    "hs_out (xs_hub u) c = hs_out (xs_hub ?t) c @ q" "backlog (xs_hub u) c = []" "hs_phase (xs_hub u) = hs_phase (xs_hub ?t)"
    "\<forall>d. d \<noteq> c \<longrightarrow> hs_out (xs_hub u) d = hs_out (xs_hub ?t) d \<and> backlog (xs_hub u) d = backlog (xs_hub ?t) d"
    "xs_cache u = xs_cache ?t" "xs_poller u = xs_poller ?t" "xs_pc u = xs_pc ?t" by blast
  have "(proxy_step env client lib a ^^ length (m # q)) s u"
    using relpowp_Suc_I2 [OF st u(1)] by simp
  with u(2-) t(3) show ?case by (intro exI [of _ u]) simp
qed

lemma backlog_bound:
  assumes "hub_reachable s" "hs_phase s c = Streaming"
  shows "length (backlog s c) \<le> client_buffer"
  using reachable_inv [OF assms(1)] assms(2)
  by (auto simp: system_inv_def stream_inv_def client_ok_def chan_ok_def backlog_def)

section \<open>Property of the delivery\<close>

text \<open>
  C8: a message that once waits for a connection is written. Let a connection stream in some state
  of the proxy and still in a later one, whatever ran in between: what it had been handed is the
  beginning of what it has been handed now, written before waiting, so that nothing was lost, repeated
  or overtaken; what came on top are, when nothing was dropped for it, all the messages published
  meanwhile that it asked for. And its handler, by itself and without touching any other connection or
  the poller, writes the rest in as many steps as messages wait, which are never more than a channel
  holds.
\<close>

theorem queued_is_written:
  assumes "proxy_run env client lib a (proxy_start s0 p w0) s" "rs_cache s0 = (\<lambda>_. None)" "0 < rs_ttl s0"
    and "proxy_run env client lib a s t" "hs_phase (xs_hub s) c = Streaming" "hs_phase (xs_hub t) c = Streaming"
  shows "prefix (handed (xs_hub s) c) (handed (xs_hub t) c) \<and> prefix (hs_out (xs_hub s) c) (hs_out (xs_hub t) c)
     \<and> (hs_lost (xs_hub t) c = hs_lost (xs_hub s) c \<longrightarrow>
          handed (xs_hub t) c = handed (xs_hub s) c
            @ filter (asked_for (xs_hub s) c) (drop (length (hs_published (xs_hub s) c)) (hs_published (xs_hub t) c)))
     \<and> length (backlog (xs_hub t) c) \<le> client_buffer
     \<and> (\<exists>u. (proxy_step env client lib a ^^ length (backlog (xs_hub t) c)) t u
          \<and> hs_out (xs_hub u) c = handed (xs_hub t) c \<and> backlog (xs_hub u) c = []
          \<and> (\<forall>d. d \<noteq> c \<longrightarrow> hs_out (xs_hub u) d = hs_out (xs_hub t) d \<and> backlog (xs_hub u) d = backlog (xs_hub t) d)
          \<and> xs_cache u = xs_cache t \<and> xs_poller u = xs_poller t \<and> xs_pc u = xs_pc t)"
proof -
  have "hub_reachable (xs_hub s)" using proxy_inv_run [OF assms(1-3)] by (simp add: proxy_inv_def)
  from gains_run [OF assms(4) this assms(5)] assms(6) have
    t: "hub_reachable (xs_hub t)" "gains c (xs_hub s) (xs_hub t)" by auto
  from t(2) have "prefix (handed (xs_hub s) c) (handed (xs_hub t) c)" "prefix (hs_out (xs_hub s) c) (hs_out (xs_hub t) c)"
    by (auto simp: gains_def)
  then show ?thesis
    using gains_all [OF t(2)] backlog_bound [OF t(1) assms(6)] drain [OF assms(6) refl, of env client lib a]
    by (fastforce simp: handed_def)
qed

theorem queued_is_written_witness:
  "\<exists>s t u. sample_steps (proxy_start sample_scoper sample_poller 0) s \<and> sample_steps s t
     \<and> hs_out (xs_hub t) 7 = [] \<and> handed (xs_hub t) 7 = [global_message feed_row]
     \<and> (proxy_step sample_api sample_feed sample_keys sample_auth ^^ 1) t u
     \<and> hs_out (xs_hub u) 7 = [global_message feed_row]"
proof -
  obtain s t where st: "sample_steps (proxy_start sample_scoper sample_poller 0) s" "sample_steps s t"
    "hs_phase (xs_hub s) 7 = Streaming" "hs_phase (xs_hub t) 7 = Streaming" "hs_out (xs_hub t) 7 = []"
    "map_option (\<lambda>cl. ch_buf (cl_ch cl)) (hub_store (hs_hub (xs_hub t)) 7) = Some [global_message feed_row]"
    using sample_queued by blast
  from st(6) have b: "backlog (xs_hub t) 7 = [global_message feed_row]" by (auto simp: backlog_def)
  with st(5) have h: "handed (xs_hub t) 7 = [global_message feed_row]" by (simp add: handed_def)
  from queued_is_written [OF st(1) sample_scoper_fresh st(2-4)] obtain u where
    "(proxy_step sample_api sample_feed sample_keys sample_auth ^^ length (backlog (xs_hub t) 7)) t u"
    "hs_out (xs_hub u) 7 = handed (xs_hub t) 7" by blast
  with st(1,2,5) b h show ?thesis by (intro exI [of _ s] exI [of _ t] exI [of _ u]) simp
qed

end
