(* ===== verification/Broken_Stream.thy ===== *)
theory Broken_Stream
  imports Sse_Handler
begin

text \<open>
  A connection that breaks. The handler of a stream ignores what \<open>Fprintf\<close> and \<open>Flush\<close> return: when the
  browser is gone it goes on taking messages from its channel until its context is done. What the
  browser has of the body is then a part of it that ends anywhere, and this theory says what a reader
  of the event stream makes of that.
\<close>

section \<open>A body that ends anywhere\<close>

definition complete_lines :: "string \<Rightarrow> string list" where
  "complete_lines s = butlast (split_on nl s)"

lemma complete_lines_Nil [simp]: "complete_lines [] = []"
  by (simp add: complete_lines_def)

lemma complete_lines_nl [simp]: "complete_lines (nl # s) = [] # complete_lines s"
  by (simp add: complete_lines_def)

lemma complete_lines_other:
  assumes "x \<noteq> nl"
  shows "complete_lines (x # s) = (case complete_lines s of [] \<Rightarrow> [] | l # ls \<Rightarrow> (x # l) # ls)"
proof -
  obtain y ys where "split_on nl s = y # ys" by (cases "split_on nl s") simp_all
  with assms show ?thesis by (simp add: complete_lines_def)
qed

lemma complete_lines_prefix: "prefix (complete_lines a) (complete_lines (a @ b))"
proof (induction a)
  case (Cons x a)
  show ?case
  proof (cases "x = nl")
    case False
    with Cons show ?thesis
      by (auto simp: complete_lines_other prefix_def split: list.splits)
  qed (use Cons in simp)
qed simp

lemma sse_read_prefix: "prefix (sse_read ls ev data) (sse_read (ls @ ls') ev data)"
proof (induction ls ev data rule: sse_read.induct)
  case (2 l ls ev data)
  obtain field v found where "cut CHR '':'' l = (field, v, found)" by (cases "cut CHR '':'' l")
  with 2 show ?case by (cases "l = []") simp_all
qed simp

text \<open>A reader never takes back an event and never makes one of half a frame.\<close>

lemma sse_decode_prefix: "prefix (sse_decode a) (sse_decode (a @ b))"
proof -
  obtain ls where "complete_lines (a @ b) = complete_lines a @ ls"
    using complete_lines_prefix [of a b] by (auto simp: prefix_def)
  then show ?thesis
    using sse_read_prefix by (simp add: sse_decode_def complete_lines_def [symmetric])
qed

lemma decode_cut:
  assumes "sse_decode s = map f xs"
  shows "\<exists>k. sse_decode (take n s) = map f (take k xs)"
proof -
  have "prefix (sse_decode (take n s)) (map f xs)"
    using sse_decode_prefix [of "take n s" "drop n s"] assms by simp
  then have "sse_decode (take n s) = take (length (sse_decode (take n s))) (map f xs)"
    by (auto simp: prefix_def)
  then show ?thesis by (auto simp: take_map)
qed

section \<open>The messages a stream wrote\<close>

lemma serve_stream_body:
  assumes "hub_inv h" "serve_stream c topic scope es h w = Inr (h', w', ret)"
  shows "\<exists>fs. rw_body w' = rw_body w @ concat (map frame_text (Connected # fs))
     \<and> subseq (frame_messages fs) (filter (wants (new_client topic scope)) (published es))"
proof -
  let ?want = "wants (new_client topic scope)"
  let ?h1 = "hub_register c (alloc_client c (new_client topic scope) h)"
  from stream_loop_result [OF listening_start [OF assms(1), of c topic scope], of es "write_frame Connected w"]
  obtain h2 w2 ret2 fs rest where r:
    "stream_loop c es ?h1 (write_frame Connected w) = Inr (h2, w2, ret2)"
    "rw_body w2 = rw_body (write_frame Connected w) @ concat (map frame_text fs)"
    "subseq (frame_messages fs @ rest) ([] @ filter ?want (published es))" by blast
  have "w' = w2"
    using assms(2) r(1) by (cases ret2) (auto simp: serve_stream_def Let_def split: sum.splits)
  moreover have "subseq (frame_messages fs) (frame_messages fs @ rest)"
    by (rule subseq_rev_drop_many) simp
  ultimately show ?thesis
    using r(2,3) by (intro exI [of _ fs]) (auto simp: write_frame_def http_simps intro: subseq_order.order_trans)
qed

section \<open>Property of a broken connection\<close>



end
